(* ===== verification/Prelude.thy ===== *)
theory Prelude
  imports Main "HOL-Library.Word" "HOL-Library.Monad_Syntax"
begin

text \<open>
  What every component of the development shares: names for the machine types of
  \<^verbatim>\<open>shared/lib.h\<close>, a byte-addressed memory with little-endian multi-byte accesses (the
  kernel's physical memory and a process's address space both have this shape), the
  rounding macros, and the word arithmetic lemmas that move a goal from words to
  natural numbers. The collections \<open>mem_simps\<close> (reads over writes) and \<open>to_nat\<close>
  (words to naturals) are what the component proofs simplify with.
\<close>

unbundle bit_operations_syntax

named_theorems mem_simps "reads over writes of a byte memory"
named_theorems to_nat "word operations as operations on natural numbers"

section \<open>Machine types\<close>

type_synonym u8 = "8 word"
type_synonym u16 = "16 word"
type_synonym u32 = "32 word"
type_synonym u64 = "64 word"
type_synonym addr = "64 word"
type_synonym mem = "64 word \<Rightarrow> 8 word"

abbreviation NULL :: addr where "NULL \<equiv> 0"

section \<open>Words as natural numbers\<close>

lemma unat_add64 [to_nat]:
  "unat a + unat b < 2 ^ 64 \<Longrightarrow> unat (a + b :: u64) = unat a + unat b"
  by (simp add: unat_word_ariths)

lemma unat_of_nat64 [to_nat]: "n < 2 ^ 64 \<Longrightarrow> unat (of_nat n :: u64) = n"
  by (simp add: unsigned_of_nat take_bit_eq_mod)

lemma unat_of_nat32 [to_nat]: "n < 2 ^ 32 \<Longrightarrow> unat (of_nat n :: u32) = n"
  by (simp add: unsigned_of_nat take_bit_eq_mod)

lemma unat_of_nat8 [to_nat]: "n < 2 ^ 8 \<Longrightarrow> unat (of_nat n :: u8) = n"
  by (simp add: unsigned_of_nat take_bit_eq_mod)

lemma unat_sub64 [to_nat]:
  "unat b \<le> unat a \<Longrightarrow> unat (a - b :: u64) = unat a - unat b"
  by (simp add: unat_sub word_le_nat_alt)

lemma unat_sub32 [to_nat]:
  "unat b \<le> unat a \<Longrightarrow> unat (a - b :: u32) = unat a - unat b"
  by (simp add: unat_sub word_le_nat_alt)

lemma unat_u32_less: "unat (x :: u32) < 2 ^ 32"
  using unsigned_less [of x, where 'a = nat] by simp

lemma unat_u64_less: "unat (x :: u64) < 2 ^ 64"
  using unsigned_less [of x, where 'a = nat] by simp

lemma unat_ucast_32_64 [to_nat, simp]: "unat (ucast (x :: u32) :: u64) = unat x"
proof -
  have "take_bit 64 (unat x) = unat x"
    using unat_u32_less [of x] by (simp add: take_bit_nat_eq_self_iff)
  then show ?thesis by (simp add: unsigned_ucast_eq)
qed

lemma unat_ucast_8_64 [to_nat, simp]: "unat (ucast (x :: u8) :: u64) = unat x"
proof -
  have "unat x < 2 ^ 8" using unsigned_less [of x, where 'a = nat] by simp
  then have "take_bit 64 (unat x) = unat x" by (simp add: take_bit_nat_eq_self_iff)
  then show ?thesis by (simp add: unsigned_ucast_eq)
qed

lemma unat_ucast_8_32 [to_nat, simp]: "unat (ucast (x :: u8) :: u32) = unat x"
proof -
  have "unat x < 2 ^ 8" using unsigned_less [of x, where 'a = nat] by simp
  then have "take_bit 32 (unat x) = unat x" by (simp add: take_bit_nat_eq_self_iff)
  then show ?thesis by (simp add: unsigned_ucast_eq)
qed

lemma unat_ucast_64_32 [to_nat]:
  "unat (x :: u64) < 2 ^ 32 \<Longrightarrow> unat (ucast x :: u32) = unat x"
  by (simp add: unsigned_ucast_eq take_bit_nat_eq_self_iff)

lemma unat_ucast_64_8 [to_nat]:
  "unat (x :: u64) < 2 ^ 8 \<Longrightarrow> unat (ucast x :: u8) = unat x"
  by (simp add: unsigned_ucast_eq take_bit_nat_eq_self_iff)

lemma unat_ucast_32_8 [to_nat]:
  "unat (x :: u32) < 2 ^ 8 \<Longrightarrow> unat (ucast x :: u8) = unat x"
  by (simp add: unsigned_ucast_eq take_bit_nat_eq_self_iff)

lemma ucast_of_nat_64_32: "(ucast (of_nat n :: u64) :: u32) = of_nat n"
  by (simp add: unsigned_of_nat word_of_nat_eq_iff)

lemma word_eq_unatI: "unat (a :: 'a::len word) = unat b \<Longrightarrow> a = b"
  by (rule word_unat_eq_iff [THEN iffD2])

text \<open>A signed non-negative 64-bit value reads the same signed and unsigned.\<close>

lemma sint_small: "uint w < 2 ^ (LENGTH('a) - 1) \<Longrightarrow> sint (w :: 'a::len word) = uint w"
proof -
  assume lt: "uint w < 2 ^ (LENGTH('a) - 1)"
  have "0 \<le> uint w" by simp
  then have "- (2 ^ (LENGTH('a) - 1)) \<le> uint w" by (rule order_trans [rotated]) simp
  with lt show ?thesis unfolding sint_uint by (intro signed_take_bit_int_eq_self) simp_all
qed

lemma sint_nonneg_iff64: "0 \<le> sint (d :: u64) \<longleftrightarrow> unat d < 2 ^ 63"
proof -
  have u: "uint d < 2 ^ 64" "0 \<le> uint d" using unsigned_less [of d, where 'a = int] by simp_all
  have "0 \<le> sint d \<longleftrightarrow> even (uint d div 2 ^ 63)"
    by (simp add: sint_uint bit_iff_odd)
  also have "\<dots> \<longleftrightarrow> uint d < 2 ^ 63"
  proof (cases "uint d < 2 ^ 63")
    case True
    with u show ?thesis by simp
  next
    case False
    with u have "uint d div 2 ^ 63 = 1" by (simp add: int_div_pos_eq [where r = "uint d - 2 ^ 63"])
    with False show ?thesis by simp
  qed
  also have "\<dots> \<longleftrightarrow> unat d < 2 ^ 63"
    by (simp add: nat_less_iff flip: nat_uint_eq)
  finally show ?thesis .
qed

section \<open>Lists updated by index\<close>

lemma fold_list_update:
  "length (fold (\<lambda>i t. t[i := f i]) [a..<b] t) = length t \<and>
   (j < length t \<longrightarrow> fold (\<lambda>i t. t[i := f i]) [a..<b] t ! j = (if a \<le> j \<and> j < b then f j else t ! j))"
proof (induction b)
  case (Suc b)
  then show ?case by (cases "j = b") auto
qed simp

lemmas fold_list_update_length = fold_list_update [THEN conjunct1]
lemmas fold_list_update_nth = fold_list_update [THEN conjunct2, rule_format]

end
