(* ===== verification/Byte_Memory.thy ===== *)
theory Byte_Memory
  imports Prelude
begin

text \<open>
  Multi-byte little-endian accesses to a byte memory, as the x86-64 compiler lays out
  \<^verbatim>\<open>uint32_t\<close>, \<^verbatim>\<open>uint64_t\<close> and pointer fields. \<open>read_le n\<close> and \<open>write_le n\<close> access
  \<open>n\<close> bytes; the lemmas say which addresses a write changes and that a read returns what
  was written.
\<close>

fun read_le :: "nat \<Rightarrow> mem \<Rightarrow> addr \<Rightarrow> 'a::len word" where
  "read_le 0 m a = 0"
| "read_le (Suc n) m a = ucast (m a) OR push_bit 8 (read_le n m (a + 1))"

fun write_le :: "nat \<Rightarrow> mem \<Rightarrow> addr \<Rightarrow> 'a::len word \<Rightarrow> mem" where
  "write_le 0 m a v = m"
| "write_le (Suc n) m a v = write_le n (m(a := ucast v)) (a + 1) (drop_bit 8 v)"

definition read32 :: "mem \<Rightarrow> addr \<Rightarrow> u32" where "read32 = read_le 4"
definition read64 :: "mem \<Rightarrow> addr \<Rightarrow> u64" where "read64 = read_le 8"
definition write32 :: "mem \<Rightarrow> addr \<Rightarrow> u32 \<Rightarrow> mem" where "write32 = write_le 4"
definition write64 :: "mem \<Rightarrow> addr \<Rightarrow> u64 \<Rightarrow> mem" where "write64 = write_le 8"

text \<open>The bytes of an access of \<open>n\<close> bytes at \<open>a\<close>, wrapping at \<open>2 ^ 64\<close> as pointers do.\<close>

definition region :: "addr \<Rightarrow> nat \<Rightarrow> addr set" where
  "region a n = {b. unat (b - a) < n}"

lemma region_mem: "b \<in> region a n \<longleftrightarrow> unat (b - a) < n"
  by (simp add: region_def)

lemma region_no_wrap:
  "unat a + n \<le> 2 ^ 64 \<Longrightarrow> b \<in> region a n \<longleftrightarrow> unat a \<le> unat b \<and> unat b < unat a + n"
  using unat_u64_less [of b]
  by (auto simp: region_def unat_sub_if' word_le_nat_alt split: if_splits)

lemma unat_minus1: "b \<noteq> a \<Longrightarrow> unat (b - a :: u64) = Suc (unat (b - (a + 1)))"
proof -
  assume "b \<noteq> a"
  then have "b - a \<noteq> 0" by simp
  then have "unat (b - a - 1) = unat (b - a) - 1" and "unat (b - a) \<noteq> 0"
    by (simp_all add: unat_minus_one unat_eq_0)
  then show ?thesis by (simp add: diff_diff_eq)
qed

lemma region_Suc: "region a (Suc n) = insert a (region (a + 1) n)" if "n < 2 ^ 64"
proof (rule set_eqI)
  fix b
  show "b \<in> region a (Suc n) \<longleftrightarrow> b \<in> insert a (region (a + 1) n)"
    by (cases "b = a") (auto simp: region_def unat_minus1)
qed

lemma region_0 [simp]: "region a 0 = {}"
  by (simp add: region_def)

lemma region_start_notin: "n < 2 ^ 64 \<Longrightarrow> a \<notin> region (a + 1) n"
proof -
  assume n: "n < 2 ^ 64"
  have "a - (a + 1) = (- 1 :: u64)" by simp
  then have "unat (a - (a + 1)) = 2 ^ 64 - 1" by (simp add: unsigned_minus_1_eq_mask mask_eq_exp_minus_1)
  with n show ?thesis by (simp add: region_def)
qed

lemma write_le_other [mem_simps]:
  "b \<notin> region a n \<Longrightarrow> n < 2 ^ 64 \<Longrightarrow> write_le n m a v b = m b"
proof (induction n arbitrary: m a v)
  case (Suc n)
  then have "b \<noteq> a" and "b \<notin> region (a + 1) n" by (auto simp: region_Suc)
  with Suc show ?case by simp
qed simp

lemma read_le_cong:
  "(\<And>b. b \<in> region a n \<Longrightarrow> m b = m' b) \<Longrightarrow> n < 2 ^ 64 \<Longrightarrow> read_le n m a = read_le n m' a"
proof (induction n arbitrary: a)
  case (Suc n)
  then have "read_le n m (a + 1) = (read_le n m' (a + 1) :: 'a word)" and "m a = m' a"
    by (auto simp: region_Suc)
  then show ?case by simp
qed simp

lemma read_le_write_le_other:
  "region a n \<inter> region b k = {} \<Longrightarrow> n < 2 ^ 64 \<Longrightarrow> k < 2 ^ 64 \<Longrightarrow>
   read_le n (write_le k m b v) a = read_le n m a"
  by (rule read_le_cong, rule write_le_other) auto

lemma or_push_take:
  "ucast (ucast v :: u8) OR push_bit 8 (take_bit k (drop_bit 8 v)) =
   take_bit (8 + k) (v :: 'a::len word)"
proof (rule bit_word_eqI)
  fix i assume i: "i < LENGTH('a)"
  show "bit (ucast (ucast v :: u8) OR push_bit 8 (take_bit k (drop_bit 8 v))) i =
        bit (take_bit (8 + k) v) i"
    using i by (cases "i < 8")
      (auto simp: bit_or_iff bit_ucast_iff bit_push_bit_iff bit_take_bit_iff bit_drop_bit_eq
        dest: bit_imp_le_length)
qed

lemma read_le_write_le_same:
  "n < 2 ^ 64 \<Longrightarrow> read_le n (write_le n m a v) a = (take_bit (8 * n) v :: 'a::len word)"
proof (induction n arbitrary: m a v)
  case (Suc n)
  then have "read_le n (write_le n (m(a := ucast v)) (a + 1) (drop_bit 8 v)) (a + 1)
      = (take_bit (8 * n) (drop_bit 8 v) :: 'a word)" by simp
  moreover have "write_le n (m(a := ucast v)) (a + 1) (drop_bit 8 v) a = ucast v"
    using Suc.prems region_start_notin [of n a] by (simp add: write_le_other)
  ultimately show ?case by (simp add: or_push_take)
qed simp

lemma take_bit_all: "take_bit LENGTH('a) (v :: 'a::len word) = v"
  by (rule bit_word_eqI) (simp add: bit_take_bit_iff)

lemma read32_write32 [simp, mem_simps]: "read32 (write32 m a v) a = v"
  using take_bit_all [of v] by (simp add: read32_def write32_def read_le_write_le_same)

lemma read64_write64 [simp, mem_simps]: "read64 (write64 m a v) a = v"
  using take_bit_all [of v] by (simp add: read64_def write64_def read_le_write_le_same)

lemma write32_other [mem_simps]: "b \<notin> region a 4 \<Longrightarrow> write32 m a v b = m b"
  by (simp add: write32_def write_le_other)

lemma write64_other [mem_simps]: "b \<notin> region a 8 \<Longrightarrow> write64 m a v b = m b"
  by (simp add: write64_def write_le_other)

lemma read32_cong: "(\<And>b. b \<in> region a 4 \<Longrightarrow> m b = m' b) \<Longrightarrow> read32 m a = read32 m' a"
  unfolding read32_def by (rule read_le_cong) auto

lemma read64_cong: "(\<And>b. b \<in> region a 8 \<Longrightarrow> m b = m' b) \<Longrightarrow> read64 m a = read64 m' a"
  unfolding read64_def by (rule read_le_cong) auto

lemma read64_write64_other [mem_simps]:
  "region a 8 \<inter> region b 8 = {} \<Longrightarrow> read64 (write64 m b v) a = read64 m a"
  by (rule read64_cong, rule write64_other) auto

text \<open>A read of \<open>n\<close> bytes that were all overwritten by the same memory depends on them only.\<close>

lemma region_subset: "b \<in> region a n \<Longrightarrow> n \<le> k \<Longrightarrow> b \<in> region a k"
  by (auto simp: region_def)

lemma region_disjoint_nat:
  "unat a + n \<le> unat b \<or> unat b + k \<le> unat a \<Longrightarrow> unat a + n \<le> 2 ^ 64 \<Longrightarrow>
   unat b + k \<le> 2 ^ 64 \<Longrightarrow> region a n \<inter> region b k = {}"
  by (auto simp: region_no_wrap)

end
