(* ===== verification/X86.thy ===== *)
theory X86
  imports Byte_Memory
begin

text \<open>
  \<^verbatim>\<open>shared/x86-64.h\<close>: paging arithmetic, page-table-entry and exception constants, the saved
  register file, the descriptor structures, and the wrappers around machine instructions. The
  machine is a record that \<open>Kernel_State\<close> extends: physical memory, the control and
  descriptor-table registers, and the I/O ports. What a port returns is the environment's
  choice: \<open>io_in n p\<close> is the value that the \<open>n\<close>-th read of port \<open>p\<close> gives, and \<open>io_reads\<close>
  counts the reads of each port. Writes to ports are appended to \<open>io_outs\<close>.
\<close>

section \<open>Pages\<close>

definition PAGEOFFBITS :: nat where "PAGEOFFBITS = 12"
definition PAGESIZE :: u64 where "PAGESIZE = 4096"
definition PAGEINDEXBITS :: nat where "PAGEINDEXBITS = 9"
definition NPAGETABLEENTRIES :: nat where "NPAGETABLEENTRIES = 512"

text \<open>\<^verbatim>\<open>(int) (ptr >> 12)\<close>: the cast keeps 32 bits and reads them signed.\<close>

definition PAGENUMBER :: "u64 \<Rightarrow> int" where
  "PAGENUMBER ptr = sint (ucast (drop_bit PAGEOFFBITS ptr) :: u32)"

definition PAGEADDRESS :: "u64 \<Rightarrow> u64" where
  "PAGEADDRESS pn = push_bit PAGEOFFBITS pn"

text \<open>Callers pass levels 0 to 3, which is what the function asserts.\<close>

definition pageindex :: "addr \<Rightarrow> nat \<Rightarrow> nat" where
  "pageindex a level =
     unat (drop_bit (PAGEOFFBITS + (3 - level) * PAGEINDEXBITS) a AND 0x1FF)"

definition PAGEOFFMASK :: u64 where "PAGEOFFMASK = PAGESIZE - 1"
definition PAGEOFFSET :: "addr \<Rightarrow> u64" where "PAGEOFFSET a = a AND PAGEOFFMASK"
definition PTE_ADDR :: "u64 \<Rightarrow> addr" where "PTE_ADDR pe = pe AND NOT 0xFFF"
definition PTE_FLAGS :: "u64 \<Rightarrow> u64" where "PTE_FLAGS pe = pe AND 0xFFF"

definition PTE_P :: u64 where "PTE_P = 1"
definition PTE_W :: u64 where "PTE_W = 2"
definition PTE_U :: u64 where "PTE_U = 4"
definition PTE_A :: u64 where "PTE_A = 32"
definition PTE_D :: u64 where "PTE_D = 64"
definition PTE_PS :: u64 where "PTE_PS = 128"

text \<open>\<^verbatim>\<open>shared/lib.h\<close>: rounding to a multiple.\<close>

definition ROUNDDOWN :: "u64 \<Rightarrow> u64 \<Rightarrow> u64" where
  "ROUNDDOWN a n = a - a mod n"

definition ROUNDUP :: "u64 \<Rightarrow> u64 \<Rightarrow> u64" where
  "ROUNDUP a n = ROUNDDOWN (a + n - 1) n"

section \<open>Exceptions\<close>

definition PFERR_PRESENT :: u64 where "PFERR_PRESENT = 1"
definition PFERR_WRITE :: u64 where "PFERR_WRITE = 2"
definition PFERR_USER :: u64 where "PFERR_USER = 4"

definition INT_DIVIDE :: u64 where "INT_DIVIDE = 0"
definition INT_DEBUG :: u64 where "INT_DEBUG = 1"
definition INT_BREAKPOINT :: u64 where "INT_BREAKPOINT = 3"
definition INT_OVERFLOW :: u64 where "INT_OVERFLOW = 4"
definition INT_BOUNDS :: u64 where "INT_BOUNDS = 5"
definition INT_INVALIDOP :: u64 where "INT_INVALIDOP = 6"
definition INT_DOUBLEFAULT :: u64 where "INT_DOUBLEFAULT = 8"
definition INT_INVALIDTSS :: u64 where "INT_INVALIDTSS = 0xA"
definition INT_SEGMENT :: u64 where "INT_SEGMENT = 0xB"
definition INT_STACK :: u64 where "INT_STACK = 0xC"
definition INT_GPF :: u64 where "INT_GPF = 0xD"
definition INT_PAGEFAULT :: u64 where "INT_PAGEFAULT = 0xE"

section \<open>Registers\<close>

record x86_64_registers =
  reg_rax :: u64
  reg_rcx :: u64
  reg_rdx :: u64
  reg_rbx :: u64
  reg_rbp :: u64
  reg_rsi :: u64
  reg_rdi :: u64
  reg_r8 :: u64
  reg_r9 :: u64
  reg_r10 :: u64
  reg_r11 :: u64
  reg_r12 :: u64
  reg_r13 :: u64
  reg_r14 :: u64
  reg_r15 :: u64
  reg_fs :: u64
  reg_gs :: u64
  reg_intno :: u64
  reg_err :: u64
  reg_rip :: u64
  reg_cs :: u16
  reg_rflags :: u64
  reg_rsp :: u64
  reg_ss :: u16

definition CR0_PE :: u32 where "CR0_PE = 1"
definition CR0_MP :: u32 where "CR0_MP = 2"
definition CR0_EM :: u32 where "CR0_EM = 4"
definition CR0_TS :: u32 where "CR0_TS = 8"
definition CR0_ET :: u32 where "CR0_ET = 0x10"
definition CR0_NE :: u32 where "CR0_NE = 0x20"
definition CR0_WP :: u32 where "CR0_WP = 0x10000"
definition CR0_AM :: u32 where "CR0_AM = 0x40000"
definition CR0_NW :: u32 where "CR0_NW = 0x20000000"
definition CR0_CD :: u32 where "CR0_CD = 0x40000000"
definition CR0_PG :: u32 where "CR0_PG = 0x80000000"

definition EFLAGS_CF :: u32 where "EFLAGS_CF = 1"
definition EFLAGS_PF :: u32 where "EFLAGS_PF = 4"
definition EFLAGS_AF :: u32 where "EFLAGS_AF = 0x10"
definition EFLAGS_ZF :: u32 where "EFLAGS_ZF = 0x40"
definition EFLAGS_SF :: u32 where "EFLAGS_SF = 0x80"
definition EFLAGS_TF :: u32 where "EFLAGS_TF = 0x100"
definition EFLAGS_IF :: u32 where "EFLAGS_IF = 0x200"
definition EFLAGS_DF :: u32 where "EFLAGS_DF = 0x400"
definition EFLAGS_OF :: u32 where "EFLAGS_OF = 0x800"
definition EFLAGS_IOPL_MASK :: u32 where "EFLAGS_IOPL_MASK = 0x3000"
definition EFLAGS_IOPL_0 :: u32 where "EFLAGS_IOPL_0 = 0"
definition EFLAGS_IOPL_1 :: u32 where "EFLAGS_IOPL_1 = 0x1000"
definition EFLAGS_IOPL_2 :: u32 where "EFLAGS_IOPL_2 = 0x2000"
definition EFLAGS_IOPL_3 :: u32 where "EFLAGS_IOPL_3 = 0x3000"
definition EFLAGS_NT :: u32 where "EFLAGS_NT = 0x4000"
definition EFLAGS_RF :: u32 where "EFLAGS_RF = 0x10000"
definition EFLAGS_VM :: u32 where "EFLAGS_VM = 0x20000"
definition EFLAGS_AC :: u32 where "EFLAGS_AC = 0x40000"
definition EFLAGS_VIF :: u32 where "EFLAGS_VIF = 0x80000"
definition EFLAGS_VIP :: u32 where "EFLAGS_VIP = 0x100000"
definition EFLAGS_ID :: u32 where "EFLAGS_ID = 0x200000"

section \<open>The machine\<close>

record x86_64_pseudodescriptor =
  pseudod_limit :: u16
  pseudod_base :: u64

record x86_64_taskstate =
  ts_rsp :: "u64 list"
  ts_ist :: "u64 list"
  ts_iomap_base :: u16

record x86_64_gatedescriptor =
  gd_low :: u64
  gd_high :: u64

record machine =
  pmem :: mem
  io_in :: "nat \<Rightarrow> u16 \<Rightarrow> u32"
  io_reads :: "u16 \<Rightarrow> nat"
  io_outs :: "(u16 \<times> u32) list"
  cr0 :: u64
  cr2 :: u64
  cr3 :: u64
  cr4 :: u64
  rflags :: u64
  gdtr :: x86_64_pseudodescriptor
  idtr :: x86_64_pseudodescriptor
  task_register :: u16

section \<open>Instructions\<close>

definition inl :: "u16 \<Rightarrow> 'a machine_scheme \<Rightarrow> u32 \<times> 'a machine_scheme" where
  "inl port s = (io_in s (io_reads s port) port, s\<lparr>io_reads := (io_reads s)(port := io_reads s port + 1)\<rparr>)"

definition inb :: "u16 \<Rightarrow> 'a machine_scheme \<Rightarrow> u8 \<times> 'a machine_scheme" where
  "inb port s = (let (d, s) = inl port s in (ucast d, s))"

definition inw :: "u16 \<Rightarrow> 'a machine_scheme \<Rightarrow> u16 \<times> 'a machine_scheme" where
  "inw port s = (let (d, s) = inl port s in (ucast d, s))"

fun insl :: "u16 \<Rightarrow> addr \<Rightarrow> nat \<Rightarrow> 'a machine_scheme \<Rightarrow> 'a machine_scheme" where
  "insl port a 0 s = s"
| "insl port a (Suc n) s =
     (let (d, s) = inl port s
      in insl port (a + 4) n (s\<lparr>pmem := write32 (pmem s) a d\<rparr>))"

fun insb :: "u16 \<Rightarrow> addr \<Rightarrow> nat \<Rightarrow> 'a machine_scheme \<Rightarrow> 'a machine_scheme" where
  "insb port a 0 s = s"
| "insb port a (Suc n) s =
     (let (d, s) = inb port s in insb port (a + 1) n (s\<lparr>pmem := (pmem s)(a := d)\<rparr>))"

fun insw :: "u16 \<Rightarrow> addr \<Rightarrow> nat \<Rightarrow> 'a machine_scheme \<Rightarrow> 'a machine_scheme" where
  "insw port a 0 s = s"
| "insw port a (Suc n) s =
     (let (d, s) = inw port s in insw port (a + 2) n (s\<lparr>pmem := write_le 2 (pmem s) a d\<rparr>))"

definition outl :: "u16 \<Rightarrow> u32 \<Rightarrow> 'a machine_scheme \<Rightarrow> 'a machine_scheme" where
  "outl port d s = s\<lparr>io_outs := io_outs s @ [(port, d)]\<rparr>"

definition outb :: "u16 \<Rightarrow> u8 \<Rightarrow> 'a machine_scheme \<Rightarrow> 'a machine_scheme" where
  "outb port d s = outl port (ucast d) s"

definition outw :: "u16 \<Rightarrow> u16 \<Rightarrow> 'a machine_scheme \<Rightarrow> 'a machine_scheme" where
  "outw port d s = outl port (ucast d) s"

fun outsb :: "u16 \<Rightarrow> addr \<Rightarrow> nat \<Rightarrow> 'a machine_scheme \<Rightarrow> 'a machine_scheme" where
  "outsb port a 0 s = s"
| "outsb port a (Suc n) s = outsb port (a + 1) n (outb port (pmem s a) s)"

fun outsw :: "u16 \<Rightarrow> addr \<Rightarrow> nat \<Rightarrow> 'a machine_scheme \<Rightarrow> 'a machine_scheme" where
  "outsw port a 0 s = s"
| "outsw port a (Suc n) s = outsw port (a + 2) n (outw port (read_le 2 (pmem s) a) s)"

fun outsl :: "u16 \<Rightarrow> addr \<Rightarrow> nat \<Rightarrow> 'a machine_scheme \<Rightarrow> 'a machine_scheme" where
  "outsl port a 0 s = s"
| "outsl port a (Suc n) s = outsl port (a + 4) n (outl port (read32 (pmem s) a) s)"

definition ltr :: "u16 \<Rightarrow> 'a machine_scheme \<Rightarrow> 'a machine_scheme" where
  "ltr sel s = s\<lparr>task_register := sel\<rparr>"

text \<open>\<^verbatim>\<open>lgdt\<close> and \<^verbatim>\<open>lidt\<close> load the pseudo-descriptor that their operand points to.\<close>

definition lgdt :: "x86_64_pseudodescriptor \<Rightarrow> 'a machine_scheme \<Rightarrow> 'a machine_scheme" where
  "lgdt p s = s\<lparr>gdtr := p\<rparr>"

definition lidt :: "x86_64_pseudodescriptor \<Rightarrow> 'a machine_scheme \<Rightarrow> 'a machine_scheme" where
  "lidt p s = s\<lparr>idtr := p\<rparr>"

definition lcr0 :: "u32 \<Rightarrow> 'a machine_scheme \<Rightarrow> 'a machine_scheme" where
  "lcr0 v s = s\<lparr>cr0 := ucast v\<rparr>"

definition rcr0 :: "'a machine_scheme \<Rightarrow> u32" where "rcr0 s = ucast (cr0 s)"

definition rcr2 :: "'a machine_scheme \<Rightarrow> u64" where "rcr2 s = cr2 s"

definition lcr3 :: "u64 \<Rightarrow> 'a machine_scheme \<Rightarrow> 'a machine_scheme" where
  "lcr3 v s = s\<lparr>cr3 := v\<rparr>"

definition rcr3 :: "'a machine_scheme \<Rightarrow> u64" where "rcr3 s = cr3 s"

definition lcr4 :: "u64 \<Rightarrow> 'a machine_scheme \<Rightarrow> 'a machine_scheme" where
  "lcr4 v s = s\<lparr>cr4 := v\<rparr>"

definition rcr4 :: "'a machine_scheme \<Rightarrow> u64" where "rcr4 s = cr4 s"

definition cli :: "'a machine_scheme \<Rightarrow> 'a machine_scheme" where
  "cli s = s\<lparr>rflags := rflags s AND NOT (ucast EFLAGS_IF)\<rparr>"

definition sti :: "'a machine_scheme \<Rightarrow> 'a machine_scheme" where
  "sti s = s\<lparr>rflags := rflags s OR ucast EFLAGS_IF\<rparr>"

definition read_eflags :: "'a machine_scheme \<Rightarrow> u32" where "read_eflags s = ucast (rflags s)"

definition write_eflags :: "u32 \<Rightarrow> 'a machine_scheme \<Rightarrow> 'a machine_scheme" where
  "write_eflags v s = s\<lparr>rflags := ucast v\<rparr>"

definition fetch_and_addl :: "addr \<Rightarrow> u32 \<Rightarrow> 'a machine_scheme \<Rightarrow> u32 \<times> 'a machine_scheme" where
  "fetch_and_addl a n s =
     (read32 (pmem s) a, s\<lparr>pmem := write32 (pmem s) a (read32 (pmem s) a + n)\<rparr>)"

text \<open>
  \<^verbatim>\<open>cpuid\<close> stores the four registers that the processor gives for a leaf through the pointers that
  are not null; \<^verbatim>\<open>rdtsc\<close> of \<^verbatim>\<open>shared/time.h\<close> joins the two halves of the cycle counter.
\<close>

definition store_unless_null :: "addr \<Rightarrow> u32 \<Rightarrow> 'a machine_scheme \<Rightarrow> 'a machine_scheme" where
  "store_unless_null p v s = (if p \<noteq> 0 then s\<lparr>pmem := write32 (pmem s) p v\<rparr> else s)"

definition cpuid :: "(u32 \<Rightarrow> u32 \<times> u32 \<times> u32 \<times> u32) \<Rightarrow> u32 \<Rightarrow> addr \<Rightarrow> addr \<Rightarrow> addr \<Rightarrow> addr \<Rightarrow>
    'a machine_scheme \<Rightarrow> 'a machine_scheme" where
  "cpuid leaf info eaxp ebxp ecxp edxp s =
     (let (eax, ebx, ecx, edx) = leaf info
      in store_unless_null edxp edx (store_unless_null ecxp ecx
           (store_unless_null ebxp ebx (store_unless_null eaxp eax s))))"

definition rdtsc :: "u32 \<Rightarrow> u32 \<Rightarrow> u64" where
  "rdtsc hi lo = push_bit 32 (ucast hi) OR ucast lo"

definition read_rbp :: "x86_64_registers \<Rightarrow> u64" where "read_rbp r = reg_rbp r"

definition read_rsp :: "x86_64_registers \<Rightarrow> u64" where "read_rsp r = reg_rsp r"

section \<open>Descriptor bits, keyboard ports\<close>

definition X86SEG_S :: u64 where "X86SEG_S = 0x100000000000"
definition X86SEG_P :: u64 where "X86SEG_P = 0x800000000000"
definition X86SEG_L :: u64 where "X86SEG_L = 0x20000000000000"
definition X86SEG_DB :: u64 where "X86SEG_DB = 0x40000000000000"
definition X86SEG_G :: u64 where "X86SEG_G = 0x80000000000000"
definition X86SEG_A :: u64 where "X86SEG_A = 0x10000000000"
definition X86SEG_R :: u64 where "X86SEG_R = 0x20000000000"
definition X86SEG_W :: u64 where "X86SEG_W = 0x20000000000"
definition X86SEG_C :: u64 where "X86SEG_C = 0x40000000000"
definition X86SEG_E :: u64 where "X86SEG_E = 0x40000000000"
definition X86SEG_X :: u64 where "X86SEG_X = 0x80000000000"
definition X86SEG_TSS :: u64 where "X86SEG_TSS = 0x90000000000"
definition X86GATE_CALL :: u64 where "X86GATE_CALL = 0xC0000000000"
definition X86GATE_INTERRUPT :: u64 where "X86GATE_INTERRUPT = 0xE0000000000"
definition X86GATE_TRAP :: u64 where "X86GATE_TRAP = 0xF0000000000"

definition KEYBOARD_STATUSREG :: u16 where "KEYBOARD_STATUSREG = 0x64"
definition KEYBOARD_STATUS_READY :: u16 where "KEYBOARD_STATUS_READY = 1"
definition KEYBOARD_DATAREG :: u16 where "KEYBOARD_DATAREG = 0x60"

end
