(* ===== verification/Clib.thy ===== *)
theory Clib
  imports Byte_Memory
begin

text \<open>
  The C library subset of \<^verbatim>\<open>shared/lib.c\<close>: memory and string functions over a byte
  memory, and the linear congruential \<open>rand\<close>. A loop over a string that need not end is a
  \<open>partial_function (option)\<close> (\<open>None\<close>: it never returns); a loop that counts \<open>n\<close> down
  recurses on \<open>n\<close>.
\<close>

section \<open>memcpy, memmove, memset\<close>

fun memcpy_loop :: "mem \<Rightarrow> addr \<Rightarrow> addr \<Rightarrow> nat \<Rightarrow> mem" where
  "memcpy_loop m d s 0 = m"
| "memcpy_loop m d s (Suc n) = memcpy_loop (m(d := m s)) (d + 1) (s + 1) n"

definition memcpy :: "mem \<Rightarrow> addr \<Rightarrow> addr \<Rightarrow> u64 \<Rightarrow> addr \<times> mem" where
  "memcpy m dst src n = (dst, memcpy_loop m dst src (unat n))"

fun memmove_back :: "mem \<Rightarrow> addr \<Rightarrow> addr \<Rightarrow> nat \<Rightarrow> mem" where
  "memmove_back m d s 0 = m"
| "memmove_back m d s (Suc n) = memmove_back (m(d - 1 := m (s - 1))) (d - 1) (s - 1) n"

definition memmove :: "mem \<Rightarrow> addr \<Rightarrow> addr \<Rightarrow> u64 \<Rightarrow> addr \<times> mem" where
  "memmove m dst src n =
     (if src < dst \<and> src + n > dst
      then (dst, memmove_back m (dst + n) (src + n) (unat n))
      else (dst, memcpy_loop m dst src (unat n)))"

fun memset_loop :: "mem \<Rightarrow> addr \<Rightarrow> u8 \<Rightarrow> nat \<Rightarrow> mem" where
  "memset_loop m p c 0 = m"
| "memset_loop m p c (Suc n) = memset_loop (m(p := c)) (p + 1) c n"

definition memset :: "mem \<Rightarrow> addr \<Rightarrow> u32 \<Rightarrow> u64 \<Rightarrow> addr \<times> mem" where
  "memset m v c n = (v, memset_loop m v (ucast c) (unat n))"

section \<open>Strings\<close>

partial_function (option) strlen_loop :: "mem \<Rightarrow> addr \<Rightarrow> u64 \<Rightarrow> u64 option" where
  "strlen_loop m s n = (if m s \<noteq> 0 then strlen_loop m (s + 1) (n + 1) else Some n)"

definition strlen :: "mem \<Rightarrow> addr \<Rightarrow> u64 option" where
  "strlen m s = strlen_loop m s 0"

partial_function (option) strnlen_loop :: "mem \<Rightarrow> u64 \<Rightarrow> addr \<Rightarrow> u64 \<Rightarrow> u64 option" where
  "strnlen_loop m maxlen s n =
     (if n \<noteq> maxlen \<and> m s \<noteq> 0 then strnlen_loop m maxlen (s + 1) (n + 1) else Some n)"

definition strnlen :: "mem \<Rightarrow> addr \<Rightarrow> u64 \<Rightarrow> u64 option" where
  "strnlen m s maxlen = strnlen_loop m maxlen s 0"

partial_function (option) strcpy_loop :: "mem \<Rightarrow> addr \<Rightarrow> addr \<Rightarrow> mem option" where
  "strcpy_loop m d src =
     (let m' = m(d := m src) in
      if m' d \<noteq> 0 then strcpy_loop m' (d + 1) (src + 1) else Some m')"

definition strcpy :: "mem \<Rightarrow> addr \<Rightarrow> addr \<Rightarrow> (addr \<times> mem) option" where
  "strcpy m dst src = do { m' \<leftarrow> strcpy_loop m dst src; Some (dst, m') }"

partial_function (option) strcmp :: "mem \<Rightarrow> addr \<Rightarrow> addr \<Rightarrow> int option" where
  "strcmp m a b =
     (if m a \<noteq> 0 \<and> m b \<noteq> 0 \<and> m a = m b then strcmp m (a + 1) (b + 1)
      else Some (of_bool (m a > m b) - of_bool (m a < m b)))"

partial_function (option) strchr_loop :: "mem \<Rightarrow> u8 \<Rightarrow> addr \<Rightarrow> addr option" where
  "strchr_loop m c s = (if m s \<noteq> 0 \<and> m s \<noteq> c then strchr_loop m c (s + 1) else Some s)"

definition strchr :: "mem \<Rightarrow> addr \<Rightarrow> u32 \<Rightarrow> addr option" where
  "strchr m s c =
     do { s' \<leftarrow> strchr_loop m (ucast c) s;
          Some (if m s' = ucast c then s' else NULL) }"

section \<open>rand, srand\<close>

record rand_state =
  rand_seed_set :: bool
  rand_seed :: u32

definition srand :: "u32 \<Rightarrow> rand_state \<Rightarrow> rand_state" where
  "srand seed r = r\<lparr>rand_seed := seed, rand_seed_set := True\<rparr>"

definition RAND_MAX :: u32 where "RAND_MAX = 0x7FFFFFFF"

definition rand :: "rand_state \<Rightarrow> u32 \<times> rand_state" where
  "rand r =
     (let r1 = (if \<not> rand_seed_set r then srand 819234718 r else r);
          seed = rand_seed r1 * 1664525 + 1013904223
      in (seed AND RAND_MAX, r1\<lparr>rand_seed := seed\<rparr>))"

section \<open>Memory functions: which bytes they change, and to what\<close>

lemma memset_loop_apply:
  "n < 2 ^ 64 \<Longrightarrow> memset_loop m p c n b = (if b \<in> region p n then c else m b)"
proof (induction n arbitrary: m p)
  case (Suc n)
  then show ?case using region_start_notin [of n p] by (auto simp: region_Suc)
qed simp

lemma memset_apply: "snd (memset m p c n) b = (if b \<in> region p (unat n) then ucast c else m b)"
  using unat_u64_less [of n] by (simp add: memset_def memset_loop_apply)

text \<open>
  A forward copy is right unless the destination starts inside the source; a backward copy
  unless the source starts inside the destination.
\<close>

lemma memcpy_loop_other:
  "n < 2 ^ 64 \<Longrightarrow> b \<notin> region d n \<Longrightarrow> memcpy_loop m d s n b = m b"
  by (induction n arbitrary: m d s) (auto simp: region_Suc)

lemma memcpy_loop_apply:
  "n < 2 ^ 64 \<Longrightarrow> (\<forall>i < n. \<forall>j < i. s + of_nat i \<noteq> d + of_nat j) \<Longrightarrow> i < n \<Longrightarrow>
   memcpy_loop m d s n (d + of_nat i) = m (s + of_nat i)"
proof (induction n arbitrary: m d s i)
  case (Suc n)
  have ih: "\<forall>i < n. \<forall>j < i. s + 1 + of_nat i \<noteq> d + 1 + of_nat j"
  proof (intro allI impI)
    fix i j assume ij: "i < n" "j < i"
    with Suc.prems(2) have "s + of_nat (Suc i) \<noteq> d + of_nat (Suc j)" by auto
    then show "s + 1 + of_nat i \<noteq> d + 1 + of_nat j" by (simp add: ac_simps)
  qed
  show ?case
  proof (cases i)
    case 0
    then show ?thesis using Suc.prems region_start_notin [of n d] by (simp add: memcpy_loop_other)
  next
    case (Suc k)
    with Suc.prems have k: "k < n" by simp
    have "memcpy_loop (m(d := m s)) (d + 1) (s + 1) n (d + 1 + of_nat k)
        = (m(d := m s)) (s + 1 + of_nat k)"
      using Suc.IH [of "s + 1" "d + 1" k] ih k Suc.prems(1) by simp
    moreover have "s + of_nat (Suc k) \<noteq> d + of_nat 0"
      using Suc.prems(2) Suc k by blast
    ultimately show ?thesis using Suc by (simp add: add.assoc)
  qed
qed simp

lemma memmove_back_other:
  "n < 2 ^ 64 \<Longrightarrow> b \<notin> region (d - of_nat n) n \<Longrightarrow> memmove_back m d s n b = m b"
proof (induction n arbitrary: m d s)
  case (Suc n)
  have e: "d - of_nat (Suc n) = d - 1 - of_nat n" by simp
  have sub: "region (d - 1 - of_nat n) n \<subseteq> region (d - of_nat (Suc n)) (Suc n)"
    unfolding e by (auto simp: region_def)
  have "d - 1 \<in> region (d - of_nat (Suc n)) (Suc n)"
    using Suc.prems(1) by (simp add: region_def unat_of_nat64)
  with Suc.prems sub have "b \<noteq> d - 1" "b \<notin> region (d - 1 - of_nat n) n" by auto
  with Suc show ?case by simp
qed simp

lemma memmove_back_apply:
  "n < 2 ^ 64 \<Longrightarrow> (\<forall>i < n. \<forall>j < n. i < j \<longrightarrow> s - of_nat n + of_nat i \<noteq> d - of_nat n + of_nat j) \<Longrightarrow>
   i < n \<Longrightarrow> memmove_back m d s n (d - of_nat n + of_nat i) = m (s - of_nat n + of_nat i)"
proof (induction n arbitrary: m d s i)
  case (Suc n)
  have ih: "\<forall>i < n. \<forall>j < n. i < j \<longrightarrow>
      s - 1 - of_nat n + of_nat i \<noteq> d - 1 - of_nat n + of_nat j"
    using Suc.prems(2) by (auto simp: diff_diff_eq add.commute)
  have dd: "d - of_nat (Suc n) = d - 1 - of_nat n" "s - of_nat (Suc n) = s - 1 - of_nat n"
    by simp_all
  show ?case
  proof (cases "i = n")
    case True
    have "d - 1 \<notin> region (d - 1 - of_nat n) n"
      using Suc.prems(1) by (simp add: region_def unat_of_nat64)
    then show ?thesis using Suc.prems(1) True by (simp add: memmove_back_other)
  next
    case False
    with Suc.prems have i: "i < n" by simp
    then have "s - of_nat (Suc n) + of_nat i \<noteq> d - of_nat (Suc n) + of_nat n"
      using Suc.prems(2) by (metis lessI less_SucI)
    then have ne: "s - 1 - of_nat n + of_nat i \<noteq> d - 1" by (simp add: dd)
    have "memmove_back (m(d - 1 := m (s - 1))) (d - 1) (s - 1) n (d - 1 - of_nat n + of_nat i)
        = (m(d - 1 := m (s - 1))) (s - 1 - of_nat n + of_nat i)"
      using Suc.IH [of "s - 1" "d - 1" i] ih i Suc.prems(1) by simp
    then show ?thesis using ne by (simp only: memmove_back.simps dd fun_upd_def if_False)
  qed
qed simp

text \<open>
  \<^verbatim>\<open>memmove\<close> chooses the direction from \<^verbatim>\<open>s < d && s + n > d\<close>, so it copies correctly for
  every overlap, as long as neither range wraps (the source must also end strictly below
  \<open>2 ^ 64\<close>, because \<^verbatim>\<open>s + n\<close> is compared as a pointer).
\<close>

lemma range_eq_nat:
  assumes "unat (a :: u64) + n \<le> 2 ^ 64" "unat b + n \<le> 2 ^ 64" "i < n" "j < n"
  shows "a + of_nat i = b + of_nat j \<longleftrightarrow> unat a + i = unat b + j"
proof -
  have "unat (a + of_nat i) = unat a + i" "unat (b + of_nat j) = unat b + j"
    using assms by (simp_all add: to_nat)
  then show ?thesis by (metis word_eq_unatI)
qed

lemma memmove_apply:
  assumes "unat src + unat n < 2 ^ 64" "unat dst + unat n \<le> 2 ^ 64" "i < unat n"
  shows "snd (memmove m dst src n) (dst + of_nat i) = m (src + of_nat i)"
proof (cases "src < dst \<and> src + n > dst")
  case True
  have "\<forall>i < unat n. \<forall>j < unat n. i < j \<longrightarrow>
      src + n - of_nat (unat n) + of_nat i \<noteq> dst + n - of_nat (unat n) + of_nat j"
    using True assms(1,2) range_eq_nat [of src "unat n" dst] by (auto simp: word_less_nat_alt)
  then have "memmove_back m (dst + n) (src + n) (unat n) (dst + n - of_nat (unat n) + of_nat i)
      = m (src + n - of_nat (unat n) + of_nat i)"
    using assms(3) unat_u64_less [of n] by (intro memmove_back_apply) auto
  with True show ?thesis by (simp add: memmove_def)
next
  case False
  have u: "unat (src + n) = unat src + unat n" using assms(1) by (simp add: to_nat)
  have "src + of_nat i \<noteq> dst + of_nat j" if "i < unat n" "j < i" for i j
    using False assms(1,2) that u range_eq_nat [of src "unat n" dst i j]
    by (auto simp: word_less_nat_alt not_less)
  then have "memcpy_loop m dst src (unat n) (dst + of_nat i) = m (src + of_nat i)"
    using assms(3) unat_u64_less [of n] by (intro memcpy_loop_apply) auto
  with False show ?thesis unfolding memmove_def if_not_P [OF False] by simp
qed

lemma memmove_other: "b \<notin> region dst (unat n) \<Longrightarrow> snd (memmove m dst src n) b = m b"
  using unat_u64_less [of n] memmove_back_other [of "unat n" b "dst + n"]
  by (auto simp: memmove_def memcpy_loop_other)

lemma memcpy_apply:
  assumes "region dst (unat n) \<inter> region src (unat n) = {}" "i < unat n"
  shows "snd (memcpy m dst src n) (dst + of_nat i) = m (src + of_nat i)"
proof -
  have "src + of_nat i \<noteq> dst + of_nat j" if "i < unat n" "j < unat n" for i j
  proof -
    have "src + of_nat i \<in> region src (unat n)" "dst + of_nat j \<in> region dst (unat n)"
      using that unat_u64_less [of n] by (simp_all add: region_def unat_of_nat64)
    with assms(1) show ?thesis by auto
  qed
  then show ?thesis
    using assms(2) unat_u64_less [of n] unfolding memcpy_def snd_conv
    by (intro memcpy_loop_apply) auto
qed

lemma memcpy_other: "b \<notin> region dst (unat n) \<Longrightarrow> snd (memcpy m dst src n) b = m b"
  using unat_u64_less [of n] by (simp add: memcpy_def memcpy_loop_other)

section \<open>String functions on NUL-terminated strings\<close>

primrec cstr :: "mem \<Rightarrow> addr \<Rightarrow> u8 list \<Rightarrow> bool" where
  "cstr m a [] \<longleftrightarrow> m a = 0"
| "cstr m a (c # cs) \<longleftrightarrow> c \<noteq> 0 \<and> m a = c \<and> cstr m (a + 1) cs"

lemma strlen_loop_cstr: "cstr m a s \<Longrightarrow> strlen_loop m a n = Some (n + of_nat (length s))"
  by (induction s arbitrary: a n) (auto simp: strlen_loop.simps [of m] add.assoc)

lemma strnlen_loop_cstr:
  "cstr m a s \<Longrightarrow> unat n + k = unat maxlen \<Longrightarrow>
   strnlen_loop m maxlen a n = Some (n + of_nat (min k (length s)))"
proof (induction s arbitrary: a n k)
  case Nil
  then show ?case by (simp add: strnlen_loop.simps [of m])
next
  case (Cons c s)
  show ?case
  proof (cases k)
    case 0
    with Cons.prems have "n = maxlen" by (simp add: word_eq_unatI)
    with 0 show ?thesis by (simp add: strnlen_loop.simps [of m])
  next
    case (Suc j)
    with Cons.prems unat_u64_less [of maxlen] have "unat (n + 1) + j = unat maxlen" "n \<noteq> maxlen"
      by (auto simp: to_nat)
    with Cons Suc show ?thesis by (simp add: strnlen_loop.simps [of m] add.assoc)
  qed
qed

primrec byte_lex :: "u8 list \<Rightarrow> u8 list \<Rightarrow> int" where
  "byte_lex [] t = (if t = [] then 0 else - 1)"
| "byte_lex (c # cs) t =
     (case t of [] \<Rightarrow> 1
      | d # ds \<Rightarrow> if c = d then byte_lex cs ds else if c < d then - 1 else 1)"

lemma strcmp_cstr: "cstr m a s \<Longrightarrow> cstr m b t \<Longrightarrow> strcmp m a b = Some (byte_lex s t)"
proof (induction s arbitrary: a b t)
  case Nil
  then show ?case by (cases t) (auto simp: strcmp.simps [of m] word_neq_0_conv)
next
  case (Cons c s)
  then show ?case
    by (cases t) (auto simp: strcmp.simps [of m] word_neq_0_conv not_less_iff_gr_or_eq)
qed

lemma byte_lex_0_iff: "byte_lex s t = 0 \<longleftrightarrow> s = t"
  by (induction s arbitrary: t) (auto split: list.splits)

lemma byte_lex_antisym: "byte_lex t s = - byte_lex s t"
proof (induction s arbitrary: t)
  case Nil
  then show ?case by (cases t) auto
next
  case (Cons c s)
  then show ?case by (cases t) auto
qed

lemma cstr_cong:
  "cstr m a s \<Longrightarrow> (\<And>i. i \<le> length s \<Longrightarrow> m' (a + of_nat i) = m (a + of_nat i)) \<Longrightarrow> cstr m' a s"
proof (induction s arbitrary: a)
  case Nil
  then show ?case using Nil.prems(2) [of 0] by simp
next
  case (Cons c s)
  have "m' (a + 1 + of_nat i) = m (a + 1 + of_nat i)" if "i \<le> length s" for i
    using Cons.prems(2) [of "Suc i"] that by (simp add: add.assoc)
  with Cons show ?case using Cons.prems(2) [of 0] by simp
qed

section \<open>Properties\<close>

text \<open>
  C38. \<^verbatim>\<open>memmove\<close> returns its destination and, whenever neither range wraps past the
  end of the address space, leaves every byte of the destination equal to the source byte as it
  was before the call and every other byte alone, whichever way the ranges overlap.
\<close>

theorem memmove_correct:
  assumes "unat src + unat n < 2 ^ 64" "unat dst + unat n \<le> 2 ^ 64"
  shows "fst (memmove m dst src n) = dst \<and>
    snd (memmove m dst src n) b = (if unat (b - dst) < unat n then m (src + (b - dst)) else m b)"
proof (cases "unat (b - dst) < unat n")
  case True
  then show ?thesis using memmove_apply [OF assms True, of m] by (simp add: memmove_def)
next
  case False
  then show ?thesis using memmove_other [of b dst n m src] by (simp add: memmove_def region_mem)
qed

theorem memmove_correct_witness:
  "snd (memmove (\<lambda>a. ucast a) 102 100 4) 103 = (101 :: u8)"
  using memmove_correct [of 100 4 102 "\<lambda>a. ucast a" 103] by simp

text \<open>
  C39. \<^verbatim>\<open>strcmp\<close> returns on NUL-terminated strings; it returns 0 exactly on equal
  strings, and the opposite sign when its arguments are exchanged.
\<close>

theorem strcmp_decides:
  assumes "cstr m a s" "cstr m b t"
  shows "\<exists>r. strcmp m a b = Some r \<and> strcmp m b a = Some (- r) \<and> (r = 0 \<longleftrightarrow> s = t)"
  using strcmp_cstr [OF assms] strcmp_cstr [OF assms(2,1)] byte_lex_0_iff [of s t]
    byte_lex_antisym [of t s] by simp

theorem strcmp_decides_witness:
  "\<exists>r. strcmp (\<lambda>a. if a = 0 then 104 else if a = 8 then 105 else 0) 0 8 = Some r \<and> r \<noteq> 0"
  using strcmp_decides [of "\<lambda>a. if a = 0 then 104 else if a = 8 then 105 else 0" 0 "[104]" 8 "[105]"]
  by auto

end
