(* ===== verification/Printer.thy ===== *)
theory Printer
  imports Clib "HOL-Library.Char_ord"
begin

text \<open>
  The formatted printing of \<^verbatim>\<open>shared/lib.c\<close>. \<open>printer_vprintf\<close> hands characters and
  colours, one at a time, to the printer it is given, and nothing it does depends on the
  printer's state: so it is modelled by the sequence of those calls, and the console and string
  printers are folds of their \<^verbatim>\<open>putc\<close> over it. A format is the characters before its NUL. An
  argument is an integer of the calling convention's 64-bit slot or a string; a conversion that
  meets the wrong sort of argument, or none, is undefined in C and reads 0 or the empty string
  here. Widths are integers: the C code's \<^verbatim>\<open>int\<close> overflows only on formats with a width or
  precision past \<open>2 ^ 31\<close>.
\<close>

section \<open>Numbers\<close>

definition upper_digits :: string where "upper_digits = ''0123456789ABCDEF''"
definition lower_digits :: string where "lower_digits = ''0123456789abcdef''"

text \<open>The digits, written from the end of the buffer; callers pass a base of at least 2.\<close>

function fill_digits :: "string \<Rightarrow> nat \<Rightarrow> nat \<Rightarrow> string \<Rightarrow> string" where
  "fill_digits digits base val acc =
     (let acc = digits ! (val mod base) # acc in
      if 1 < base \<and> val div base \<noteq> 0 then fill_digits digits base (val div base) acc else acc)"
  by pat_completeness auto

termination by (relation "measure (\<lambda>(digits, base, val, acc). val)")
    (auto intro!: div_less_dividend intro: gr0I)

declare fill_digits.simps [simp del]

definition fill_numbuf :: "u64 \<Rightarrow> int \<Rightarrow> string" where
  "fill_numbuf val base =
     (let digits = (if base < 0 then lower_digits else upper_digits);
          base = (if base < 0 then - base else base)
      in fill_digits digits (nat base) (unat val) [])"

section \<open>Parsing a conversion\<close>

definition FLAG_ALT :: u32 where "FLAG_ALT = 1"
definition FLAG_ZERO :: u32 where "FLAG_ZERO = 2"
definition FLAG_LEFTJUSTIFY :: u32 where "FLAG_LEFTJUSTIFY = 4"
definition FLAG_SPACEPOSITIVE :: u32 where "FLAG_SPACEPOSITIVE = 8"
definition FLAG_PLUSPOSITIVE :: u32 where "FLAG_PLUSPOSITIVE = 16"
definition FLAG_NUMERIC :: u32 where "FLAG_NUMERIC = 32"
definition FLAG_SIGNED :: u32 where "FLAG_SIGNED = 64"
definition FLAG_NEGATIVE :: u32 where "FLAG_NEGATIVE = 128"
definition FLAG_ALT2 :: u32 where "FLAG_ALT2 = 256"

lemmas flag_defs = FLAG_ALT_def FLAG_ZERO_def FLAG_LEFTJUSTIFY_def FLAG_SPACEPOSITIVE_def
  FLAG_PLUSPOSITIVE_def FLAG_NUMERIC_def FLAG_SIGNED_def FLAG_NEGATIVE_def FLAG_ALT2_def

definition has :: "u32 \<Rightarrow> u32 \<Rightarrow> bool" where "has flags f \<longleftrightarrow> flags AND f \<noteq> 0"

text \<open>The position of a character in \<^verbatim>\<open>flag_chars\<close>, which is \<^verbatim>\<open>"#0- +"\<close>.\<close>

definition flag_index :: "char \<Rightarrow> nat option" where
  "flag_index c =
     (if c = CHR ''#'' then Some 0 else if c = CHR ''0'' then Some 1
      else if c = CHR ''-'' then Some 2 else if c = CHR '' '' then Some 3
      else if c = CHR ''+'' then Some 4 else None)"

fun parse_flags :: "u32 \<Rightarrow> string \<Rightarrow> u32 \<times> string" where
  "parse_flags flags [] = (flags, [])"
| "parse_flags flags (c # cs) =
     (case flag_index c of
        Some i \<Rightarrow> parse_flags (flags OR push_bit i 1) cs
      | None \<Rightarrow> (flags, c # cs))"

datatype fmt_arg = Num u64 | Text string

definition va_num :: "fmt_arg list \<Rightarrow> u64 \<times> fmt_arg list" where
  "va_num args = (case args of Num v # r \<Rightarrow> (v, r) | Text t # r \<Rightarrow> (0, r) | [] \<Rightarrow> (0, []))"

definition va_text :: "fmt_arg list \<Rightarrow> string \<times> fmt_arg list" where
  "va_text args = (case args of Text t # r \<Rightarrow> (t, r) | Num v # r \<Rightarrow> ([], r) | [] \<Rightarrow> ([], []))"

definition va_int :: "fmt_arg list \<Rightarrow> int \<times> fmt_arg list" where
  "va_int args = (let (v, r) = va_num args in (sint (ucast v :: u32), r))"

definition is_digit :: "char \<Rightarrow> bool" where "is_digit c \<longleftrightarrow> CHR ''0'' \<le> c \<and> c \<le> CHR ''9''"

fun parse_num :: "int \<Rightarrow> string \<Rightarrow> int \<times> string" where
  "parse_num n [] = (n, [])"
| "parse_num n (c # cs) =
     (if is_digit c then parse_num (10 * n + of_char c - 48) cs else (n, c # cs))"

fun parse_width :: "string \<Rightarrow> fmt_arg list \<Rightarrow> int \<times> string \<times> fmt_arg list" where
  "parse_width [] args = (- 1, [], args)"
| "parse_width (c # cs) args =
     (if is_digit c \<and> c \<noteq> CHR ''0'' then let (n, r) = parse_num 0 (c # cs) in (n, r, args)
      else if c = CHR ''*'' then let (n, args) = va_int args in (n, cs, args)
      else (- 1, c # cs, args))"

fun parse_precision :: "string \<Rightarrow> fmt_arg list \<Rightarrow> int \<times> string \<times> fmt_arg list" where
  "parse_precision (CHR ''.'' # cs) args =
     (let (p, cs, args) =
        (case cs of
           c # ds \<Rightarrow>
             if is_digit c then let (n, r) = parse_num 0 cs in (n, r, args)
             else if c = CHR ''*'' then let (n, args) = va_int args in (n, ds, args)
             else (- 1, cs, args)
         | [] \<Rightarrow> (- 1, cs, args))
      in (if p < 0 then 0 else p, cs, args))"
| "parse_precision cs args = (- 1, cs, args)"

text \<open>The conversion character: a new colour, or a base, a number, flags and a string.\<close>

datatype conv = Colour u32 | Conv (cv_base: int) (cv_num: u64) (cv_flags: u32) (cv_data: string)

definition unsigned_arg :: "bool \<Rightarrow> u64 \<Rightarrow> u64" where
  "unsigned_arg long v = (if long then v else ucast (ucast v :: u32))"

definition signed_arg :: "bool \<Rightarrow> u64 \<Rightarrow> int" where
  "signed_arg long v = (if long then sint v else sint (ucast v :: u32))"

fun conversion :: "bool \<Rightarrow> u32 \<Rightarrow> string \<Rightarrow> fmt_arg list \<Rightarrow> conv \<times> string \<times> fmt_arg list" where
  "conversion long flags [] args = (Conv 10 0 flags ''%'', [], args)"
| "conversion long flags (c # cs) args =
     (if c = CHR ''l'' \<or> c = CHR ''z'' then conversion True flags cs args
      else if c = CHR ''d'' \<or> c = CHR ''i'' then
        let (v, args) = va_num args; x = signed_arg long v;
            negative = (if x < 0 then FLAG_NEGATIVE else 0)
        in (Conv 10 (word_of_int (if x < 0 then - x else x))
              (flags OR FLAG_NUMERIC OR FLAG_SIGNED OR negative) [], cs, args)
      else if c = CHR ''u'' then
        let (v, args) = va_num args in (Conv 10 (unsigned_arg long v) (flags OR FLAG_NUMERIC) [], cs, args)
      else if c = CHR ''x'' then
        let (v, args) = va_num args in (Conv (- 16) (unsigned_arg long v) (flags OR FLAG_NUMERIC) [], cs, args)
      else if c = CHR ''X'' then
        let (v, args) = va_num args in (Conv 16 (unsigned_arg long v) (flags OR FLAG_NUMERIC) [], cs, args)
      else if c = CHR ''p'' then
        let (v, args) = va_num args
        in (Conv (- 16) v (flags OR FLAG_ALT OR FLAG_ALT2 OR FLAG_NUMERIC) [], cs, args)
      else if c = CHR ''s'' then
        let (t, args) = va_text args in (Conv 10 0 flags t, cs, args)
      else if c = CHR ''C'' then
        let (v, args) = va_num args in (Colour (ucast v), cs, args)
      else if c = CHR ''c'' then
        let (v, args) = va_num args; b = (ucast v :: u8)
        in (Conv 10 0 flags (if b = 0 then [] else [char_of (unat b)]), cs, args)
      else (Conv 10 0 flags [c], cs, args))"

section \<open>Printing one conversion\<close>

definition num_prefix :: "int \<Rightarrow> u64 \<Rightarrow> u32 \<Rightarrow> string" where
  "num_prefix base num flags =
     (if has flags FLAG_NUMERIC \<and> has flags FLAG_SIGNED then
        if has flags FLAG_NEGATIVE then ''-''
        else if has flags FLAG_PLUSPOSITIVE then ''+''
        else if has flags FLAG_SPACEPOSITIVE then '' '' else []
      else if has flags FLAG_NUMERIC \<and> has flags FLAG_ALT \<and> (base = 16 \<or> base = - 16) \<and>
              (num \<noteq> 0 \<or> has flags FLAG_ALT2)
      then if base = - 16 then ''0x'' else ''0X'' else [])"

definition put_conv :: "int \<Rightarrow> int \<Rightarrow> conv \<Rightarrow> string" where
  "put_conv width precision cv =
     (let flags = cv_flags cv;
          numeric = has flags FLAG_NUMERIC;
          data = (if numeric then fill_numbuf (cv_num cv) (cv_base cv) else cv_data cv);
          prefix = num_prefix (cv_base cv) (cv_num cv) flags;
          len = (if precision \<ge> 0 \<and> \<not> numeric then min (length data) (nat precision) else length data);
          zeros = (if numeric \<and> precision \<ge> 0 then
                     if precision > int len then nat (precision - int len) else 0
                   else if numeric \<and> has flags FLAG_ZERO \<and> \<not> has flags FLAG_LEFTJUSTIFY \<and>
                           int (len + length prefix) < width
                   then nat (width - int len - int (length prefix)) else 0);
          pad = replicate (nat (width - int (len + zeros + length prefix))) CHR '' ''
      in (if has flags FLAG_LEFTJUSTIFY then [] else pad) @ prefix @ replicate zeros CHR ''0'' @
         take len data @ (if has flags FLAG_LEFTJUSTIFY then pad else []))"

lemma parse_flags_length: "length (snd (parse_flags f s)) \<le> length s"
  by (induction f s rule: parse_flags.induct) (auto split: option.splits)

lemma parse_num_length: "length (snd (parse_num n s)) \<le> length s"
  by (induction n s rule: parse_num.induct) auto

lemma parse_width_length: "length (fst (snd (parse_width s args))) \<le> length s"
proof (cases s)
  case (Cons c cs)
  then show ?thesis using parse_num_length [of 0 "c # cs"] by (auto split: prod.splits)
qed simp

lemma parse_precision_length: "length (fst (snd (parse_precision s args))) \<le> length s"
proof (cases "(s, args)" rule: parse_precision.cases)
  case (1 cs as)
  show ?thesis
  proof (cases cs)
    case (Cons d ds)
    then show ?thesis using 1 parse_num_length [of 0 "d # ds"] by (auto split: prod.splits)
  qed (use 1 in simp)
qed (auto)

lemma conversion_length: "length (fst (snd (conversion l f s args))) \<le> length s"
proof (induction l f s args rule: conversion.induct)
  case (2 long flags c cs args)
  show ?case
  proof (cases "c = CHR ''l'' \<or> c = CHR ''z''")
    case True
    with 2 show ?thesis by (simp add: le_SucI)
  next
    case False
    then show ?thesis unfolding conversion.simps Let_def case_prod_beta by simp
  qed
qed simp

lemma parsed_shorter:
  assumes "(flags, cs1) = parse_flags 0 cs" "(width, cs2, args2) = parse_width cs1 args"
    "(precision, cs3, args3) = parse_precision cs2 args2"
    "(cv, cs4, args4) = conversion False flags cs3 args3"
  shows "length cs4 < Suc (length cs)"
  using parse_flags_length [of 0 cs] parse_width_length [of cs1 args]
    parse_precision_length [of cs2 args2] conversion_length [of False flags cs3 args3]
  by (simp flip: assms)

text \<open>The \<^verbatim>\<open>putc\<close> calls of a format: characters with the colour current at each.\<close>

function printer_vprintf :: "u32 \<Rightarrow> string \<Rightarrow> fmt_arg list \<Rightarrow> (char \<times> u32) list" where
  "printer_vprintf colour [] args = []"
| "printer_vprintf colour (c # cs) args =
     (if c \<noteq> CHR ''%'' then (c, colour) # printer_vprintf colour cs args
      else let (flags, cs1) = parse_flags 0 cs;
               (width, cs2, args2) = parse_width cs1 args;
               (precision, cs3, args3) = parse_precision cs2 args2;
               (cv, cs4, args4) = conversion False flags cs3 args3
           in case cv of
                Colour k \<Rightarrow> printer_vprintf k cs4 args4
              | _ \<Rightarrow> map (\<lambda>ch. (ch, colour)) (put_conv width precision cv) @
                     printer_vprintf colour cs4 args4)"
  by pat_completeness auto

termination
proof (relation "measure (\<lambda>(k, cs, args). length cs)", goal_cases)
  case 1
  show ?case by (rule wf_measure)
next
  case 2
  show ?case by simp
next
  case (3 colour c cs args r1 flags cs1 r2 width r3 cs2 args2 r4 precision r5 cs3 args3 r6 cv r7 cs4 args4 k)
  then show ?case using parsed_shorter [of flags cs1 cs width cs2 args2 args precision cs3 args3 cv cs4 args4] by auto
next
  case (4 colour c cs args r1 flags cs1 r2 width r3 cs2 args2 r4 precision r5 cs3 args3 r6 cv r7 cs4 args4)
  then show ?case using parsed_shorter [of flags cs1 cs width cs2 args2 args precision cs3 args3 cv cs4 args4] by auto
qed

declare printer_vprintf.simps [simp del]

section \<open>The console printer\<close>

definition CONSOLE_COLUMNS :: nat where "CONSOLE_COLUMNS = 80"
definition CONSOLE_ROWS :: nat where "CONSOLE_ROWS = 25"
definition CPOS :: "int \<Rightarrow> int \<Rightarrow> int" where "CPOS row col = row * 80 + col"
definition CROW :: "int \<Rightarrow> int" where "CROW cpos = cpos div 80"
definition CCOL :: "int \<Rightarrow> int" where "CCOL cpos = cpos mod 80"

definition console_size :: nat where "console_size = CONSOLE_ROWS * CONSOLE_COLUMNS"

lemma console_size_eq [simp]: "console_size = 2000"
  by (simp add: console_size_def CONSOLE_ROWS_def CONSOLE_COLUMNS_def)

definition cell :: "char \<Rightarrow> u32 \<Rightarrow> u16" where "cell c colour = ucast (of_char c OR colour)"

fun fill_row :: "nat \<Rightarrow> u32 \<Rightarrow> u16 list \<times> nat \<Rightarrow> u16 list \<times> nat" where
  "fill_row 0 colour st = st"
| "fill_row (Suc n) colour (con, cur) = fill_row n colour (con[cur := cell CHR '' '' colour], cur + 1)"

definition console_putc :: "char \<times> u32 \<Rightarrow> u16 list \<times> nat \<Rightarrow> u16 list \<times> nat" where
  "console_putc ck st =
     (let (c, colour) = ck; (con, cur) = st;
          cur = (if cur \<ge> console_size then 0 else cur)
      in if c = CHR 0x0A then fill_row (80 - cur mod 80) colour (con, cur)
         else (con[cur := cell c colour], cur + 1))"

definition console_vprintf ::
  "int \<Rightarrow> u32 \<Rightarrow> string \<Rightarrow> fmt_arg list \<Rightarrow> u16 list \<Rightarrow> int \<times> u16 list" where
  "console_vprintf cpos colour format args con =
     (let cpos = (if cpos < 0 \<or> cpos \<ge> int console_size then 0 else cpos);
          (con, cur) = fold console_putc (printer_vprintf colour format args) (con, nat cpos)
      in (int cur, con))"

text \<open>\<^verbatim>\<open>console_printf\<close> collects its variable arguments and calls \<^verbatim>\<open>console_vprintf\<close>.\<close>

definition console_printf ::
  "int \<Rightarrow> u32 \<Rightarrow> string \<Rightarrow> fmt_arg list \<Rightarrow> u16 list \<Rightarrow> int \<times> u16 list" where
  "console_printf cpos colour format args con = console_vprintf cpos colour format args con"

definition console_clear :: "u16 list \<Rightarrow> u16 list \<times> int" where
  "console_clear con = (map (\<lambda>i. cell CHR '' '' 0x0700) [0..<console_size] @ drop console_size con, 0)"

section \<open>The string printer\<close>

definition string_putc :: "addr \<Rightarrow> char \<times> u32 \<Rightarrow> mem \<times> addr \<Rightarrow> mem \<times> addr" where
  "string_putc lim_addr ck st =
     (let (m, s) = st in if s < lim_addr then (m(s := of_char (fst ck)), s + 1) else (m, s))"

definition vsnprintf :: "mem \<Rightarrow> addr \<Rightarrow> u64 \<Rightarrow> string \<Rightarrow> fmt_arg list \<Rightarrow> u32 \<times> mem" where
  "vsnprintf m s sz format args =
     (if sz \<noteq> 0 then
        let (m, e) = fold (string_putc (s + sz - 1)) (printer_vprintf 0 format args) (m, s)
        in (ucast (e - s), m(e := 0))
      else (0, m))"

definition snprintf :: "mem \<Rightarrow> addr \<Rightarrow> u64 \<Rightarrow> string \<Rightarrow> fmt_arg list \<Rightarrow> u32 \<times> mem" where
  "snprintf m s sz format args = vsnprintf m s sz format args"

section \<open>Numbers read back\<close>

definition digit_value :: "char \<Rightarrow> nat" where
  "digit_value c = (if is_digit c then of_char c - 48 else if c < CHR ''a'' then of_char c - 55 else of_char c - 87)"

definition number_value :: "nat \<Rightarrow> string \<Rightarrow> nat" where
  "number_value base cs = fold (\<lambda>c n. n * base + digit_value c) cs 0"

lemma digit_value_digits:
  assumes "d < base" "base \<le> 16" "digits = upper_digits \<or> digits = lower_digits"
  shows "digit_value (digits ! d) = d"
proof -
  have "\<forall>d < 16. digit_value (upper_digits ! d) = d \<and> digit_value (lower_digits ! d) = d"
    unfolding upper_digits_def lower_digits_def by code_simp
  with assms show ?thesis by auto
qed

lemma fill_digits_value:
  assumes "1 < base" "base \<le> 16" "digits = upper_digits \<or> digits = lower_digits"
  shows "fold (\<lambda>c n. n * base + digit_value c) (fill_digits digits base val acc) 0 =
    fold (\<lambda>c n. n * base + digit_value c) acc val"
proof (induction val arbitrary: acc rule: less_induct)
  case (less val)
  have d: "digit_value (digits ! (val mod base)) = val mod base"
    using assms by (intro digit_value_digits [of _ base]) auto
  show ?case
  proof (cases "val div base = 0")
    case True
    then have "val mod base = val" using assms(1) by (simp add: div_eq_0_iff)
    with True d show ?thesis by (simp add: fill_digits.simps Let_def)
  next
    case False
    then have "val div base < val" using assms(1) by (auto intro!: div_less_dividend intro: gr0I)
    note IH = less.IH [OF this, of "digits ! (val mod base) # acc"]
    with False assms(1) d show ?thesis by (subst fill_digits.simps) (simp add: Let_def)
  qed
qed

lemma fill_numbuf_value:
  assumes "base = 10 \<or> base = 16 \<or> base = - 16"
  shows "number_value (nat \<bar>base\<bar>) (fill_numbuf v base) = unat v"
  using assms fill_digits_value [of "nat \<bar>base\<bar>" _ "unat v" "[]"]
  by (auto simp: number_value_def fill_numbuf_def Let_def)

lemma fill_digits_nonempty: "fill_digits digits base val acc \<noteq> []"
proof (induction val arbitrary: acc rule: less_induct)
  case (less val)
  show ?case
  proof (cases "1 < base \<and> val div base \<noteq> 0")
    case True
    then have "val div base < val" by (auto intro!: div_less_dividend intro: gr0I)
    with less.IH True show ?thesis by (subst fill_digits.simps) (simp add: Let_def)
  next
    case False
    then show ?thesis by (subst fill_digits.simps) (auto simp: Let_def)
  qed
qed

section \<open>The printers stay inside their buffers\<close>

lemma fill_row_length: "length (fst (fill_row n k st)) = length (fst st)"
  by (induction n k st rule: fill_row.induct) auto

lemma fill_row_cursor: "snd (fill_row n k st) = snd st + n"
  by (induction n k st rule: fill_row.induct) auto

lemma console_putc_bounds:
  assumes "snd st \<le> 2000"
  shows "length (fst (console_putc ck st)) = length (fst st)" "snd (console_putc ck st) \<le> 2000"
proof -
  have "c + (80 - c mod 80) \<le> 2000" if "c < 2000" for c :: nat
  proof -
    have "c = 80 * (c div 80) + c mod 80" "c mod 80 < 80" "c div 80 < 25" using that by auto
    then show ?thesis by linarith
  qed
  then show "length (fst (console_putc ck st)) = length (fst st)" "snd (console_putc ck st) \<le> 2000"
    using assms by (auto simp: console_putc_def Let_def fill_row_length fill_row_cursor split: prod.splits)
qed

lemma console_fold_bounds:
  "snd st \<le> 2000 \<Longrightarrow>
   length (fst (fold console_putc es st)) = length (fst st) \<and> snd (fold console_putc es st) \<le> 2000"
  by (induction es arbitrary: st) (simp_all add: console_putc_bounds)

text \<open>
  Memory after the first \<open>l\<close> of the characters \<open>es\<close> are stored from \<open>s + k\<close> on: storing one
  character and then the rest.
\<close>

definition stored :: "addr \<Rightarrow> nat \<Rightarrow> nat \<Rightarrow> (char \<times> u32) list \<Rightarrow> mem \<Rightarrow> mem" where
  "stored s k l es m =
     (\<lambda>b. if \<exists>i < l. b = s + of_nat (k + i) then of_char (fst (es ! (unat (b - s) - k))) else m b)"

lemma stored_Cons:
  assumes "unat s + k + l < 2 ^ 64"
  shows "stored s k (Suc l) (e # es) m = stored s (Suc k) l es (m(s + of_nat k := of_char (fst e)))"
proof
  fix b
  let ?Q = "\<exists>i < l. b = s + of_nat (Suc k + i)"
  have sub: "unat (of_nat q :: u64) = q" if "q \<le> k + l" for q using assms that by (simp add: to_nat)
  have first: "(\<exists>i < Suc l. b = s + of_nat (k + i)) \<longleftrightarrow> b = s + of_nat k \<or> ?Q"
    by (subst Nat.Ex_less_Suc2) simp
  show "stored s k (Suc l) (e # es) m b = stored s (Suc k) l es (m(s + of_nat k := of_char (fst e))) b"
  proof (cases ?Q)
    case True
    then obtain i where i: "i < l" "b = s + of_nat (Suc k + i)" by blast
    then have "unat (b - s) = Suc k + i"
      using sub [of "Suc k + i"] by (simp del: of_nat_Suc of_nat_add)
    then show ?thesis using True by (simp add: stored_def first del: of_nat_Suc of_nat_add)
  next
    case False
    have "unat (s + of_nat k - s) = k" using sub [of k] by simp
    then show ?thesis unfolding stored_def first
      by (simp only: False simp_thms if_False fun_upd_apply) (simp only: diff_self_eq_0 nth_Cons_0 cong: if_cong)
  qed
qed

lemma string_fold_stored:
  assumes "unat s + n < 2 ^ 64" "k \<le> n"
  shows "fold (string_putc (s + of_nat n)) es (m, s + of_nat k) =
    (stored s k (min (length es) (n - k)) es m, s + of_nat (k + min (length es) (n - k)))"
  using assms(2)
proof (induction es arbitrary: m k)
  case (Cons e es)
  have lt: "s + of_nat k < s + of_nat n \<longleftrightarrow> k < n"
    using assms(1) Cons.prems by (simp add: word_less_nat_alt to_nat)
  show ?case
  proof (cases "k < n")
    case True
    let ?m = "m(s + of_nat k := of_char (fst e))"
    have step: "fold (string_putc (s + of_nat n)) (e # es) (m, s + of_nat k) =
        fold (string_putc (s + of_nat n)) es (?m, s + of_nat (Suc k))"
      using True lt by (simp add: string_putc_def algebra_simps)
    have mn: "min (length (e # es)) (n - k) = Suc (min (length es) (n - Suc k))" using True by auto
    have "stored s k (Suc (min (length es) (n - Suc k))) (e # es) m =
        stored s (Suc k) (min (length es) (n - Suc k)) es ?m"
      using assms(1) True by (intro stored_Cons) auto
    then show ?thesis using Cons.IH [of "Suc k" ?m] True by (simp only: step mn) (simp add: fun_upd_def)
  next
    case False
    then have "k = n" using Cons.prems by simp
    have "fold (string_putc (s + of_nat n)) fs (m, s + of_nat n) = (m, s + of_nat n)" for fs
      by (induction fs) (auto simp: string_putc_def)
    from this [of "e # es"] \<open>k = n\<close> show ?thesis by (simp add: stored_def)
  qed
qed (simp add: stored_def)

lemmas string_fold = string_fold_stored [unfolded stored_def]

section \<open>Properties\<close>

text \<open>
  C35. The digits \<^verbatim>\<open>fill_numbuf\<close> writes, in decimal or in either case of hexadecimal,
  read back as the number it was given, for every 64-bit number; there is always one.
\<close>

theorem fill_numbuf_roundtrip:
  assumes "base \<in> {10, 16, - 16}"
  shows "number_value (nat \<bar>base\<bar>) (fill_numbuf v base) = unat v \<and> fill_numbuf v base \<noteq> []"
  using assms fill_numbuf_value [of base v] fill_digits_nonempty
  by (auto simp: fill_numbuf_def Let_def)

theorem fill_numbuf_roundtrip_witness: "number_value 16 (fill_numbuf 0xDEADBEEF (- 16)) = 0xDEADBEEF"
  using fill_numbuf_roundtrip [of "- 16" "0xDEADBEEF"] by simp


text \<open>
  C33. \<^verbatim>\<open>vsnprintf\<close> with a buffer of \<open>sz > 0\<close> bytes that does not wrap writes no byte
  outside it, returns the number of characters stored (the output's length, or \<open>sz - 1\<close> when
  that is smaller), stores a prefix of the output, and ends it with a NUL.
\<close>

theorem vsnprintf_in_bounds:
  assumes "0 < unat sz" "unat s + unat sz \<le> 2 ^ 64"
  shows "let out = printer_vprintf 0 format args; n = min (length out) (unat sz - 1) in
      fst (vsnprintf m s sz format args) = of_nat n \<and>
      snd (vsnprintf m s sz format args) b =
        (if unat (b - s) < n then of_char (fst (out ! unat (b - s)))
         else if b = s + of_nat n then 0 else m b)"
proof -
  define out where "out = printer_vprintf 0 format args"
  define n where "n = min (length out) (unat sz - 1)"
  have lim: "s + sz - 1 = s + of_nat (unat sz - 1)"
  proof -
    have "(of_nat (unat sz - 1) :: u64) = of_nat (unat sz) - 1" using assms(1) by (simp add: of_nat_diff)
    then show ?thesis by simp
  qed
  have nz: "sz \<noteq> 0" using assms(1) by auto
  let ?f = "fold (string_putc (s + sz - 1)) out (m, s)"
  have f: "?f = (\<lambda>b. if \<exists>i < n. b = s + of_nat i then of_char (fst (out ! unat (b - s))) else m b,
      s + of_nat n)"
    using string_fold [of s "unat sz - 1" 0 out m] assms(1,2) by (simp add: lim n_def cong: if_cong)
  have ex: "(\<exists>i < n. b = s + of_nat i) \<longleftrightarrow> unat (b - s) < n" for b
  proof
    assume "\<exists>i < n. b = s + of_nat i"
    then obtain i where i: "i < n" "b = s + of_nat i" by blast
    then have "i < 2 ^ 64" using unat_u64_less [of sz] by (auto simp: n_def)
    with i show "unat (b - s) < n" by (simp add: to_nat)
  next
    assume "unat (b - s) < n"
    then show "\<exists>i < n. b = s + of_nat i" by (intro exI [of _ "unat (b - s)"]) simp
  qed
  have v: "vsnprintf m s sz format args = (ucast (snd ?f - s), (fst ?f)(snd ?f := 0))"
    using nz by (simp add: vsnprintf_def out_def split: prod.splits)
  have "fst (vsnprintf m s sz format args) = of_nat n" by (simp add: v f ucast_of_nat_64_32)
  moreover have "\<not> unat (s + of_nat n - s) < n"
  proof -
    have "n < 2 ^ 64" using unat_u64_less [of sz] by (simp add: n_def)
    then show ?thesis by (simp add: to_nat)
  qed
  ultimately show ?thesis
    unfolding Let_def out_def [symmetric] n_def [symmetric] by (auto simp: v f ex)
qed

theorem vsnprintf_in_bounds_witness:
  "fst (vsnprintf (\<lambda>a. 7) 100 4 ''%d '' [Num 12]) = 3 \<and>
   snd (vsnprintf (\<lambda>a. 7) 100 4 ''%d '' [Num 12]) 104 = 7"
proof -
  have out: "printer_vprintf 0 ''%d '' [Num 12] = map (\<lambda>c. (c, 0)) ''12 ''" by code_simp
  show ?thesis
    using vsnprintf_in_bounds [of 4 100 "''%d ''" "[Num 12]" "\<lambda>a. 7" 104] by (simp add: out)
qed

end
