(* ===== verification/Kernel_State.thy ===== *)
theory Kernel_State
  imports X86 Printer
begin

text \<open>
  The kernel's state and the way its code ends. \<open>kstate\<close> extends the machine with the
  file-scope variables of \<^verbatim>\<open>kernel.c\<close>, \<^verbatim>\<open>vm.c\<close> and \<^verbatim>\<open>k-hardware.c\<close> and with the
  addresses the linker chooses (\<open>img\<close>, which also holds the bytes that the compiler leaves in the
  padding of a \<^verbatim>\<open>struct vamapping\<close>). A kernel function maps a state to \<open>Inr\<close> of its result
  and the new state, or to \<open>Inl\<close> of a \<open>stop\<close> when it never returns: a failed assertion or panic
  (after the message is on the console and in the log), a soft reboot, a power off, an endless
  empty loop, or a kernel access that faults because its address is not mapped for it.
  \<^verbatim>\<open>console\<close> is the device memory at \<open>CONSOLE_ADDR\<close>, kept apart from \<open>pmem\<close>.
\<close>

section \<open>Processes and pages\<close>

record physical_pageinfo =
  owner :: int
  refcount :: int

datatype procstate = P_FREE | P_RUNNABLE | P_BLOCKED | P_BROKEN

record proc =
  p_pid :: int
  p_gpid :: int
  program_break :: u64
  original_break :: u64
  p_registers :: x86_64_registers
  p_state :: procstate
  p_pagetable :: addr
  display_status :: u8

definition NPROC :: nat where "NPROC = 16"
definition KERNEL_START_ADDR :: u64 where "KERNEL_START_ADDR = 0x40000"
definition KERNEL_STACK_TOP :: u64 where "KERNEL_STACK_TOP = 0x80000"
definition CONSOLE_ADDR :: u64 where "CONSOLE_ADDR = 0xB8000"
definition PROC_START_ADDR :: u64 where "PROC_START_ADDR = 0x100000"
definition MEMSIZE_PHYSICAL :: u64 where "MEMSIZE_PHYSICAL = 0x200000"
definition NPAGES :: nat where "NPAGES = 512"
definition MEMSIZE_VIRTUAL :: u64 where "MEMSIZE_VIRTUAL = 0x300000"
definition INT_HARDWARE :: u64 where "INT_HARDWARE = 32"
definition INT_TIMER :: u64 where "INT_TIMER = INT_HARDWARE + 0"

definition INT_SYS :: u64 where "INT_SYS = 48"
definition INT_SYS_PANIC :: u64 where "INT_SYS_PANIC = INT_SYS + 0"
definition INT_SYS_GETPID :: u64 where "INT_SYS_GETPID = INT_SYS + 1"
definition INT_SYS_YIELD :: u64 where "INT_SYS_YIELD = INT_SYS + 2"
definition INT_SYS_PAGE_ALLOC :: u64 where "INT_SYS_PAGE_ALLOC = INT_SYS + 3"
definition INT_SYS_FORK :: u64 where "INT_SYS_FORK = INT_SYS + 4"
definition INT_SYS_EXIT :: u64 where "INT_SYS_EXIT = INT_SYS + 5"
definition INT_SYS_MAPPING :: u64 where "INT_SYS_MAPPING = INT_SYS + 6"
definition INT_SYS_MEM_TOG :: u64 where "INT_SYS_MEM_TOG = INT_SYS + 8"
definition INT_SYS_BRK :: u64 where "INT_SYS_BRK = INT_SYS + 9"
definition INT_SYS_SBRK :: u64 where "INT_SYS_SBRK = INT_SYS + 10"

lemmas int_defs = INT_SYS_def INT_SYS_PANIC_def INT_SYS_GETPID_def INT_SYS_YIELD_def
  INT_SYS_PAGE_ALLOC_def INT_SYS_FORK_def INT_SYS_EXIT_def INT_SYS_MAPPING_def
  INT_SYS_MEM_TOG_def INT_SYS_BRK_def INT_SYS_SBRK_def INT_TIMER_def INT_HARDWARE_def
  INT_PAGEFAULT_def INT_GPF_def

text \<open>\<^verbatim>\<open>enum pageowner\<close>\<close>

definition PO_FREE :: int where "PO_FREE = 0"
definition PO_RESERVED :: int where "PO_RESERVED = - 1"
definition PO_KERNEL :: int where "PO_KERNEL = - 2"

text \<open>\<^verbatim>\<open>struct vamapping\<close>; permissions are the low 12 bits of an entry.\<close>

record vamapping =
  va_pn :: int
  va_pa :: u64
  va_perm :: u64

section \<open>Kernel state\<close>

record image =
  kernel_pagetables_at :: addr
  default_int_handler_at :: addr
  gpf_int_handler_at :: addr
  pagefault_int_handler_at :: addr
  timer_int_handler_at :: addr
  sys_int_handlers_at :: "addr list"
  virtual_memory_map_at :: addr
  start_data_at :: addr
  end_at :: addr
  segments_at :: addr
  interrupt_descriptors_at :: addr
  kernel_task_descriptor_at :: addr
  ramimages :: "(addr \<times> addr) list"
  vamapping_padding :: "u32 \<times> u32"

record kstate = machine +
  img :: image
  kernel_pagetable :: addr
  pageinfo :: "physical_pageinfo list"
  processes :: "proc list"
  current :: nat
  ticks :: u32
  disp_global :: u8
  console :: "u16 list"
  cursorpos :: int
  last_ticks :: u32
  showing :: int
  segments :: "u64 list"
  interrupt_descriptors :: "x86_64_gatedescriptor list"
  kernel_task_descriptor :: x86_64_taskstate
  interrupts_enabled :: u16
  modifiers :: u8
  last_escape :: u8
  port_initialized :: bool

definition upd_page :: "nat \<Rightarrow> (physical_pageinfo \<Rightarrow> physical_pageinfo) \<Rightarrow> kstate \<Rightarrow> kstate" where
  "upd_page n f s = s\<lparr>pageinfo := (pageinfo s)[n := f (pageinfo s ! n)]\<rparr>"

definition upd_proc :: "nat \<Rightarrow> (proc \<Rightarrow> proc) \<Rightarrow> kstate \<Rightarrow> kstate" where
  "upd_proc i f s = s\<lparr>processes := (processes s)[i := f (processes s ! i)]\<rparr>"

definition cur_proc :: "kstate \<Rightarrow> proc" where
  "cur_proc s = processes s ! current s"

definition lnot8 :: "u8 \<Rightarrow> u8" where "lnot8 b = (if b = 0 then 1 else 0)"

text \<open>
  Static storage when the kernel starts: zero, but for the initialisers of \<^verbatim>\<open>disp_global\<close>
  and \<^verbatim>\<open>showing\<close>. The arguments are what the boot loader, the linker and the devices give.
\<close>

definition zero_regs :: x86_64_registers where
  "zero_regs = \<lparr>reg_rax = 0, reg_rcx = 0, reg_rdx = 0, reg_rbx = 0, reg_rbp = 0, reg_rsi = 0,
     reg_rdi = 0, reg_r8 = 0, reg_r9 = 0, reg_r10 = 0, reg_r11 = 0, reg_r12 = 0, reg_r13 = 0,
     reg_r14 = 0, reg_r15 = 0, reg_fs = 0, reg_gs = 0, reg_intno = 0, reg_err = 0, reg_rip = 0,
     reg_cs = 0, reg_rflags = 0, reg_rsp = 0, reg_ss = 0\<rparr>"

definition zero_proc :: proc where
  "zero_proc = \<lparr>p_pid = 0, p_gpid = 0, program_break = 0, original_break = 0,
     p_registers = zero_regs, p_state = P_FREE, p_pagetable = 0, display_status = 0\<rparr>"

definition boot_state :: "image \<Rightarrow> (nat \<Rightarrow> u16 \<Rightarrow> u32) \<Rightarrow> mem \<Rightarrow> kstate" where
  "boot_state im ports m =
     \<lparr>pmem = m, io_in = ports, io_reads = (\<lambda>p. 0), io_outs = [], cr0 = 0, cr2 = 0, cr3 = 0, cr4 = 0,
      rflags = 0, gdtr = \<lparr>pseudod_limit = 0, pseudod_base = 0\<rparr>,
      idtr = \<lparr>pseudod_limit = 0, pseudod_base = 0\<rparr>, task_register = 0, img = im,
      kernel_pagetable = 0, pageinfo = replicate NPAGES \<lparr>owner = 0, refcount = 0\<rparr>,
      processes = replicate NPROC zero_proc, current = 0, ticks = 0, disp_global = 1,
      console = replicate console_size 0, cursorpos = 0, last_ticks = 0, showing = 1,
      segments = replicate 7 0, interrupt_descriptors = replicate 256 \<lparr>gd_low = 0, gd_high = 0\<rparr>,
      kernel_task_descriptor = \<lparr>ts_rsp = replicate 3 0, ts_ist = replicate 7 0, ts_iomap_base = 0\<rparr>,
      interrupts_enabled = 0, modifiers = 0, last_escape = 0, port_initialized = False\<rparr>"

text \<open>A link map with the kernel at 0x40000, for concrete evaluation.\<close>

definition sample_image :: image where
  "sample_image = \<lparr>kernel_pagetables_at = 0x50000, default_int_handler_at = 0x40100,
     gpf_int_handler_at = 0x40110, pagefault_int_handler_at = 0x40120, timer_int_handler_at = 0x40130,
     sys_int_handlers_at = map (\<lambda>i. 0x40200 + 16 * of_nat i) [0..<16], virtual_memory_map_at = 0x41000,
     start_data_at = 0x48000, end_at = 0x58000, segments_at = 0x49000,
     interrupt_descriptors_at = 0x4A000, kernel_task_descriptor_at = 0x4C000,
     ramimages = [(0x100000, 0x104000), (0x104000, 0x108000), (0x108000, 0x10C000), (0x10C000, 0x110000)],
     vamapping_padding = (0, 0)\<rparr>"

section \<open>Functions that may not return\<close>

datatype stop = Panicked | Rebooted string | Powered_off | Spinning | Faulted addr

type_synonym 'a kernel = "kstate \<Rightarrow> (stop \<times> kstate) + ('a \<times> kstate)"

definition ret :: "'a \<Rightarrow> 'a kernel" where "ret x s = Inr (x, s)"

text \<open>A function that may also run for ever: \<open>None\<close> is no result at all.\<close>

type_synonym 'a run = "((stop \<times> kstate) + ('a \<times> kstate)) option"

definition andThen :: "'a run \<Rightarrow> ('a \<Rightarrow> kstate \<Rightarrow> 'b run) \<Rightarrow> 'b run" where
  "andThen r g = (case r of None \<Rightarrow> None | Some (Inl e) \<Rightarrow> Some (Inl e) | Some (Inr (x, s)) \<Rightarrow> g x s)"

lemma andThen_simps [simp]:
  "andThen None g = None" "andThen (Some (Inl e)) g = Some (Inl e)" "andThen (Some (Inr (x, s))) g = g x s"
  by (simp_all add: andThen_def)

definition bindK :: "'a kernel \<Rightarrow> ('a \<Rightarrow> 'b kernel) \<Rightarrow> 'b kernel" where
  "bindK f g s = (case f s of Inl e \<Rightarrow> Inl e | Inr (x, s') \<Rightarrow> g x s')"

lemma bindK_Inr [simp]: "f s = Inr (x, s') \<Longrightarrow> bindK f g s = g x s'"
  by (simp add: bindK_def)

lemma bindK_Inl [simp]: "f s = Inl e \<Longrightarrow> bindK f g s = Inl e"
  by (simp add: bindK_def)

lemma bindK_ret [simp]: "bindK (ret x) g = g x"
  by (rule ext) (simp add: bindK_def ret_def)

section \<open>Console and log\<close>

definition kconsole_vprintf :: "int \<Rightarrow> u32 \<Rightarrow> string \<Rightarrow> fmt_arg list \<Rightarrow> kstate \<Rightarrow> int \<times> kstate" where
  "kconsole_vprintf cpos colour format args s =
     (let (c, con) = console_vprintf cpos colour format args (console s) in (c, s\<lparr>console := con\<rparr>))"

definition IO_PARALLEL1_DATA :: u16 where "IO_PARALLEL1_DATA = 0x378"
definition IO_PARALLEL1_STATUS :: u16 where "IO_PARALLEL1_STATUS = 0x379"
definition IO_PARALLEL_STATUS_BUSY :: u8 where "IO_PARALLEL_STATUS_BUSY = 0x80"
definition IO_PARALLEL1_CONTROL :: u16 where "IO_PARALLEL1_CONTROL = 0x37A"
definition IO_PARALLEL_CONTROL_SELECT :: u8 where "IO_PARALLEL_CONTROL_SELECT = 0x08"
definition IO_PARALLEL_CONTROL_INIT :: u8 where "IO_PARALLEL_CONTROL_INIT = 0x04"
definition IO_PARALLEL_CONTROL_STROBE :: u8 where "IO_PARALLEL_CONTROL_STROBE = 0x01"

definition delay :: "kstate \<Rightarrow> kstate" where
  "delay s = snd (inb 0x84 (snd (inb 0x84 (snd (inb 0x84 (snd (inb 0x84 s)))))))"

text \<open>The wait for the port: at most \<open>n\<close> rounds, and it stops when the status bit is set.\<close>

fun port_wait :: "nat \<Rightarrow> kstate \<Rightarrow> kstate" where
  "port_wait 0 s = s"
| "port_wait (Suc n) s =
     (let (d, s) = inb IO_PARALLEL1_STATUS s
      in if d AND IO_PARALLEL_STATUS_BUSY = 0 then port_wait n (delay s) else s)"

definition parallel_port_putc :: "char \<times> u32 \<Rightarrow> kstate \<Rightarrow> kstate" where
  "parallel_port_putc ck s =
     (let s = (if \<not> port_initialized s
               then (outb IO_PARALLEL1_CONTROL 0 s)\<lparr>port_initialized := True\<rparr> else s);
          s = port_wait 12800 s;
          s = outb IO_PARALLEL1_DATA (of_char (fst ck)) s;
          s = outb IO_PARALLEL1_CONTROL (IO_PARALLEL_CONTROL_SELECT OR IO_PARALLEL_CONTROL_INIT
                OR IO_PARALLEL_CONTROL_STROBE) s
      in outb IO_PARALLEL1_CONTROL (IO_PARALLEL_CONTROL_SELECT OR IO_PARALLEL_CONTROL_INIT) s)"

definition log_vprintf :: "string \<Rightarrow> fmt_arg list \<Rightarrow> kstate \<Rightarrow> kstate" where
  "log_vprintf format args s = fold parallel_port_putc (printer_vprintf 0 format args) s"

definition log_printf :: "string \<Rightarrow> fmt_arg list \<Rightarrow> kstate \<Rightarrow> kstate" where
  "log_printf format args s = log_vprintf format args s"

definition error_vprintf :: "int \<Rightarrow> u32 \<Rightarrow> string \<Rightarrow> fmt_arg list \<Rightarrow> kstate \<Rightarrow> int \<times> kstate" where
  "error_vprintf cpos colour format args s =
     kconsole_vprintf cpos colour format args (log_vprintf format args s)"

definition error_printf :: "int \<Rightarrow> u32 \<Rightarrow> string \<Rightarrow> fmt_arg list \<Rightarrow> kstate \<Rightarrow> int \<times> kstate" where
  "error_printf cpos colour format args s = error_vprintf cpos colour format args s"

text \<open>
  \<^verbatim>\<open>kernel_panic\<close> prints and then waits for the keyboard for ever (\<open>Keyboard.fail\<close>): its
  result is the state in which that wait begins. \<open>None\<close> is the null format.
\<close>

definition kernel_panic :: "string option \<Rightarrow> fmt_arg list \<Rightarrow> 'a kernel" where
  "kernel_panic format args s =
     (case format of
        Some f \<Rightarrow>
          let (cpos, s) = error_printf (CPOS 23 0) 0xC000 ''PANIC: '' [] s;
              (cpos, s) = error_vprintf cpos 0xC000 f args s;
              s = (if CCOL cpos \<noteq> 0 then snd (error_printf cpos 0xC000 [CHR 0x0A] [] s) else s)
          in Inl (Panicked, s)
      | None \<Rightarrow> Inl (Panicked, snd (error_printf (CPOS 23 0) 0xC000 ''PANIC'' [] s)))"

definition newline :: string where "newline = [CHR 0x0A]"

definition assert_fail :: "string \<Rightarrow> nat \<Rightarrow> string \<Rightarrow> 'a kernel" where
  "assert_fail file line msg =
     kernel_panic (Some (''%s:%d: assertion '' @ [CHR 0x27] @ ''%s'' @ [CHR 0x27] @ '' failed'' @ newline))
       [Text file, Num (of_nat line), Text msg]"

definition assertK :: "bool \<Rightarrow> string \<Rightarrow> nat \<Rightarrow> string \<Rightarrow> 'a kernel \<Rightarrow> 'a kernel" where
  "assertK c file line msg k = (if c then k else assert_fail file line msg)"

lemma assertK_True [simp]: "c \<Longrightarrow> assertK c file line msg k = k"
  by (simp add: assertK_def)

section \<open>What a stop and a log leave alone\<close>

text \<open>The part of the state that neither printing nor port input and output changes.\<close>

definition io_only :: "kstate \<Rightarrow> kstate \<Rightarrow> bool" where
  "io_only s t \<longleftrightarrow> (\<exists>r os p. t = s\<lparr>io_reads := r, io_outs := os, port_initialized := p\<rparr>)"

lemma io_onlyI: "t = s\<lparr>io_reads := r, io_outs := os, port_initialized := p\<rparr> \<Longrightarrow> io_only s t"
  unfolding io_only_def by blast

lemma io_onlyE:
  assumes "io_only s t"
  obtains r os p where "t = s\<lparr>io_reads := r, io_outs := os, port_initialized := p\<rparr>"
  using assms unfolding io_only_def by blast

lemma io_only_refl [simp]: "io_only s s"
  by (rule io_onlyI [where r = "io_reads s" and os = "io_outs s" and p = "port_initialized s"]) simp

lemma io_only_trans:
  assumes "io_only s t" "io_only t u" shows "io_only s u"
proof -
  obtain r os p where t: "t = s\<lparr>io_reads := r, io_outs := os, port_initialized := p\<rparr>"
    using assms(1) by (rule io_onlyE)
  obtain r' os' p' where u: "u = t\<lparr>io_reads := r', io_outs := os', port_initialized := p'\<rparr>"
    using assms(2) by (rule io_onlyE)
  show ?thesis by (rule io_onlyI [where r = r' and os = os' and p = p']) (simp add: t u)
qed

lemma io_only_upds:
  "io_only s (s\<lparr>io_reads := r\<rparr>)" "io_only s (s\<lparr>io_outs := os\<rparr>)" "io_only s (s\<lparr>port_initialized := p\<rparr>)"
  by (rule io_onlyI [where r = r and os = "io_outs s" and p = "port_initialized s"], simp,
      rule io_onlyI [where r = "io_reads s" and os = os and p = "port_initialized s"], simp,
      rule io_onlyI [where r = "io_reads s" and os = "io_outs s" and p = p], simp)

lemma io_only_port [simp]:
  "io_only s (snd (inb port s))" "io_only s (outb port d s)" "io_only s (snd (inl port s))"
  by (simp_all add: inb_def inl_def outb_def outl_def io_only_upds)

lemma io_only_delay: "io_only s (delay s)"
  unfolding delay_def
  by (rule io_only_trans [OF io_only_trans [OF io_only_trans [OF io_only_port(1) io_only_port(1)]
        io_only_port(1)] io_only_port(1)])

lemma io_only_wait: "io_only s (port_wait n s)"
proof (induction n arbitrary: s)
  case (Suc n)
  let ?t = "snd (inb IO_PARALLEL1_STATUS s)"
  have "io_only s ?t" by simp
  moreover have "io_only s (port_wait n (delay ?t))"
    using io_only_trans [OF io_only_port(1) io_only_trans [OF io_only_delay Suc.IH]] .
  ultimately show ?case by (simp only: port_wait.simps Let_def case_prod_beta split: if_split) simp
qed simp

lemma io_only_putc: "io_only s (parallel_port_putc ck s)"
proof -
  define s1 where "s1 = (if \<not> port_initialized s
    then (outb IO_PARALLEL1_CONTROL 0 s)\<lparr>port_initialized := True\<rparr> else s)"
  have 1: "io_only s s1" unfolding s1_def
    using io_only_trans [OF io_only_port(2) io_only_upds(3)] by simp
  have 2: "io_only s (outb p d t)" if "io_only s t" for p d t
    using io_only_trans [OF that io_only_port(2)] .
  show ?thesis
    unfolding parallel_port_putc_def Let_def s1_def [symmetric]
    by (intro 2 io_only_trans [OF 1 io_only_wait])
qed

lemma io_only_fold: "io_only s (fold parallel_port_putc es s)"
proof (induction es arbitrary: s)
  case (Cons e es)
  show ?case using io_only_trans [OF io_only_putc Cons.IH] by simp
qed simp

lemma io_only_log: "io_only s (log_vprintf format args s)"
  by (simp add: log_vprintf_def io_only_fold)

lemma io_only_log_printf: "io_only s (log_printf format args s)"
  by (simp add: log_printf_def io_only_log)

text \<open>Everything the other components' invariants speak of survives.\<close>

lemma io_only_fields:
  assumes "io_only s t"
  shows "pmem t = pmem s" "img t = img s" "kernel_pagetable t = kernel_pagetable s"
    "pageinfo t = pageinfo s" "processes t = processes s" "current t = current s"
    "ticks t = ticks s" "disp_global t = disp_global s" "console t = console s" "cr3 t = cr3 s"
  using assms by (auto simp: io_only_def)

end
