(* ===== verification/Vm.thy ===== *)
theory Vm
  imports Kernel_State
begin

text \<open>
  \<^verbatim>\<open>kernel/vm.c\<close>: four-level page tables in physical memory. A page table is the physical
  address of its page; an entry is the 64-bit word at \<open>pt + 8 * pageindex va level\<close>.
\<close>

section \<open>Walking\<close>

definition pte_at :: "addr \<Rightarrow> addr \<Rightarrow> nat \<Rightarrow> addr" where
  "pte_at pt va level = pt + 8 * of_nat (pageindex va level)"

definition pte :: "mem \<Rightarrow> addr \<Rightarrow> addr \<Rightarrow> nat \<Rightarrow> u64" where
  "pte m pt va level = read64 m (pte_at pt va level)"

fun lookup_levels :: "nat list \<Rightarrow> mem \<Rightarrow> addr \<Rightarrow> u64 \<Rightarrow> addr \<Rightarrow> u64" where
  "lookup_levels [] m pt pe va = pe"
| "lookup_levels (i # levels) m pt pe va =
     (if pe AND PTE_P \<noteq> 0
      then let pe = pte m pt va i AND NOT (pe AND (PTE_W OR PTE_U))
           in lookup_levels levels m (PTE_ADDR pe) pe va
      else pe)"

definition virtual_memory_lookup :: "mem \<Rightarrow> addr \<Rightarrow> addr \<Rightarrow> vamapping" where
  "virtual_memory_lookup m pagetable va =
     (let pe = lookup_levels [0, 1, 2, 3] m pagetable (PTE_W OR PTE_U OR PTE_P) va
      in if pe AND PTE_P \<noteq> 0
         then \<lparr>va_pn = PAGENUMBER pe, va_pa = PTE_ADDR pe + PAGEOFFSET va, va_perm = PTE_FLAGS pe\<rparr>
         else \<lparr>va_pn = - 1, va_pa = - 1, va_perm = 0\<rparr>)"

definition vm_c :: string where "vm_c = ''kernel/vm.c''"

text \<open>The levels of \<^verbatim>\<open>lookup_l4pagetable\<close>'s loop, from level \<open>i\<close>.\<close>

fun l4_levels :: "nat list \<Rightarrow> addr \<Rightarrow> addr \<Rightarrow> u64 \<Rightarrow> addr kernel" where
  "l4_levels [] pt va perm s = Inr (pt, s)"
| "l4_levels (i # levels) pt va perm s =
     (let pe = pte (pmem s) pt va i in
      if pe AND PTE_P = 0 then
        let s = log_printf (''[Kern Info] Error looking up l4pagetable: Pagetable address: 0x%x perm: 0x%x.''
                  @ '' Failed to get level (%d)'' @ newline)
                  [Num (PTE_ADDR pe), Num (PTE_FLAGS pe), Num (of_nat (i + 2))] s
        in if perm AND PTE_P = 0 then Inr (NULL, s)
           else Inr (NULL, log_printf (''[Kern Info] failed to find pagetable address at kernel/vm.c: %d''
                  @ newline) [Num 167] s)
      else assertK (PTE_ADDR pe < MEMSIZE_PHYSICAL) vm_c 172 ''PTE_ADDR(pe) < MEMSIZE_PHYSICAL''
           (assertK (perm AND PTE_W \<noteq> 0 \<longrightarrow> pe AND PTE_W \<noteq> 0) vm_c 174 ''pe & PTE_W''
           (assertK (perm AND PTE_U \<noteq> 0 \<longrightarrow> pe AND PTE_U \<noteq> 0) vm_c 177 ''pe & PTE_U''
           (l4_levels levels (PTE_ADDR pe) va perm))) s)"

definition lookup_l4pagetable :: "addr \<Rightarrow> addr \<Rightarrow> u64 \<Rightarrow> addr kernel" where
  "lookup_l4pagetable pagetable va perm = l4_levels [0, 1, 2] pagetable va perm"

section \<open>Mapping\<close>

definition set_pte :: "addr \<Rightarrow> addr \<Rightarrow> u64 \<Rightarrow> unit kernel" where
  "set_pte l4 va e s = Inr ((), s\<lparr>pmem := write64 (pmem s) (pte_at l4 va 3) e\<rparr>)"

text \<open>
  The loop over pages; \<open>n\<close> is \<^verbatim>\<open>sz / PAGESIZE\<close>, which the assertions on \<^verbatim>\<open>sz\<close> make the
  number of rounds. The last-level table is looked up again when \<^verbatim>\<open>(int) (va >> 21)\<close> changes.
\<close>

fun map_pages :: "nat \<Rightarrow> addr \<Rightarrow> addr \<Rightarrow> addr \<Rightarrow> u64 \<Rightarrow> int \<Rightarrow> addr \<Rightarrow> int kernel" where
  "map_pages 0 pagetable va pa perm last_index123 l4 = ret 0"
| "map_pages (Suc n) pagetable va pa perm last_index123 l4 =
     (let cur_index123 = sint (ucast (drop_bit (PAGEOFFBITS + PAGEINDEXBITS) va) :: u32) in
      bindK (if cur_index123 \<noteq> last_index123 then lookup_l4pagetable pagetable va perm else ret l4)
        (\<lambda>l4. if perm AND PTE_P \<noteq> 0 \<and> l4 \<noteq> NULL then
            bindK (set_pte l4 va (pa OR perm))
              (\<lambda>_. map_pages n pagetable (va + PAGESIZE) (pa + PAGESIZE) perm cur_index123 l4)
          else if l4 \<noteq> NULL then
            bindK (set_pte l4 va perm)
              (\<lambda>_. map_pages n pagetable (va + PAGESIZE) (pa + PAGESIZE) perm cur_index123 l4)
          else if perm AND PTE_P \<noteq> 0 then
            (\<lambda>s. Inr (- 1, log_printf (''[Kern Info] failed to find l4pagetable address at kernel/vm.c: %d''
                              @ newline) [Num 132] s))
          else map_pages n pagetable (va + PAGESIZE) (pa + PAGESIZE) perm cur_index123 l4))"

definition virtual_memory_map :: "addr \<Rightarrow> addr \<Rightarrow> addr \<Rightarrow> u64 \<Rightarrow> u64 \<Rightarrow> int kernel" where
  "virtual_memory_map pagetable va pa sz perm =
     assertK (va mod PAGESIZE = 0) vm_c 102 ''va % PAGESIZE == 0''
     (assertK (sz mod PAGESIZE = 0) vm_c 103 ''sz % PAGESIZE == 0''
     (assertK (va + sz \<ge> va \<or> va + sz = 0) vm_c 104 ''va + sz >= va || va + sz == 0''
     (assertK (perm AND PTE_P \<noteq> 0 \<longrightarrow> pa mod PAGESIZE = 0) vm_c 106 ''pa % PAGESIZE == 0''
     (assertK (perm AND PTE_P \<noteq> 0 \<longrightarrow> pa + sz \<ge> pa) vm_c 107 ''pa + sz >= pa''
     (assertK (perm AND PTE_P \<noteq> 0 \<longrightarrow> pa + sz \<le> MEMSIZE_PHYSICAL) vm_c 108 ''pa + sz <= MEMSIZE_PHYSICAL''
     (assertK (0 \<le> sint perm \<and> sint perm < 0x1000) vm_c 110 ''perm >= 0 && perm < 0x1000''
     (assertK (pagetable mod PAGESIZE = 0) vm_c 111 ''(uintptr_t) pagetable % PAGESIZE == 0''
     (map_pages (unat (sz div PAGESIZE)) pagetable va pa perm (- 1) NULL))))))))"

section \<open>Installing and building\<close>

definition set_pagetable :: "addr \<Rightarrow> unit kernel" where
  "set_pagetable pagetable s =
     (let look = (\<lambda>pt va. va_pa (virtual_memory_lookup (pmem s) pt va)) in
      assertK (PAGEOFFSET pagetable = 0) vm_c 61 ''PAGEOFFSET(pagetable) == 0''
      (assertK (look pagetable (default_int_handler_at (img s)) = default_int_handler_at (img s)) vm_c 63
         ''virtual_memory_lookup(pagetable, (uintptr_t) default_int_handler).pa == (uintptr_t) default_int_handler''
      (assertK (look (kernel_pagetable s) pagetable = pagetable) vm_c 65
         ''virtual_memory_lookup(kernel_pagetable, (uintptr_t) pagetable).pa == (uintptr_t) pagetable''
      (assertK (look pagetable (kernel_pagetable s) = kernel_pagetable s) vm_c 67
         ''virtual_memory_lookup(pagetable, (uintptr_t) kernel_pagetable).pa == (uintptr_t) kernel_pagetable''
      (assertK (look pagetable (virtual_memory_map_at (img s)) = virtual_memory_map_at (img s)) vm_c 69
         ''virtual_memory_lookup(pagetable, (uintptr_t) virtual_memory_map).pa == (uintptr_t) virtual_memory_map''
      (\<lambda>s. Inr ((), lcr3 pagetable s)))))) s)"

text \<open>The loop of \<^verbatim>\<open>virtual_memory_init\<close> that checks \<open>n\<close> pages from \<open>a\<close>.\<close>

fun check_identity :: "nat \<Rightarrow> addr \<Rightarrow> unit kernel" where
  "check_identity 0 a s = Inr ((), s)"
| "check_identity (Suc n) a s =
     (let vmap = virtual_memory_lookup (pmem s) (kernel_pagetable s) a in
      assertK (va_pa vmap = a) vm_c 45 ''vmap.pa == addr''
      (assertK (va_perm vmap AND (PTE_P OR PTE_W) = PTE_P OR PTE_W) vm_c 46
         ''(vmap.perm & (PTE_P|PTE_W)) == (PTE_P|PTE_W)''
      (check_identity n (a + PAGESIZE))) s)"

definition virtual_memory_init :: "unit kernel" where
  "virtual_memory_init s =
     (let k = kernel_pagetables_at (img s);
          tab = (\<lambda>i. k + of_nat i * PAGESIZE);
          pwu = PTE_P OR PTE_W OR PTE_U;
          m = snd (memset (pmem s) k 0 (5 * PAGESIZE));
          m = write64 m (tab 0) (tab 1 OR pwu);
          m = write64 m (tab 1) (tab 2 OR pwu);
          m = write64 m (tab 2) (tab 3 OR pwu);
          m = write64 m (tab 2 + 8) (tab 4 OR pwu)
      in bindK (virtual_memory_map k 0 0 MEMSIZE_PHYSICAL pwu)
           (\<lambda>_. bindK (check_identity NPAGES 0) (\<lambda>_. set_pagetable k))
           (s\<lparr>kernel_pagetable := k, pmem := m\<rparr>))"

end
