(* ===== verification/Paging.thy ===== *)
theory Paging
  imports Vm
begin

text \<open>
  Page tables of the shape that \<^verbatim>\<open>virtual_memory_init\<close> builds for the kernel and the process
  set-up code for a process: one table on each of the first three levels and two last-level
  tables, which cover the first 4 MB. On them \<^verbatim>\<open>virtual_memory_lookup\<close> and
  \<^verbatim>\<open>virtual_memory_map\<close> are a read and a write of a map from page numbers to entries.
\<close>

section \<open>Bits of entries\<close>

lemma and_not_id: "x AND k = 0 \<Longrightarrow> x AND NOT k = (x :: u64)"
proof -
  assume "x AND k = 0"
  moreover have "x = (x AND k) OR (x AND NOT k)" by (simp flip: bit.conj_disj_distrib)
  ultimately show ?thesis by simp
qed

definition aligned :: "addr \<Rightarrow> bool" where "aligned a \<longleftrightarrow> a AND 0xFFF = 0"

lemma and_fff: "(a :: u64) AND 0xFFF = of_nat (unat a mod 4096)"
proof -
  have "(0xFFF :: u64) = mask 12" by (simp add: mask_eq_exp_minus_1)
  then have "a AND 0xFFF = take_bit 12 a" by (simp add: take_bit_eq_mask)
  then have "unat (a AND 0xFFF) = unat a mod 4096"
    by (simp add: unsigned_take_bit_eq take_bit_eq_mod unat_mod)
  moreover have "unat (of_nat (unat a mod 4096) :: u64) = unat a mod 4096"
    by (intro unat_of_nat64) (simp add: less_trans [OF mod_less_divisor])
  ultimately show ?thesis by (intro word_eq_unatI) simp
qed

lemma aligned_iff: "aligned a \<longleftrightarrow> 4096 dvd unat a"
proof -
  have "unat (of_nat (unat a mod 4096) :: u64) = unat a mod 4096"
    by (intro unat_of_nat64) (simp add: less_trans [OF mod_less_divisor])
  then show ?thesis unfolding aligned_def and_fff by (metis dvd_eq_mod_eq_0 unat_0 unat_eq_0)
qed

lemma aligned_and: "aligned t \<Longrightarrow> c AND 0xFFF = c \<Longrightarrow> t AND c = 0"
proof -
  assume t: "aligned t" and c: "c AND 0xFFF = c"
  have "t AND c = t AND (c AND 0xFFF)" by (simp only: c)
  also have "\<dots> = (t AND 0xFFF) AND c" by (simp only: and.assoc and.commute and.left_commute)
  finally show ?thesis using t by (simp add: aligned_def)
qed

lemma entry_bits:
  assumes "aligned t" "f AND 0xFFF = f"
  shows "PTE_ADDR (t OR f) = t" "PTE_FLAGS (t OR f) = f"
    "c AND 0xFFF = c \<Longrightarrow> (t OR f) AND c = f AND c"
    "c AND 0xFFF = c \<Longrightarrow> (t OR f) AND NOT c = t OR (f AND NOT c)"
proof -
  have t: "t AND 0xFFF = 0" using assms(1) by (simp add: aligned_def)
  have "f AND NOT 0xFFF = 0"
  proof -
    have "(f AND 0xFFF) AND NOT 0xFFF = 0" by (simp add: and.assoc)
    with assms(2) show ?thesis by simp
  qed
  then show "PTE_ADDR (t OR f) = t"
    using and_not_id [OF t] by (simp add: PTE_ADDR_def bit.conj_disj_distrib2)
  show "PTE_FLAGS (t OR f) = f" using t assms(2) by (simp add: PTE_FLAGS_def bit.conj_disj_distrib2)
  show "(t OR f) AND c = f AND c" if "c AND 0xFFF = c"
    using aligned_and [OF assms(1) that] by (simp add: bit.conj_disj_distrib2)
  show "(t OR f) AND NOT c = t OR (f AND NOT c)" if "c AND 0xFFF = c"
    using and_not_id [OF aligned_and [OF assms(1) that]] by (simp add: bit.conj_disj_distrib2)
qed

lemma pwu_bits:
  assumes "aligned t"
  shows "PTE_ADDR (t OR 7) = t" "PTE_ADDR (t OR 1) = t" "(t OR 7) AND 1 = 1" "(t OR 1) AND 1 = 1"
    "(t OR 7) AND - 7 = t OR 1" "(t OR 1) AND 6 = 0" "(t OR 7) AND 6 = 6"
    "(t OR 7) AND 2 = 2" "(t OR 7) AND 4 = 4"
  using entry_bits(1) [OF assms, of 7] entry_bits(1) [OF assms, of 1]
    entry_bits(3) [OF assms, of 7 1] entry_bits(3) [OF assms, of 1 1] entry_bits(4) [OF assms, of 7 6]
    entry_bits(3) [OF assms, of 1 6] entry_bits(3) [OF assms, of 7 6] entry_bits(3) [OF assms, of 7 2]
    entry_bits(3) [OF assms, of 7 4]
  by simp_all

lemma pageindex_nat: "pageindex a l = unat a div 2 ^ (12 + (3 - l) * 9) mod 512"
proof -
  have "(0x1FF :: u64) = mask 9" by (simp add: mask_eq_exp_minus_1)
  then have "pageindex a l = unat (take_bit 9 (drop_bit (12 + (3 - l) * 9) a))"
    by (simp only: pageindex_def PAGEOFFBITS_def PAGEINDEXBITS_def take_bit_eq_mask)
  also have "\<dots> = take_bit 9 (drop_bit (12 + (3 - l) * 9) (unat a))"
    by (simp only: unsigned_take_bit_eq unat_drop_bit_eq)
  also have "\<dots> = unat a div 2 ^ (12 + (3 - l) * 9) mod 2 ^ 9"
    unfolding drop_bit_eq_div by (rule take_bit_eq_mod)
  finally show ?thesis by simp
qed

lemma pageindex_low:
  assumes "unat va < 0x400000"
  shows "pageindex va 0 = 0" "pageindex va 1 = 0" "pageindex va 2 = unat va div 0x200000"
    "pageindex va 3 = unat va div 4096 mod 512"
  using assms by (simp_all add: pageindex_nat)

section \<open>The entry of a page\<close>

text \<open>The last-level tables \<open>t3\<close>, \<open>t4\<close> and the entry of page \<open>p < 1024\<close>.\<close>

definition ent :: "addr \<times> addr \<Rightarrow> nat \<Rightarrow> addr" where
  "ent ts p = (if p < 512 then fst ts else snd ts) + 8 * of_nat (p mod 512)"

definition table_page :: "addr \<Rightarrow> bool" where
  "table_page t \<longleftrightarrow> aligned t \<and> t \<noteq> 0 \<and> unat t < unat MEMSIZE_PHYSICAL"

definition pwu :: u64 where "pwu = PTE_P OR PTE_W OR PTE_U"

definition tables_ok :: "mem \<Rightarrow> addr \<Rightarrow> addr \<Rightarrow> addr \<Rightarrow> addr \<times> addr \<Rightarrow> bool" where
  "tables_ok m pt t1 t2 ts \<longleftrightarrow>
     distinct [pt, t1, t2, fst ts, snd ts] \<and>
     table_page pt \<and> table_page t1 \<and> table_page t2 \<and> table_page (fst ts) \<and> table_page (snd ts) \<and>
     read64 m pt = t1 OR pwu \<and> read64 m t1 = t2 OR pwu \<and>
     read64 m t2 = fst ts OR pwu \<and> read64 m (t2 + 8) = snd ts OR pwu"

lemma pwu_eq: "pwu = 7" by (simp add: pwu_def PTE_P_def PTE_W_def PTE_U_def)

lemma table_page_nat: "table_page t \<Longrightarrow> unat t + 4096 \<le> 0x200000 \<and> 4096 dvd unat t"
proof -
  assume t: "table_page t"
  then obtain k where "unat t = 4096 * k" by (auto simp: table_page_def aligned_iff elim: dvdE)
  moreover from t have "unat t < 0x200000" by (simp add: table_page_def MEMSIZE_PHYSICAL_def)
  ultimately show ?thesis by auto
qed

lemma unat_table_off: "table_page t \<Longrightarrow> i < 512 \<Longrightarrow> unat (t + 8 * of_nat i) = unat t + 8 * i"
proof -
  assume t: "table_page t" and i: "i < 512"
  have "unat (8 * of_nat i :: u64) = 8 * i"
    using i unat_of_nat64 [of "8 * i"] by simp
  then show ?thesis using table_page_nat [OF t] i by (simp add: to_nat)
qed

lemma entries_disjoint:
  assumes "table_page t" "table_page u" "i < 512" "j < 512" "t \<noteq> u \<or> i \<noteq> j"
  shows "region (t + 8 * of_nat i) 8 \<inter> region (u + 8 * of_nat j) 8 = {}"
proof (rule region_disjoint_nat)
  have "unat t \<noteq> unat u \<or> i \<noteq> j" using assms(5) word_eq_unatI by blast
  moreover obtain k k' where "unat t = 4096 * k" "unat u = 4096 * k'"
    using table_page_nat [OF assms(1)] table_page_nat [OF assms(2)] by (auto elim!: dvdE)
  ultimately show "unat (t + 8 * of_nat i) + 8 \<le> unat (u + 8 * of_nat j) \<or>
      unat (u + 8 * of_nat j) + 8 \<le> unat (t + 8 * of_nat i)"
    using assms(3,4) unat_table_off [OF assms(1,3)] unat_table_off [OF assms(2,4)]
    by (cases k k' rule: linorder_cases; cases i j rule: linorder_cases) auto
qed (use assms(3,4) table_page_nat [OF assms(1)] table_page_nat [OF assms(2)]
      unat_table_off [OF assms(1,3)] unat_table_off [OF assms(2,4)] in auto)

lemma ent_disjoint:
  assumes "table_page (fst ts)" "table_page (snd ts)" "fst ts \<noteq> snd ts" "p < 1024" "q < 1024" "p \<noteq> q"
  shows "region (ent ts p) 8 \<inter> region (ent ts q) 8 = {}"
proof -
  have "p mod 512 \<noteq> q mod 512" if "p < 512 \<longleftrightarrow> q < 512"
    using that assms(4-6) by (cases "p < 512") (auto simp: mod_if)
  then show ?thesis unfolding ent_def using assms by (intro entries_disjoint) auto
qed

lemma upper_write:
  assumes "tables_ok m pt t1 t2 ts" "p < 1024"
  shows "tables_ok (write64 m (ent ts p) v) pt t1 t2 ts"
proof -
  have "region (t + 8 * of_nat i) 8 \<inter> region (ent ts p) 8 = {}"
    if "table_page t" "t \<noteq> fst ts" "t \<noteq> snd ts" "i < 512" for t i
    unfolding ent_def using assms that by (intro entries_disjoint) (auto simp: tables_ok_def)
  note D = this [of _ 0, simplified] this [of _ 1, simplified]
  show ?thesis using assms(1) unfolding tables_ok_def by (auto simp: D read64_write64_other)
qed

section \<open>Lookup\<close>

definition vam_of :: "u64 \<Rightarrow> addr \<Rightarrow> vamapping" where
  "vam_of e va =
     (if e AND PTE_P \<noteq> 0
      then \<lparr>va_pn = PAGENUMBER e, va_pa = PTE_ADDR e + PAGEOFFSET va, va_perm = PTE_FLAGS e\<rparr>
      else \<lparr>va_pn = - 1, va_pa = - 1, va_perm = 0\<rparr>)"

lemma tables_walk:
  assumes "tables_ok m pt t1 t2 ts" "unat va < 0x400000"
  shows "pte m pt va 0 = t1 OR pwu" "pte m t1 va 1 = t2 OR pwu"
    "pte m t2 va 2 = (if unat va < 0x200000 then fst ts else snd ts) OR pwu"
    "pte m (if unat va < 0x200000 then fst ts else snd ts) va 3 = read64 m (ent ts (unat va div 4096))"
proof -
  show "pte m pt va 0 = t1 OR pwu" "pte m t1 va 1 = t2 OR pwu"
    using assms pageindex_low [OF assms(2)] by (simp_all add: pte_def pte_at_def tables_ok_def)
  have "unat va div 0x200000 = (if unat va < 0x200000 then 0 else 1)" using assms(2) by auto
  then show "pte m t2 va 2 = (if unat va < 0x200000 then fst ts else snd ts) OR pwu"
    using assms(1) pageindex_low [OF assms(2)] by (simp add: pte_def pte_at_def tables_ok_def)
  have "unat va < 0x200000 \<longleftrightarrow> unat va div 4096 < 512" by auto
  then show "pte m (if unat va < 0x200000 then fst ts else snd ts) va 3 = read64 m (ent ts (unat va div 4096))"
    using pageindex_low [OF assms(2)] by (simp add: pte_def pte_at_def ent_def)
qed

lemma lookup_low:
  assumes ok: "tables_ok m pt t1 t2 ts" and va: "unat va < 0x400000"
  shows "virtual_memory_lookup m pt va = vam_of (read64 m (ent ts (unat va div 4096))) va"
proof -
  let ?t = "if unat va < 0x200000 then fst ts else snd ts"
  have al: "aligned t1" "aligned t2" "aligned ?t" using ok by (auto simp: tables_ok_def table_page_def)
  note B = pwu_bits [OF al(1)] pwu_bits [OF al(2)] pwu_bits [OF al(3)]
  have "lookup_levels [0, 1, 2, 3] m pt (PTE_W OR PTE_U OR PTE_P) va =
      lookup_levels [1, 2, 3] m t1 (t1 OR 1) va"
    by (simp add: tables_walk [OF ok va] pwu_eq PTE_P_def PTE_W_def PTE_U_def B)
  also have "\<dots> = lookup_levels [2, 3] m t2 (t2 OR 7) va"
    by (simp add: tables_walk [OF ok va, simplified] pwu_eq PTE_P_def PTE_W_def PTE_U_def B)
  also have "\<dots> = lookup_levels [3] m ?t (?t OR 1) va"
    by (simp add: tables_walk [OF ok va, simplified] pwu_eq PTE_P_def PTE_W_def PTE_U_def B del: if_split)
  also have "\<dots> = read64 m (ent ts (unat va div 4096))"
    by (simp add: tables_walk(4) [OF ok va, simplified] pwu_eq PTE_P_def PTE_W_def PTE_U_def B del: if_split)
  finally show ?thesis by (simp only: virtual_memory_lookup_def vam_of_def Let_def)
qed

section \<open>Mapping\<close>

definition entry_val :: "addr \<Rightarrow> u64 \<Rightarrow> u64" where
  "entry_val pa perm = (if perm AND PTE_P \<noteq> 0 then pa OR perm else perm)"

fun write_ptes :: "nat \<Rightarrow> addr \<times> addr \<Rightarrow> nat \<Rightarrow> addr \<Rightarrow> u64 \<Rightarrow> mem \<Rightarrow> mem" where
  "write_ptes 0 ts p pa perm m = m"
| "write_ptes (Suc n) ts p pa perm m =
     write_ptes n ts (p + 1) (pa + 4096) perm (write64 m (ent ts p) (entry_val pa perm))"

lemma tables_write_ptes:
  "tables_ok m pt t1 t2 ts \<Longrightarrow> p + n \<le> 1024 \<Longrightarrow> tables_ok (write_ptes n ts p pa perm m) pt t1 t2 ts"
proof (induction n arbitrary: p pa m)
  case (Suc n)
  have "tables_ok (write64 m (ent ts p) (entry_val pa perm)) pt t1 t2 ts"
    using Suc.prems by (intro upper_write) auto
  then show ?case using Suc.IH [of _ "p + 1"] Suc.prems(2) by simp
qed simp

lemma read_write_ptes:
  assumes "table_page (fst ts)" "table_page (snd ts)" "fst ts \<noteq> snd ts" "p + n \<le> 1024" "q < 1024"
  shows "read64 (write_ptes n ts p pa perm m) (ent ts q) =
    (if p \<le> q \<and> q < p + n then entry_val (pa + of_nat (4096 * (q - p))) perm else read64 m (ent ts q))"
  using assms(4)
proof (induction n arbitrary: p pa m)
  case (Suc n)
  let ?m = "write64 m (ent ts p) (entry_val pa perm)"
  have IH: "read64 (write_ptes n ts (p + 1) (pa + 4096) perm ?m) (ent ts q) =
    (if p + 1 \<le> q \<and> q < p + 1 + n then entry_val (pa + 4096 + of_nat (4096 * (q - (p + 1)))) perm
     else read64 ?m (ent ts q))"
    using Suc.prems by (intro Suc.IH) simp
  have same: "read64 ?m (ent ts q) = (if q = p then entry_val pa perm else read64 m (ent ts q))"
    using ent_disjoint [OF assms(1-3,5), of p] Suc.prems by (auto simp: read64_write64_other)
  have "pa + 4096 + of_nat (4096 * (q - (p + 1))) = pa + of_nat (4096 * (q - p))" if "p + 1 \<le> q"
  proof -
    have "q - p = Suc (q - (p + 1))" using that by simp
    then show ?thesis by (simp add: algebra_simps)
  qed
  then show ?case using IH same by (auto simp: not_less_eq_eq)
qed auto

lemma ent_pte_at:
  assumes "unat va < 0x400000"
  shows "pte_at (if unat va < 0x200000 then fst ts else snd ts) va 3 = ent ts (unat va div 4096)"
proof -
  have "unat va < 0x200000 \<longleftrightarrow> unat va div 4096 < 512" by auto
  then show ?thesis using pageindex_low [OF assms] by (simp add: pte_at_def ent_def)
qed

lemma l4_low:
  assumes ok: "tables_ok (pmem s) pt t1 t2 ts" and va: "unat va < 0x400000"
  shows "lookup_l4pagetable pt va perm s = Inr (if unat va < 0x200000 then fst ts else snd ts, s)"
proof -
  let ?t = "if unat va < 0x200000 then fst ts else snd ts"
  have al: "aligned t1" "aligned t2" "aligned ?t" using ok by (auto simp: tables_ok_def table_page_def)
  have lt: "t1 < MEMSIZE_PHYSICAL" "t2 < MEMSIZE_PHYSICAL" "?t < MEMSIZE_PHYSICAL"
    using ok by (auto simp: tables_ok_def table_page_def word_less_nat_alt)
  note B = pwu_bits [OF al(1)] pwu_bits [OF al(2)] pwu_bits [OF al(3)]
  note W = tables_walk(1-3) [OF ok va] pwu_eq PTE_P_def PTE_W_def PTE_U_def
  have "l4_levels [0, 1, 2] pt va perm s = l4_levels [1, 2] t1 va perm s"
    using lt by (simp add: W B)
  also have "\<dots> = l4_levels [2] t2 va perm s" using lt by (simp add: W [simplified] B)
  also have "\<dots> = Inr (?t, s)" using lt by (simp add: W [simplified] B del: if_split)
  finally show ?thesis by (simp add: lookup_l4pagetable_def)
qed

text \<open>The 2 MB region of a low address, as the code computes it.\<close>

lemma index123_low:
  assumes "unat va < 0x400000"
  shows "sint (ucast (drop_bit (PAGEOFFBITS + PAGEINDEXBITS) va) :: u32) =
    (if unat va < 0x200000 then 0 else 1)"
proof -
  have "unat (drop_bit 21 va) = unat va div 2 ^ 21"
    unfolding unat_drop_bit_eq by (rule drop_bit_eq_div)
  then have d: "drop_bit 21 va = (if unat va < 0x200000 then 0 else 1)"
    using assms by (intro word_eq_unatI) auto
  have "drop_bit (PAGEOFFBITS + PAGEINDEXBITS) va = drop_bit 21 va"
    by (simp add: PAGEOFFBITS_def PAGEINDEXBITS_def)
  then show ?thesis unfolding d by simp
qed

lemma map_pages_low:
  assumes "tables_ok (pmem s) pt t1 t2 ts" "p + n \<le> 1024"
    and "idx = - 1 \<or> (p < 1024 \<longrightarrow> idx = (if p < 512 then 0 else 1) \<longrightarrow> l4 = (if p < 512 then fst ts else snd ts))"
  shows "map_pages n pt (of_nat (4096 * p)) pa perm idx l4 s =
    Inr (0, s\<lparr>pmem := write_ptes n ts p pa perm (pmem s)\<rparr>)"
  using assms
proof (induction n arbitrary: p pa idx l4 s)
  case 0
  then show ?case by (simp add: ret_def)
next
  case (Suc n)
  let ?va = "of_nat (4096 * p) :: u64" and ?t = "if p < 512 then fst ts else snd ts"
    and ?c = "if p < 512 then 0 else 1 :: int"
  have u: "unat ?va = 4096 * p" using Suc.prems(2) by (intro unat_of_nat64) simp
  then have va: "unat ?va < 0x400000" and lo: "unat ?va < 0x200000 \<longleftrightarrow> p < 512" and dv: "unat ?va div 4096 = p"
    using Suc.prems(2) by auto
  have c: "sint (ucast (drop_bit (PAGEOFFBITS + PAGEINDEXBITS) ?va) :: u32) = ?c"
    by (simp only: index123_low [OF va] lo)
  have nz: "?t \<noteq> 0" using Suc.prems(1) by (auto simp: tables_ok_def table_page_def)
  have l: "(if ?c \<noteq> idx then lookup_l4pagetable pt ?va perm else ret l4) s = Inr (?t, s)"
    using l4_low [OF Suc.prems(1) va, of perm] lo Suc.prems(2,3) by (auto simp: ret_def)
  have st: "set_pte ?t ?va e s = Inr ((), s\<lparr>pmem := write64 (pmem s) (ent ts p) e\<rparr>)" for e
    using ent_pte_at [OF va, of ts] by (simp only: set_pte_def lo dv)
  have nx: "?va + PAGESIZE = of_nat (4096 * (p + 1))" by (simp add: PAGESIZE_def algebra_simps)
  let ?s = "s\<lparr>pmem := write64 (pmem s) (ent ts p) (entry_val pa perm)\<rparr>"
  have ok: "tables_ok (pmem ?s) pt t1 t2 ts" using upper_write [OF Suc.prems(1), of p] Suc.prems(2) by simp
  have IH: "map_pages n pt (of_nat (4096 * (p + 1))) (pa + PAGESIZE) perm ?c ?t ?s =
    Inr (0, ?s\<lparr>pmem := write_ptes n ts (p + 1) (pa + PAGESIZE) perm (pmem ?s)\<rparr>)"
    using Suc.prems(2) by (intro Suc.IH ok) auto
  have "map_pages (Suc n) pt ?va pa perm idx l4 s =
      map_pages n pt (of_nat (4096 * (p + 1))) (pa + PAGESIZE) perm ?c ?t ?s"
    by (cases "perm AND PTE_P = 0") (simp_all only: map_pages.simps Let_def c bindK_def l sum.case
        prod.case st nx entry_val_def nz simp_thms if_True if_False not_True_eq_False not_False_eq_True)
  then show ?case by (simp only: IH) (simp add: PAGESIZE_def)
qed

section \<open>What a mapped page looks up to\<close>

lemma unat_drop12: "unat (drop_bit 12 (a :: u64)) = unat a div 4096"
proof -
  have "unat (drop_bit 12 a) = unat a div 2 ^ 12"
    unfolding unat_drop_bit_eq by (rule drop_bit_eq_div)
  then show ?thesis by simp
qed

lemma PAGENUMBER_nat:
  assumes "unat e < 2 ^ 43" shows "PAGENUMBER e = int (unat e div 4096)"
proof -
  have "unat (drop_bit 12 e) < 2 ^ 31" using assms by (simp add: unat_drop12)
  then have u: "unat (ucast (drop_bit 12 e) :: u32) = unat e div 4096"
    by (simp add: unat_ucast_64_32 unat_drop12)
  have lt: "uint (ucast (drop_bit 12 e) :: u32) < 2 ^ 31"
  proof -
    have "unat (ucast (drop_bit 12 e) :: u32) < 2 ^ 31" using u assms by simp
    then show ?thesis by (simp add: nat_less_iff flip: nat_uint_eq)
  qed
  have "sint (ucast (drop_bit 12 e) :: u32) = uint (ucast (drop_bit 12 e) :: u32)"
    using lt by (intro sint_small) simp
  also have "\<dots> = int (unat (ucast (drop_bit 12 e) :: u32))" by simp
  finally show ?thesis by (simp only: u PAGENUMBER_def PAGEOFFBITS_def)
qed

lemma PAGEOFFSET_nat: "PAGEOFFSET x = of_nat (unat x mod 4096)"
  by (simp add: PAGEOFFSET_def PAGEOFFMASK_def PAGESIZE_def and_fff [simplified])

lemma PTE_ADDR_nat: "unat (PTE_ADDR x) = 4096 * (unat x div 4096)"
proof -
  have "x = PTE_ADDR x + (x AND 0xFFF)"
  proof -
    have "(x AND NOT k) AND (x AND k) = 0" for k :: u64 by (rule bit_word_eqI) (simp add: bit_simps)
    then have "PTE_ADDR x AND (x AND 0xFFF) = 0" by (simp only: PTE_ADDR_def)
    then have "PTE_ADDR x + (x AND 0xFFF) = PTE_ADDR x OR (x AND 0xFFF)"
      by (simp add: disjunctive_add_eq_or)
    also have "\<dots> = x" by (simp add: PTE_ADDR_def flip: bit.conj_disj_distrib)
    finally show ?thesis by simp
  qed
  then have "PTE_ADDR x = x - of_nat (unat x mod 4096)" by (simp only: and_fff) (simp add: algebra_simps)
  moreover have "unat (of_nat (unat x mod 4096) :: u64) = unat x mod 4096"
    by (intro unat_of_nat64) (simp add: less_trans [OF mod_less_divisor])
  ultimately have "unat (PTE_ADDR x) = unat x - unat x mod 4096" by (simp add: unat_sub64)
  then show ?thesis by (simp add: minus_mod_eq_mult_div)
qed

text \<open>An address inside a mapped page, from the entry that maps it.\<close>

lemma vam_of_entry:
  assumes a: "aligned a" "unat a < 2 ^ 43" and f: "f AND 0xFFF = f" "f AND PTE_P \<noteq> 0"
  shows "vam_of (a OR f) x =
    \<lparr>va_pn = int (unat a div 4096), va_pa = a + of_nat (unat x mod 4096), va_perm = f\<rparr>"
proof -
  have p: "(a OR f) AND PTE_P \<noteq> 0" using entry_bits(3) [OF a(1) f(1), of PTE_P] f(2) by (simp add: PTE_P_def)
  have "unat (PTE_ADDR (a OR f)) = 4096 * (unat (a OR f) div 4096)" by (rule PTE_ADDR_nat)
  then have d: "unat (a OR f) div 4096 = unat a div 4096"
    using entry_bits(1) [OF a(1) f(1)] by simp
  moreover have "unat (a OR f) < 2 ^ 43"
  proof -
    have "unat (a OR f) < 4096 * (unat a div 4096) + 4096" using d by (metis div_less_iff_less_mult
        lessI less_Suc_eq_le mult.commute mult_Suc_right zero_less_numeral add.commute)
    moreover have "4096 dvd unat a" using a(1) by (simp add: aligned_iff)
    ultimately show ?thesis using a(2) by (auto elim!: dvdE)
  qed
  ultimately show ?thesis
    using p entry_bits(1,2) [OF a(1) f(1)] by (simp add: vam_of_def PAGENUMBER_nat PAGEOFFSET_nat)
qed

lemma vam_of_absent: "e AND PTE_P = 0 \<Longrightarrow> vam_of e x = \<lparr>va_pn = - 1, va_pa = - 1, va_perm = 0\<rparr>"
  by (simp add: vam_of_def)

definition mapped_to :: "addr \<Rightarrow> u64 \<Rightarrow> vamapping" where
  "mapped_to a perm = \<lparr>va_pn = int (unat a div 4096), va_pa = a, va_perm = perm\<rparr>"

definition unmapped :: vamapping where
  "unmapped = \<lparr>va_pn = - 1, va_pa = - 1, va_perm = 0\<rparr>"

lemma vmap_runs:
  assumes ok: "tables_ok (pmem s) pt t1 t2 ts"
    and va: "aligned va" "aligned sz" "unat va + unat sz \<le> 0x400000"
    and perm: "perm < 0x1000"
    and pa: "perm AND PTE_P \<noteq> 0 \<longrightarrow> aligned pa \<and> unat pa + unat sz \<le> 0x200000"
  shows "virtual_memory_map pt va pa sz perm s =
    Inr (0, s\<lparr>pmem := write_ptes (unat sz div 4096) ts (unat va div 4096) pa perm (pmem s)\<rparr>)"
proof -
  have al: "a mod PAGESIZE = 0 \<longleftrightarrow> aligned a" for a
    by (simp add: aligned_iff PAGESIZE_def unat_mod dvd_eq_mod_eq_0 flip: unat_eq_0)
  have pt: "aligned pt" using ok by (simp add: tables_ok_def table_page_def)
  have sum: "unat (va + sz) = unat va + unat sz" using va(3) by (simp add: to_nat)
  have psum: "unat (pa + sz) = unat pa + unat sz" if "perm AND PTE_P \<noteq> 0" using pa that by (simp add: to_nat)
  have sp: "0 \<le> sint perm \<and> sint perm < 0x1000"
  proof -
    have u: "unat perm < 0x1000" using perm by (simp add: word_less_nat_alt)
    then have "uint perm < 0x1000" by (simp add: nat_less_iff flip: nat_uint_eq)
    moreover from this have "sint perm = uint perm" by (intro sint_small) simp
    ultimately show ?thesis by simp
  qed
  have n: "unat (sz div PAGESIZE) = unat sz div 4096" by (simp add: unat_div PAGESIZE_def)
  obtain k j where k: "unat va = 4096 * k" "unat sz = 4096 * j"
    using va(1,2) by (auto simp: aligned_iff elim!: dvdE)
  then have "4096 * (unat va div 4096) = unat va" by simp
  then have va': "va = of_nat (4096 * (unat va div 4096))" by (simp del: of_nat_mult)
  have "unat va div 4096 + unat sz div 4096 \<le> 1024" using k va(3) by simp
  then have "map_pages (unat sz div 4096) pt va pa perm (- 1) NULL s =
      Inr (0, s\<lparr>pmem := write_ptes (unat sz div 4096) ts (unat va div 4096) pa perm (pmem s)\<rparr>)"
    using map_pages_low [OF ok, of "unat va div 4096" "unat sz div 4096" "- 1" NULL pa perm] va' by simp
  then show ?thesis
    unfolding virtual_memory_map_def n
    using va(1,2) pt sum psum sp pa by (simp add: al word_le_nat_alt MEMSIZE_PHYSICAL_def)
qed

text \<open>The entry written for the page of \<open>x\<close>, when \<open>va\<close> is mapped onwards to \<open>pa\<close>.\<close>

lemma mapped_entry:
  assumes va: "aligned va" "unat va \<le> unat x"
    and pa: "aligned pa" "unat pa + (unat x - unat va) < 2 ^ 43"
    and f: "perm AND 0xFFF = perm" "perm AND PTE_P \<noteq> 0"
  shows "vam_of (entry_val (pa + of_nat (4096 * (unat x div 4096 - unat va div 4096))) perm) x =
    mapped_to (pa + (x - va)) perm"
proof -
  let ?d = "4096 * (unat x div 4096 - unat va div 4096)"
  let ?a = "pa + of_nat ?d :: u64"
  obtain k where k: "unat va = 4096 * k" using va(1) by (auto simp: aligned_iff elim!: dvdE)
  have off: "unat x - unat va = ?d + unat x mod 4096"
  proof -
    have "unat x = 4096 * (unat x div 4096) + unat x mod 4096" by simp
    moreover have "k \<le> unat x div 4096" using va(2) k by auto
    ultimately show ?thesis using k by (simp add: diff_mult_distrib2)
  qed
  have d: "unat (of_nat ?d :: u64) = ?d" using off pa(2) by (intro unat_of_nat64) auto
  have ua: "unat ?a = unat pa + ?d" using pa(2) off d by (simp add: to_nat)
  have al: "aligned ?a" "unat ?a < 2 ^ 43" using pa ua off by (auto simp: aligned_iff)
  have "x - va = of_nat (unat x - unat va)" using va(2) by (simp add: of_nat_diff)
  then have sp: "?a + of_nat (unat x mod 4096) = pa + (x - va)"
    unfolding off by (simp only: of_nat_add add.assoc)
  have u: "unat (of_nat (unat x mod 4096) :: u64) = unat x mod 4096"
    by (intro unat_of_nat64) (simp add: less_trans [OF mod_less_divisor])
  have "unat ?a + unat x mod 4096 < 2 ^ 64" using al(2) mod_less_divisor [of 4096 "unat x"] by simp
  then have "unat (pa + (x - va)) = unat ?a + unat x mod 4096"
    unfolding sp [symmetric] by (subst unat_add64) (simp_all only: u)
  moreover have "4096 dvd unat ?a" using al(1) by (simp add: aligned_iff)
  ultimately have pn: "unat (pa + (x - va)) div 4096 = unat ?a div 4096" by (auto elim!: dvdE)
  show ?thesis using f(2)
    by (simp only: entry_val_def if_True simp_thms vam_of_entry [OF al f] mapped_to_def pn sp)
qed

lemma vmap_lookup:
  assumes ok: "tables_ok m pt t1 t2 ts"
    and va: "aligned va" "aligned sz" "unat va + unat sz \<le> 0x400000"
    and perm: "perm < 0x1000"
    and pa: "perm AND PTE_P \<noteq> 0 \<longrightarrow> aligned pa \<and> unat pa + unat sz \<le> 0x200000"
    and x: "unat x < 0x400000"
  shows "virtual_memory_lookup (write_ptes (unat sz div 4096) ts (unat va div 4096) pa perm m) pt x =
    (if unat va \<le> unat x \<and> unat x < unat va + unat sz
     then if perm AND PTE_P \<noteq> 0 then mapped_to (pa + (x - va)) perm else unmapped
     else virtual_memory_lookup m pt x)"
proof -
  let ?m = "write_ptes (unat sz div 4096) ts (unat va div 4096) pa perm m"
  obtain k j where k: "unat va = 4096 * k" "unat sz = 4096 * j"
    using va(1,2) by (auto simp: aligned_iff elim!: dvdE)
  have n: "unat va div 4096 + unat sz div 4096 \<le> 1024" using k va(3) by simp
  have ok': "tables_ok ?m pt t1 t2 ts" by (rule tables_write_ptes [OF ok n])
  have q: "unat x div 4096 < 1024" using x by auto
  let ?q = "unat x div 4096" and ?p = "unat va div 4096"
  have inr: "unat va \<le> unat x \<and> unat x < unat va + unat sz \<longleftrightarrow> ?p \<le> ?q \<and> ?q < ?p + unat sz div 4096"
    using k by auto
  have look: "virtual_memory_lookup ?m pt x = vam_of (if ?p \<le> ?q \<and> ?q < ?p + unat sz div 4096
      then entry_val (pa + of_nat (4096 * (?q - ?p))) perm else read64 m (ent ts ?q)) x"
    unfolding lookup_low [OF ok' x] using ok n q
    by (subst read_write_ptes) (auto simp: tables_ok_def)
  have f: "perm AND 0xFFF = perm"
  proof -
    have "unat perm < 4096" using perm by (simp add: word_less_nat_alt)
    then show ?thesis by (simp only: and_fff) simp
  qed
  show ?thesis
  proof (cases "unat va \<le> unat x \<and> unat x < unat va + unat sz")
    case True
    then have le: "?p \<le> ?q" "?q < ?p + unat sz div 4096" by (simp_all only: inr)
    show ?thesis
    proof (cases "perm AND PTE_P = 0")
      case True
      then show ?thesis using look \<open>unat va \<le> unat x \<and> _\<close> le
        by (simp add: entry_val_def vam_of_absent unmapped_def)
    next
      case False
      have "unat pa + (unat x - unat va) < 2 ^ 43" using pa False \<open>unat va \<le> unat x \<and> _\<close> by auto
      then show ?thesis
        using look le False \<open>unat va \<le> unat x \<and> _\<close> pa mapped_entry [OF va(1) _ _ _ f False, of x pa] by simp
    qed
  next
    case False
    then show ?thesis using look lookup_low [OF ok x] by (simp only: inr if_False)
  qed
qed

section \<open>The kernel's page table\<close>

lemma check_identity_ok:
  assumes "\<And>i. i < n \<Longrightarrow> va_pa (virtual_memory_lookup (pmem s) (kernel_pagetable s) (a + of_nat (4096 * i))) = a + of_nat (4096 * i)"
    and "\<And>i. i < n \<Longrightarrow> va_perm (virtual_memory_lookup (pmem s) (kernel_pagetable s) (a + of_nat (4096 * i))) = pwu"
  shows "check_identity n a s = Inr ((), s)"
  using assms
proof (induction n arbitrary: a)
  case (Suc n)
  have "check_identity n (a + PAGESIZE) s = Inr ((), s)"
  proof (rule Suc.IH)
    fix i assume "i < n"
    then have "Suc i < Suc n" by simp
    note P = Suc.prems [OF this]
    have "a + PAGESIZE + of_nat (4096 * i) = a + of_nat (4096 * Suc i)"
      by (simp add: PAGESIZE_def algebra_simps)
    then show "va_pa (virtual_memory_lookup (pmem s) (kernel_pagetable s) (a + PAGESIZE + of_nat (4096 * i))) =
        a + PAGESIZE + of_nat (4096 * i)"
      "va_perm (virtual_memory_lookup (pmem s) (kernel_pagetable s) (a + PAGESIZE + of_nat (4096 * i))) = pwu"
      using P by (simp_all only:)
  qed
  then show ?case
    using Suc.prems [of 0] by (simp add: pwu_def PTE_P_def PTE_W_def PTE_U_def)
qed simp

text \<open>The five tables \<^verbatim>\<open>virtual_memory_init\<close> writes have the shape of \<open>tables_ok\<close>.\<close>

definition fresh_tables :: "addr \<Rightarrow> mem \<Rightarrow> mem" where
  "fresh_tables k m0 =
     (let tab = (\<lambda>i. k + of_nat i * PAGESIZE);
          m = snd (memset m0 k 0 (5 * PAGESIZE));
          m = write64 m (tab 0) (tab 1 OR pwu);
          m = write64 m (tab 1) (tab 2 OR pwu);
          m = write64 m (tab 2) (tab 3 OR pwu)
      in write64 m (tab 2 + 8) (tab 4 OR pwu))"

lemma read64_zero: "(\<And>b. b \<in> region a 8 \<Longrightarrow> m b = 0) \<Longrightarrow> read64 m a = 0"
proof -
  assume "\<And>b. b \<in> region a 8 \<Longrightarrow> m b = 0"
  then have "read64 m a = read64 (\<lambda>_. 0) a" by (intro read64_cong) auto
  also have "\<dots> = 0" by (simp add: read64_def numeral_eq_Suc)
  finally show ?thesis .
qed

lemma tab_page:
  assumes "aligned k" "k \<noteq> 0" "unat k + 5 * 4096 \<le> 0x200000" "i < 5"
  shows "unat (k + of_nat i * PAGESIZE) = unat k + 4096 * i" "table_page (k + of_nat i * PAGESIZE)"
proof -
  have "unat (of_nat (4096 * i) :: u64) = 4096 * i" using assms(4) by (intro unat_of_nat64) simp
  then show u: "unat (k + of_nat i * PAGESIZE) = unat k + 4096 * i"
    using assms(3,4) by (simp add: PAGESIZE_def unat_add64 mult.commute)
  have "0 < unat k" using assms(2) by (simp add: unat_gt_0)
  then have "unat (k + of_nat i * PAGESIZE) \<noteq> 0" using u by simp
  then show "table_page (k + of_nat i * PAGESIZE)"
    using u assms by (auto simp: table_page_def aligned_iff MEMSIZE_PHYSICAL_def)
qed

text \<open>Reads of the fresh tables: the four links, and zero everywhere else.\<close>

text \<open>The entries of five consecutive tables do not overlap, and are clear after \<open>memset\<close>.\<close>

lemma table_entries_disjoint:
  assumes k: "aligned k" "k \<noteq> 0" "unat k + 5 * 4096 \<le> 0x200000"
    and i: "i < 5" "j < 512" "i' < 5" "j' < 512" "i \<noteq> i' \<or> j \<noteq> j'"
  shows "region (k + of_nat i * PAGESIZE + 8 * of_nat j) 8 \<inter> region (k + of_nat i' * PAGESIZE + 8 * of_nat j') 8 = {}"
proof (rule entries_disjoint [OF tab_page(2) [OF k i(1)] tab_page(2) [OF k i(3)] i(2,4)])
  have "k + of_nat i * PAGESIZE \<noteq> k + of_nat i' * PAGESIZE" if "i \<noteq> i'"
  proof
    assume "k + of_nat i * PAGESIZE = k + of_nat i' * PAGESIZE"
    then have "unat k + 4096 * i = unat k + 4096 * i'" using tab_page(1) [OF k] i(1,3) by metis
    with that show False by simp
  qed
  then show "k + of_nat i * PAGESIZE \<noteq> k + of_nat i' * PAGESIZE \<or> j \<noteq> j'" using i(5) by blast
qed

lemma cleared_entry:
  assumes k: "aligned k" "k \<noteq> 0" "unat k + 5 * 4096 \<le> 0x200000" and i: "i < 5" "j < 512"
  shows "read64 (snd (memset m k 0 (5 * PAGESIZE))) (k + of_nat i * PAGESIZE + 8 * of_nat j) = 0"
proof (rule read64_zero)
  let ?a = "k + of_nat i * PAGESIZE + 8 * of_nat j"
  have a: "unat ?a = unat k + 4096 * i + 8 * j"
    using unat_table_off [OF tab_page(2) [OF k i(1)] i(2)] tab_page(1) [OF k i(1)] by simp
  have five: "unat (5 * PAGESIZE) = 5 * 4096" by (simp add: PAGESIZE_def)
  fix b assume "b \<in> region ?a 8"
  then have "unat ?a \<le> unat b" "unat b < unat ?a + 8"
    using a k(3) i by (subst (asm) region_no_wrap; simp)+
  then have "b \<in> region k (5 * 4096)" using a i k(3) by (subst region_no_wrap) auto
  then show "snd (memset m k 0 (5 * PAGESIZE)) b = 0" by (simp only: memset_apply five) simp
qed

lemma fresh_tables_read:
  assumes k: "aligned k" "k \<noteq> 0" "unat k + 5 * 4096 \<le> 0x200000" and i: "i < 5" "j < 512"
  shows "read64 (fresh_tables k m) (k + of_nat i * PAGESIZE + 8 * of_nat j) =
    (if i < 3 \<and> j = 0 then (k + of_nat (i + 1) * PAGESIZE) OR pwu
     else if i = 2 \<and> j = 1 then (k + of_nat 4 * PAGESIZE) OR pwu else 0)"
proof -
  let ?tab = "\<lambda>i. k + of_nat i * PAGESIZE"
  let ?a = "?tab i + 8 * of_nat j"
  note disj = table_entries_disjoint [OF k i] and z = cleared_entry [OF k i, of m]
  have d0: "region ?a 8 \<inter> region (?tab i') 8 = {}" if "i' < 5" "i \<noteq> i' \<or> j \<noteq> 0" for i'
    using disj [of i' 0] that by simp
  have d1: "region ?a 8 \<inter> region (?tab 2 + 8) 8 = {}" if "i \<noteq> 2 \<or> j \<noteq> 1"
    using disj [of 2 1] that by simp
  consider "i < 3" "j = 0" | "i = 2" "j = 1" | "\<not> (i < 3 \<and> j = 0)" "\<not> (i = 2 \<and> j = 1)" by blast
  then show ?thesis
  proof cases
    case 1
    then consider "i = 0" | "i = 1" | "i = 2" by linarith
    then show ?thesis
      using 1 d1 d0 [of 0] d0 [of 1] d0 [of 2]
      by cases (simp_all add: fresh_tables_def Let_def read64_write64_other)
  next
    case 2
    then show ?thesis by (simp add: fresh_tables_def Let_def)
  next
    case 3
    have n: "i \<noteq> i' \<or> j \<noteq> 0" if "i' < 3" for i' using 3 that by auto
    have e: "i \<noteq> 2 \<or> j \<noteq> 1" using 3 by auto
    have "region ?a 8 \<inter> region k 8 = {}" "region ?a 8 \<inter> region (k + PAGESIZE) 8 = {}"
      "region ?a 8 \<inter> region (k + 2 * PAGESIZE) 8 = {}"
      using d0 [of 0, OF _ n] d0 [of 1, OF _ n] d0 [of 2, OF _ n] by simp_all
    then have "read64 (fresh_tables k m) ?a = 0"
      using z d1 [OF e] by (simp add: fresh_tables_def Let_def read64_write64_other)
    then show ?thesis by (simp only: 3 if_False)
  qed
qed

lemma fresh_tables_ok:
  assumes k: "aligned k" "k \<noteq> 0" "unat k + 5 * 4096 \<le> 0x200000"
  shows "tables_ok (fresh_tables k m) k (k + PAGESIZE) (k + 2 * PAGESIZE) (k + 3 * PAGESIZE, k + 4 * PAGESIZE)"
proof -
  note T = tab_page [OF k]
  have "unat (k + PAGESIZE) = unat k + 4096" "unat (k + 2 * PAGESIZE) = unat k + 8192"
    "unat (k + 3 * PAGESIZE) = unat k + 12288" "unat (k + 4 * PAGESIZE) = unat k + 16384"
    using T(1) [of 1] T(1) [of 2] T(1) [of 3] T(1) [of 4] by simp_all
  then have "distinct (map unat [k, k + PAGESIZE, k + 2 * PAGESIZE, k + 3 * PAGESIZE, k + 4 * PAGESIZE])" by simp
  then have "distinct [k, k + PAGESIZE, k + 2 * PAGESIZE, k + 3 * PAGESIZE, k + 4 * PAGESIZE]"
    by (rule distinct_map [THEN iffD1, THEN conjunct1])
  moreover have "table_page k" "table_page (k + PAGESIZE)" "table_page (k + 2 * PAGESIZE)"
    "table_page (k + 3 * PAGESIZE)" "table_page (k + 4 * PAGESIZE)"
    using T(2) [of 0] T(2) [of 1] T(2) [of 2] T(2) [of 3] T(2) [of 4] by simp_all
  moreover note fresh_tables_read [OF k, of 0 0 m] fresh_tables_read [OF k, of 1 0 m]
    fresh_tables_read [OF k, of 2 0 m] fresh_tables_read [OF k, of 2 1 m]
  ultimately show ?thesis by (simp add: tables_ok_def)
qed

lemma fresh_tables_empty:
  assumes k: "aligned k" "k \<noteq> 0" "unat k + 5 * 4096 \<le> 0x200000" and q: "q < 1024"
  shows "read64 (fresh_tables k m) (ent (k + 3 * PAGESIZE, k + 4 * PAGESIZE) q) = 0"
  using fresh_tables_read [OF k, of 3 "q mod 512" m] fresh_tables_read [OF k, of 4 "q mod 512" m]
  using q by (cases "q < 512") (simp_all add: ent_def)

text \<open>The kernel's table once physical memory is mapped onto itself.\<close>

lemma identity_lookup:
  fixes m :: mem
  assumes k: "aligned k" "k \<noteq> 0" "unat k + 5 * 4096 \<le> 0x200000"
  defines "ts \<equiv> (k + 3 * PAGESIZE, k + 4 * PAGESIZE)"
  defines "w \<equiv> write_ptes 512 ts 0 0 pwu"
  shows "virtual_memory_map k 0 0 MEMSIZE_PHYSICAL pwu (s\<lparr>pmem := fresh_tables k m\<rparr>) = Inr (0, s\<lparr>pmem := w (fresh_tables k m)\<rparr>)"
    "tables_ok (w (fresh_tables k m)) k (k + PAGESIZE) (k + 2 * PAGESIZE) ts"
    "unat x < 0x400000 \<Longrightarrow>
      virtual_memory_lookup (w (fresh_tables k m)) k x = (if unat x < 0x200000 then mapped_to x pwu else unmapped)"
proof -
  have ok0: "tables_ok (fresh_tables k m) k (k + PAGESIZE) (k + 2 * PAGESIZE) ts"
    unfolding ts_def by (rule fresh_tables_ok [OF k])
  have al: "aligned 0" "aligned MEMSIZE_PHYSICAL" by (simp_all add: aligned_iff MEMSIZE_PHYSICAL_def)
  have pw: "pwu < 0x1000" "pwu AND PTE_P \<noteq> 0" by (simp_all add: pwu_eq PTE_P_def)
  have sz: "unat MEMSIZE_PHYSICAL div 4096 = 512" "unat (0 :: u64) div 4096 = 0" by (simp_all add: MEMSIZE_PHYSICAL_def)
  show "virtual_memory_map k 0 0 MEMSIZE_PHYSICAL pwu (s\<lparr>pmem := fresh_tables k m\<rparr>) = Inr (0, s\<lparr>pmem := w (fresh_tables k m)\<rparr>)"
    using vmap_runs [of "s\<lparr>pmem := fresh_tables k m\<rparr>" k "k + PAGESIZE" "k + 2 * PAGESIZE" ts 0
        MEMSIZE_PHYSICAL pwu 0] ok0 al pw
    by (simp add: sz w_def) (simp add: MEMSIZE_PHYSICAL_def)
  show "tables_ok (w (fresh_tables k m)) k (k + PAGESIZE) (k + 2 * PAGESIZE) ts"
    using tables_write_ptes [OF ok0, of 0 512 0 pwu] by (simp add: w_def)
  show "virtual_memory_lookup (w (fresh_tables k m)) k x = (if unat x < 0x200000 then mapped_to x pwu else unmapped)"
    if x: "unat x < 0x400000"
  proof -
    have "unat x div 4096 < 1024" using x by auto
    then have "virtual_memory_lookup (fresh_tables k m) k x = unmapped"
      unfolding lookup_low [OF ok0 x] ts_def by (simp add: fresh_tables_empty [OF k] vam_of_def unmapped_def)
    moreover have "virtual_memory_lookup (w (fresh_tables k m)) k x =
       (if unat (0 :: u64) \<le> unat x \<and> unat x < unat (0 :: u64) + unat MEMSIZE_PHYSICAL
        then if pwu AND PTE_P \<noteq> 0 then mapped_to (0 + (x - 0)) pwu else unmapped
        else virtual_memory_lookup (fresh_tables k m) k x)"
      using vmap_lookup [OF ok0 al _ pw(1) _ x, of 0] al unfolding sz w_def by (simp add: MEMSIZE_PHYSICAL_def)
    ultimately show ?thesis using pw(2) by (simp add: MEMSIZE_PHYSICAL_def)
  qed
qed

lemma virtual_memory_init_runs:
  defines "k0 \<equiv> \<lambda>s. kernel_pagetables_at (img s)"
  assumes k: "aligned (k0 s)" "k0 s \<noteq> 0" "unat (k0 s) + 5 * 4096 \<le> 0x200000"
    and h: "unat (default_int_handler_at (img s)) < 0x200000"
    and f: "unat (virtual_memory_map_at (img s)) < 0x200000"
  shows "\<exists>m. virtual_memory_init s = Inr ((), s\<lparr>kernel_pagetable := k0 s, pmem := m, cr3 := k0 s\<rparr>) \<and>
    tables_ok m (k0 s) (k0 s + PAGESIZE) (k0 s + 2 * PAGESIZE) (k0 s + 3 * PAGESIZE, k0 s + 4 * PAGESIZE) \<and>
    (\<forall>x. unat x < 0x400000 \<longrightarrow> virtual_memory_lookup m (k0 s) x =
       (if unat x < 0x200000 then mapped_to x pwu else unmapped))"
proof -
  let ?k = "k0 s"
  let ?fresh = "fresh_tables ?k (pmem s)"
  let ?m = "write_ptes 512 (?k + 3 * PAGESIZE, ?k + 4 * PAGESIZE) 0 0 pwu ?fresh"
  let ?s1 = "s\<lparr>kernel_pagetable := ?k, pmem := ?fresh\<rparr>"
  let ?s2 = "s\<lparr>kernel_pagetable := ?k, pmem := ?m\<rparr>"
  have mapped: "virtual_memory_map ?k 0 0 MEMSIZE_PHYSICAL pwu ?s1 = Inr (0, ?s2)"
    using identity_lookup(1) [OF k, of "pmem s" "s\<lparr>kernel_pagetable := ?k\<rparr>"] by simp
  note ok = identity_lookup(2) [OF k, of "pmem s"] and look = identity_lookup(3) [OF k, of _ "pmem s"]
  have pa: "va_pa (virtual_memory_lookup ?m ?k x) = x" "va_perm (virtual_memory_lookup ?m ?k x) = pwu"
    if "unat x < 0x200000" for x using look [of x] that by (simp_all add: mapped_to_def)
  have f2: "pmem ?s2 = ?m" "kernel_pagetable ?s2 = ?k" by simp_all
  have chk: "check_identity NPAGES 0 ?s2 = Inr ((), ?s2)"
  proof (rule check_identity_ok)
    fix i assume "i < NPAGES"
    then have "unat (0 + of_nat (4096 * i) :: u64) < 0x200000"
      by (subst add_0, subst unat_of_nat64) (simp_all add: NPAGES_def)
    from pa [OF this] show
      "va_pa (virtual_memory_lookup (pmem ?s2) (kernel_pagetable ?s2) (0 + of_nat (4096 * i))) = 0 + of_nat (4096 * i)"
      "va_perm (virtual_memory_lookup (pmem ?s2) (kernel_pagetable ?s2) (0 + of_nat (4096 * i))) = pwu"
      by (simp_all only: f2)
  qed
  have set: "set_pagetable ?k ?s2 = Inr ((), ?s2\<lparr>cr3 := ?k\<rparr>)"
    using pa(1) [OF h] pa(1) [OF f] pa(1) [of ?k] k by (simp add: set_pagetable_def Let_def lcr3_def
        PAGEOFFSET_def PAGEOFFMASK_def PAGESIZE_def aligned_def)
  have "virtual_memory_init s = Inr ((), ?s2\<lparr>cr3 := ?k\<rparr>)"
  proof -
    have "virtual_memory_init s = bindK (virtual_memory_map ?k 0 0 MEMSIZE_PHYSICAL pwu)
           (\<lambda>_. bindK (check_identity NPAGES 0) (\<lambda>_. set_pagetable ?k)) ?s1"
      by (simp only: virtual_memory_init_def fresh_tables_def Let_def k0_def pwu_def [symmetric])
    then show ?thesis by (simp only: bindK_def mapped chk set sum.case prod.case)
  qed
  then show ?thesis using ok look by (intro exI [of _ ?m]) simp
qed

section \<open>Permissions\<close>

lemma or_and_absorb: "k OR (k AND x) = (k :: u64)" "k OR (x AND k) = k"
  by (rule bit_word_eqI, auto simp: bit_simps)+

lemma PTE_ADDR_clear:
  assumes "k AND 0xFFF = k" shows "PTE_ADDR (e AND NOT k) = PTE_ADDR e"
proof -
  have "(0xFFF :: u64) OR k = 0xFFF OR (k AND 0xFFF)" by (simp only: assms)
  also have "\<dots> = 0xFFF" by (simp only: or_and_absorb)
  finally have "k OR 0xFFF = 0xFFF" by (simp only: or.commute)
  then show ?thesis by (simp only: PTE_ADDR_def and.assoc flip: bit.de_Morgan_disj)
qed

lemma low_mask: "(x AND 6) AND 0xFFF = (x AND 6 :: u64)"
  by (simp only: and.assoc) simp

text \<open>What the four entries on the path make of a page's permissions.\<close>

lemma lookup_levels_entries:
  assumes "e0 = pte m pt va 0" "e1 = pte m (PTE_ADDR e0) va 1" "e2 = pte m (PTE_ADDR e1) va 2"
    "e3 = pte m (PTE_ADDR e2) va 3"
    and P: "e0 AND PTE_P \<noteq> 0" "e1 AND PTE_P \<noteq> 0" "e2 AND PTE_P \<noteq> 0"
  shows "lookup_levels [0, 1, 2, 3] m pt (PTE_W OR PTE_U OR PTE_P) va = e3 AND NOT (e2 AND NOT e1 AND 6)"
proof -
  have c: "(x AND NOT k) AND k = 0" "(x AND NOT (y AND k)) AND k = x AND NOT y AND k"
    "(x AND NOT (y AND 6)) AND 1 = x AND 1" for x y k :: u64
  proof -
    show "(x AND NOT k) AND k = 0" "(x AND NOT (y AND k)) AND k = x AND NOT y AND k"
      by (rule bit_word_eqI, simp add: bit_simps) (rule bit_word_eqI, auto simp: bit_simps)
    have "NOT (y AND 6) AND 1 = (1 :: u64)"
    proof -
      have "NOT (y AND 6) AND 1 = (NOT y OR NOT 6) AND 1" by (simp only: bit.de_Morgan_conj)
      also have "\<dots> = (NOT y AND 1) OR (NOT 6 AND 1)" by (simp only: bit.conj_disj_distrib2)
      also have "NOT 6 AND 1 = (1 :: u64)" by simp
      also have "(NOT y AND 1) OR 1 = (1 :: u64)" by (simp only: or_and_absorb or.commute)
      finally show ?thesis .
    qed
    then show "(x AND NOT (y AND 6)) AND 1 = x AND 1" by (simp only: and.assoc)
  qed
  have p1: "PTE_P = 1" and six: "PTE_W OR PTE_U = 6" and seven: "PTE_W OR PTE_U OR PTE_P = 7"
    by (simp_all add: PTE_P_def PTE_W_def PTE_U_def)
  have n1: "(x AND NOT 6) AND 1 = x AND (1 :: u64)" for x using c(3) [of x 6] by simp
  have step: "lookup_levels (i # l) m pt pe va =
      lookup_levels l m (PTE_ADDR (pte m pt va i)) (pte m pt va i AND NOT (pe AND 6)) va"
    if "pe AND 1 \<noteq> 0" for i l pt pe
    using that by (simp only: lookup_levels.simps Let_def six p1 if_True simp_thms
        PTE_ADDR_clear [OF low_mask])
  note P1 = P [unfolded p1]
  have "lookup_levels [0, 1, 2, 3] m pt 7 va = lookup_levels [1, 2, 3] m (PTE_ADDR e0) (e0 AND NOT (7 AND 6)) va"
    unfolding assms(1) by (rule step) simp
  also have "\<dots> = lookup_levels [1, 2, 3] m (PTE_ADDR e0) (e0 AND NOT 6) va" by simp
  also have "\<dots> = lookup_levels [2, 3] m (PTE_ADDR e1) (e1 AND NOT ((e0 AND NOT 6) AND 6)) va"
    unfolding assms(2) by (rule step) (use P1(1) n1 in metis)
  also have "\<dots> = lookup_levels [2, 3] m (PTE_ADDR e1) e1 va" by (simp only: c(1)) simp
  also have "\<dots> = lookup_levels [3] m (PTE_ADDR e2) (e2 AND NOT (e1 AND 6)) va"
    unfolding assms(3) by (rule step) (rule P1(2))
  also have "\<dots> = lookup_levels [] m (PTE_ADDR e3) (e3 AND NOT ((e2 AND NOT (e1 AND 6)) AND 6)) va"
    unfolding assms(4) by (rule step) (use P1(3) c(3) in metis)
  also have "\<dots> = e3 AND NOT (e2 AND NOT e1 AND 6)" by (simp only: lookup_levels.simps c(2))
  finally have "lookup_levels [0, 1, 2, 3] m pt 7 va = e3 AND NOT (e2 AND NOT e1 AND 6)" .
  then show ?thesis by (simp only: seven)
qed

section \<open>Properties\<close>

text \<open>
  C17. \<^verbatim>\<open>virtual_memory_init\<close> returns (none of its 1024 checks and none of those of
  \<^verbatim>\<open>set_pagetable\<close> fails) and leaves a kernel page table, installed in \<^verbatim>\<open>%cr3\<close>, that
  maps every physical address to itself with permissions P, W and U and nothing from there to
  4 MB, provided the linker put the five page-aligned tables and the two routines it checks in
  physical memory, above address 0.
\<close>

theorem virtual_memory_init_identity:
  assumes "k = kernel_pagetables_at (img s)"
    and "aligned k" "k \<noteq> 0" "unat k + 5 * 4096 \<le> 0x200000"
    and "unat (default_int_handler_at (img s)) < 0x200000"
    and "unat (virtual_memory_map_at (img s)) < 0x200000"
  shows "\<exists>m. virtual_memory_init s = Inr ((), s\<lparr>kernel_pagetable := k, pmem := m, cr3 := k\<rparr>) \<and>
    (\<forall>x. unat x < 0x400000 \<longrightarrow> virtual_memory_lookup m k x =
       (if unat x < 0x200000 then mapped_to x (PTE_P OR PTE_W OR PTE_U) else unmapped))"
  using virtual_memory_init_runs [of s] assms unfolding pwu_def [symmetric] by blast

theorem virtual_memory_init_identity_witness:
  "\<exists>m. virtual_memory_init (boot_state sample_image (\<lambda>n p. 0) (\<lambda>a. 0)) =
     Inr ((), (boot_state sample_image (\<lambda>n p. 0) (\<lambda>a. 0))\<lparr>kernel_pagetable := 0x50000, pmem := m, cr3 := 0x50000\<rparr>)"
  using virtual_memory_init_identity [of "0x50000" "boot_state sample_image (\<lambda>n p. 0) (\<lambda>a. 0)"]
  by (auto simp: boot_state_def sample_image_def aligned_def)

text \<open>
  C9. On a page table of the shape the kernel builds, \<^verbatim>\<open>virtual_memory_map\<close> of an aligned
  range below 4 MB returns 0 without a failed assertion, changes nothing but page-table memory,
  keeps the table's shape, and afterwards each address of the range is mapped to the matching
  physical address with the requested permissions (or unmapped when \<^verbatim>\<open>PTE_P\<close> was not
  asked for) while every other address below 4 MB looks up as before.
\<close>

theorem virtual_memory_map_effect:
  assumes "tables_ok (pmem s) pt t1 t2 ts"
    and "aligned va" "aligned sz" "unat va + unat sz \<le> 0x400000" "perm < 0x1000"
    and "perm AND PTE_P \<noteq> 0 \<longrightarrow> aligned pa \<and> unat pa + unat sz \<le> 0x200000"
  shows "\<exists>m. virtual_memory_map pt va pa sz perm s = Inr (0, s\<lparr>pmem := m\<rparr>) \<and>
    tables_ok m pt t1 t2 ts \<and>
    (\<forall>x. unat x < 0x400000 \<longrightarrow> virtual_memory_lookup m pt x =
      (if unat va \<le> unat x \<and> unat x < unat va + unat sz
       then if perm AND PTE_P \<noteq> 0 then mapped_to (pa + (x - va)) perm else unmapped
       else virtual_memory_lookup (pmem s) pt x))"
proof -
  have "unat va div 4096 + unat sz div 4096 \<le> 1024"
    using assms(2-4) by (auto simp: aligned_iff elim!: dvdE)
  then show ?thesis
    using vmap_runs [OF assms] vmap_lookup [OF assms] tables_write_ptes [OF assms(1)] by blast
qed

theorem virtual_memory_map_effect_witness:
  "\<exists>m. virtual_memory_lookup m 0x50000 0x103004 = mapped_to 0x180004 7"
proof -
  let ?s = "(boot_state sample_image (\<lambda>n p. 0) (\<lambda>a. 0))\<lparr>pmem := fresh_tables 0x50000 (\<lambda>a. 0)\<rparr>"
  have "tables_ok (pmem ?s) 0x50000 (0x50000 + PAGESIZE) (0x50000 + 2 * PAGESIZE)
      (0x50000 + 3 * PAGESIZE, 0x50000 + 4 * PAGESIZE)"
    using fresh_tables_ok [of "0x50000" "\<lambda>a. 0"] by (simp add: aligned_def)
  from virtual_memory_map_effect [OF this, of "0x103000" "0x1000" 7 "0x180000"]
  obtain m where "\<forall>x. unat x < 0x400000 \<longrightarrow> virtual_memory_lookup m 0x50000 x =
      (if 0x103000 \<le> unat x \<and> unat x < 0x103000 + 0x1000
       then if 7 AND PTE_P \<noteq> 0 then mapped_to (0x180000 + (x - 0x103000)) 7 else unmapped
       else virtual_memory_lookup (pmem ?s) 0x50000 x)"
    by (auto simp: aligned_def PTE_P_def)
  from this [rule_format, of "0x103004"] show ?thesis by (intro exI [of _ m]) (simp add: PTE_P_def)
qed

text \<open>
  The permissions \<^verbatim>\<open>virtual_memory_lookup\<close> reports for a mapped page: those of the
  last-level entry, less the W and U bits that the level-3 entry has and the level-2 entry lacks.
  The first-level entry has no influence, and a level-3 entry that denies a permission does not
  remove it from the result.
\<close>

theorem lookup_permissions:
  assumes "e0 = pte m pt va 0" "e1 = pte m (PTE_ADDR e0) va 1" "e2 = pte m (PTE_ADDR e1) va 2"
    and "e3 = pte m (PTE_ADDR e2) va 3"
    and "e0 AND PTE_P \<noteq> 0" "e1 AND PTE_P \<noteq> 0" "e2 AND PTE_P \<noteq> 0"
    and "(e3 AND NOT (e2 AND NOT e1 AND 6)) AND PTE_P \<noteq> 0"
  shows "va_perm (virtual_memory_lookup m pt va) = PTE_FLAGS (e3 AND NOT (e2 AND NOT e1 AND 6))"
  using lookup_levels_entries [OF assms(1-7)] assms(8)
  by (simp only: virtual_memory_lookup_def Let_def if_True simp_thms vamapping.simps)

text \<open>Level-3 entry present only, last-level entry present and writable: reported writable.\<close>

definition ro_tables :: mem where
  "ro_tables = write64 (write64 (write64 (write64 (\<lambda>a. 0) 0x1000 0x2007) 0x2000 0x3007) 0x3000 0x4001) 0x4000 0x5007"

theorem lookup_permissions_witness: "va_perm (virtual_memory_lookup ro_tables 0x1000 0) = 7"
proof -
  have t: "pte ro_tables 0x1000 0 0 = 0x2007" "pte ro_tables 0x2000 0 1 = 0x3007"
    "pte ro_tables 0x3000 0 2 = 0x4001" "pte ro_tables 0x4000 0 3 = 0x5007"
    unfolding ro_tables_def by code_simp+
  show ?thesis
    using lookup_permissions [of "0x2007" ro_tables "0x1000" 0 "0x3007" "0x4001" "0x5007"] t
    by (simp add: PTE_ADDR_def PTE_P_def PTE_FLAGS_def)
qed

end
