(* ===== verification/Malloc.thy ===== *)
theory Malloc
  imports Clib
begin

text \<open>
  \<^verbatim>\<open>uspace/malloc.c\<close>: the first-fit, implicit-free-list allocator. The state is the process's
  memory, the three file-scope variables and the operating system behind \<^verbatim>\<open>sbrk\<close>, whose
  state type is a parameter (\<open>'os\<close>); the kernel's own \<^verbatim>\<open>sbrk\<close> is put there in \<open>Brk\<close>.
  A walk over the heap follows each header's \<^verbatim>\<open>size\<close>, which on a damaged heap can be 0, so
  walks are \<open>partial_function (option)\<close> and every operation returns an option: \<open>None\<close> is a
  call that never returns. Memory accesses are total: a process that touches an address
  outside its heap traps into the kernel, which is the page-fault arm of \<open>Syscalls\<close>.
\<close>

section \<open>Block headers\<close>

definition BLOCK_FREE :: u8 where "BLOCK_FREE = 0"
definition BLOCK_INTERNAL :: u8 where "BLOCK_INTERNAL = 1"
definition BLOCK_USED :: u8 where "BLOCK_USED = 2"
definition ALIGN :: u64 where "ALIGN = 8"
definition sizeof_header :: u64 where "sizeof_header = 8"

text \<open>\<^verbatim>\<open>struct block_header\<close>: state at offset 0, slop at 1, size at 4.\<close>

definition h_state :: "mem \<Rightarrow> addr \<Rightarrow> u8" where "h_state m h = m h"
definition h_slop :: "mem \<Rightarrow> addr \<Rightarrow> u8" where "h_slop m h = m (h + 1)"
definition h_size :: "mem \<Rightarrow> addr \<Rightarrow> u32" where "h_size m h = read32 m (h + 4)"
definition set_state :: "mem \<Rightarrow> addr \<Rightarrow> u8 \<Rightarrow> mem" where "set_state m h v = m(h := v)"
definition set_slop :: "mem \<Rightarrow> addr \<Rightarrow> u8 \<Rightarrow> mem" where "set_slop m h v = m(h + 1 := v)"
definition set_size :: "mem \<Rightarrow> addr \<Rightarrow> u32 \<Rightarrow> mem" where "set_size m h v = write32 m (h + 4) v"

definition payload_of :: "addr \<Rightarrow> addr" where "payload_of h = h + sizeof_header"
definition header_of :: "addr \<Rightarrow> addr" where "header_of p = p - sizeof_header"

definition round_up :: "u64 \<Rightarrow> u64 \<Rightarrow> u64" where
  "round_up a n = (a + n - 1) div n * n"

section \<open>Allocator state\<close>

record 'os heap =
  umem :: mem
  initialized :: bool
  managed_memory_start :: addr
  last_valid_address :: addr
  os :: 'os

type_synonym 'os sbrk_call = "'os \<Rightarrow> u64 \<Rightarrow> (addr \<times> 'os) option"

definition init :: "'os sbrk_call \<Rightarrow> 'os heap \<Rightarrow> 'os heap option" where
  "init sbrk s =
     (if \<not> initialized s
      then do { (b, k) \<leftarrow> sbrk (os s) 0;
                Some (s\<lparr>managed_memory_start := b, last_valid_address := b,
                        initialized := True, os := k\<rparr>) }
      else Some s)"

section \<open>malloc\<close>

text \<open>The first-fit walk: the address of the first free block that is large enough.\<close>

partial_function (option) find_fit ::
  "mem \<Rightarrow> addr \<Rightarrow> u64 \<Rightarrow> addr \<Rightarrow> addr option option" where
  "find_fit m heap_end block_size cur =
     (if cur < heap_end
      then if h_state m cur = BLOCK_FREE \<and> ucast (h_size m cur) \<ge> block_size
           then Some (Some cur)
           else find_fit m heap_end block_size (cur + ucast (h_size m cur))
      else Some None)"

text \<open>Splitting the block that fits, or handing it over whole.\<close>

definition place :: "mem \<Rightarrow> addr \<Rightarrow> u64 \<Rightarrow> u8 \<Rightarrow> mem" where
  "place m h block_size slop =
     (let remainder = h_size m h - ucast block_size
      in if remainder \<ge> 16
         then let next = h + block_size;
                  m = set_state m next BLOCK_FREE;
                  m = set_size m next remainder;
                  m = set_size m h (ucast block_size);
                  m = set_state m h BLOCK_USED
              in set_slop m h slop
         else set_slop (set_state m h BLOCK_USED) h (ucast remainder))"

definition malloc :: "'os sbrk_call \<Rightarrow> 'os heap \<Rightarrow> u64 \<Rightarrow> (addr \<times> 'os heap) option" where
  "malloc sbrk s sz =
     (if sz = 0 then Some (NULL, s)
      else do {
        s \<leftarrow> init sbrk s;
        let rounded = round_up sz ALIGN;
        let slop = ucast (rounded - sz);
        let block_size = rounded + sizeof_header;
        fit \<leftarrow> find_fit (umem s) (last_valid_address s) block_size (managed_memory_start s);
        case fit of
          Some cur \<Rightarrow> Some (payload_of cur, s\<lparr>umem := place (umem s) cur block_size slop\<rparr>)
        | None \<Rightarrow> do {
            (r, k) \<leftarrow> sbrk (os s) block_size;
            if r = - 1 then Some (NULL, s\<lparr>os := k\<rparr>)
            else let h = last_valid_address s;
                     m = set_state (umem s) h BLOCK_USED;
                     m = set_slop m h slop;
                     m = set_size m h (ucast block_size)
                 in Some (payload_of h,
                      s\<lparr>os := k, last_valid_address := h + block_size, umem := m\<rparr>) } })"

section \<open>calloc, free, realloc\<close>

definition calloc :: "'os sbrk_call \<Rightarrow> 'os heap \<Rightarrow> u64 \<Rightarrow> u64 \<Rightarrow> (addr \<times> 'os heap) option" where
  "calloc sbrk s num sz =
     (if num = 0 \<or> sz = 0 then Some (NULL, s)
      else if num > - 1 div sz then Some (NULL, s)
      else do {
        let total = num * sz;
        (ptr, s) \<leftarrow> malloc sbrk s total;
        Some (if ptr \<noteq> NULL then (ptr, s\<lparr>umem := snd (memset (umem s) ptr 0 total)\<rparr>)
              else (ptr, s)) })"

definition free :: "'os heap \<Rightarrow> addr \<Rightarrow> 'os heap" where
  "free s ptr =
     (if ptr = NULL then s
      else s\<lparr>umem := set_state (umem s) (header_of ptr) BLOCK_FREE\<rparr>)"

definition realloc :: "'os sbrk_call \<Rightarrow> 'os heap \<Rightarrow> addr \<Rightarrow> u64 \<Rightarrow> (addr \<times> 'os heap) option" where
  "realloc sbrk s ptr sz =
     (if ptr = NULL then malloc sbrk s sz
      else if sz = 0 then Some (NULL, free s ptr)
      else do {
        let old_h = header_of ptr;
        let old_usable = ucast (h_size (umem s) old_h) - sizeof_header
                           - ucast (h_slop (umem s) old_h);
        (new_ptr, s) \<leftarrow> malloc sbrk s sz;
        if new_ptr = NULL then Some (NULL, s)
        else Some (new_ptr,
               free (s\<lparr>umem := snd (memcpy (umem s) new_ptr ptr
                                     (if old_usable < sz then old_usable else sz))\<rparr>) ptr) })"

section \<open>defrag\<close>

text \<open>The inner loop: the end of the run of free blocks that starts at \<open>next\<close>.\<close>

partial_function (option) free_run :: "mem \<Rightarrow> addr \<Rightarrow> addr \<Rightarrow> addr option" where
  "free_run m heap_end next =
     (if next < heap_end \<and> h_state m next = BLOCK_FREE
      then free_run m heap_end (next + ucast (h_size m next))
      else Some next)"

partial_function (option) defrag_loop :: "mem \<Rightarrow> addr \<Rightarrow> addr \<Rightarrow> mem option" where
  "defrag_loop m heap_end cur =
     (if cur < heap_end
      then if h_state m cur = BLOCK_FREE
           then do {
             next \<leftarrow> free_run m heap_end (cur + ucast (h_size m cur));
             let m' = (if next \<noteq> cur + ucast (h_size m cur)
                       then set_size m cur (ucast (next - cur)) else m);
             defrag_loop m' heap_end (cur + ucast (h_size m' cur)) }
           else defrag_loop m heap_end (cur + ucast (h_size m cur))
      else Some m)"

definition defrag :: "'os heap \<Rightarrow> 'os heap option" where
  "defrag s = do { m \<leftarrow> defrag_loop (umem s) (last_valid_address s) (managed_memory_start s);
                   Some (s\<lparr>umem := m\<rparr>) }"

end
