(* ===== verification/Heap_Layout.thy ===== *)
theory Heap_Layout
  imports Malloc
begin

text \<open>
  The abstract view of the heap that \<^verbatim>\<open>malloc.c\<close> keeps in memory: a list of blocks laid out
  end to end. A free block has a size only (its slop byte is left over from earlier use);
  an internal or used block has a size and a slop. \<open>layout m a bs\<close> says that the headers in
  \<open>m\<close> from address \<open>a\<close> spell out exactly the blocks \<open>bs\<close>; positions are natural numbers,
  so that the lemmas are linear arithmetic.
\<close>

datatype blk = Free nat | Internal nat nat | Used nat nat

primrec bsize :: "blk \<Rightarrow> nat" where
  "bsize (Free n) = n"
| "bsize (Internal n s) = n"
| "bsize (Used n s) = n"

primrec wf_blk :: "blk \<Rightarrow> bool" where
  "wf_blk (Free n) \<longleftrightarrow> 8 dvd n \<and> 16 \<le> n"
| "wf_blk (Internal n s) \<longleftrightarrow> 8 dvd n \<and> 16 \<le> n \<and> s + 8 < n \<and> s < 16"
| "wf_blk (Used n s) \<longleftrightarrow> 8 dvd n \<and> 16 \<le> n \<and> s + 8 < n \<and> s < 16"

definition bsizes :: "blk list \<Rightarrow> nat" where
  "bsizes bs = sum_list (map bsize bs)"

lemma bsizes_simps [simp]:
  "bsizes [] = 0"
  "bsizes (b # bs) = bsize b + bsizes bs"
  "bsizes (xs @ ys) = bsizes xs + bsizes ys"
  by (simp_all add: bsizes_def)

lemma wf_blk_size: "wf_blk b \<Longrightarrow> 16 \<le> bsize b"
  by (cases b) auto

lemma wf_blk_dvd: "wf_blk b \<Longrightarrow> 8 dvd bsize b"
  by (cases b) auto

lemma wf_bsizes_dvd: "list_all wf_blk bs \<Longrightarrow> 8 dvd bsizes bs"
  by (induction bs) (auto simp: wf_blk_dvd)

section \<open>One block in memory\<close>

definition block_at :: "mem \<Rightarrow> nat \<Rightarrow> blk \<Rightarrow> bool" where
  "block_at m a b \<longleftrightarrow>
     (let h = of_nat a in
      unat (h_size m h) = bsize b \<and>
      (case b of
         Free n \<Rightarrow> h_state m h = BLOCK_FREE
       | Internal n s \<Rightarrow> h_state m h = BLOCK_INTERNAL \<and> unat (h_slop m h) = s
       | Used n s \<Rightarrow> h_state m h = BLOCK_USED \<and> unat (h_slop m h) = s))"

lemmas h_defs = h_state_def h_slop_def h_size_def set_state_def set_slop_def set_size_def

lemma block_codes [simp]:
  "BLOCK_FREE \<noteq> BLOCK_INTERNAL" "BLOCK_FREE \<noteq> BLOCK_USED" "BLOCK_INTERNAL \<noteq> BLOCK_USED"
  "BLOCK_INTERNAL \<noteq> BLOCK_FREE" "BLOCK_USED \<noteq> BLOCK_FREE" "BLOCK_USED \<noteq> BLOCK_INTERNAL"
  by (simp_all add: BLOCK_FREE_def BLOCK_INTERNAL_def BLOCK_USED_def)

lemma block_at_size: "block_at m a b \<Longrightarrow> unat (h_size m (of_nat a)) = bsize b"
  by (simp add: block_at_def Let_def)

lemma block_at_free_iff: "block_at m a b \<Longrightarrow> h_state m (of_nat a) = BLOCK_FREE \<longleftrightarrow> (\<exists>n. b = Free n)"
  by (auto simp: block_at_def Let_def split: blk.splits)

lemma block_at_used_iff: "block_at m a b \<Longrightarrow> h_state m (of_nat a) = BLOCK_USED \<longleftrightarrow> (\<exists>n s. b = Used n s)"
  by (auto simp: block_at_def Let_def split: blk.splits)

text \<open>A header is the eight bytes from the block's address.\<close>

definition hdr :: "nat \<Rightarrow> nat set" where "hdr a = {a..<a + 8}"

lemma h_size_cong:
  assumes "a + 8 \<le> 2 ^ 64" "\<And>x. x \<in> hdr a \<Longrightarrow> m' (of_nat x) = m (of_nat x)"
  shows "h_size m' (of_nat a) = h_size m (of_nat a)"
  unfolding h_size_def
proof (rule read32_cong)
  fix b :: u64 assume b: "b \<in> region (of_nat a + 4) 4"
  have "unat (of_nat a + 4 :: u64) = a + 4" using assms(1) by (simp add: to_nat)
  with b assms(1) have "a + 4 \<le> unat b" "unat b < a + 8" by (simp_all add: region_no_wrap)
  then show "m' b = m b" using assms(2) [of "unat b"] by (simp add: hdr_def)
qed

lemma block_at_cong:
  assumes "a + 8 \<le> 2 ^ 64" "\<And>x. x \<in> hdr a \<Longrightarrow> m' (of_nat x) = m (of_nat x)" "block_at m a b"
  shows "block_at m' a b"
proof -
  have "m' (of_nat a) = m (of_nat a)" "m' (of_nat a + 1) = m (of_nat a + 1)"
    using assms(2) [of a] assms(2) [of "Suc a"] by (simp_all add: hdr_def add.commute)
  with assms h_size_cong [of a m' m] show ?thesis
    by (auto simp: block_at_def Let_def h_state_def h_slop_def split: blk.splits)
qed

section \<open>The whole heap\<close>

primrec layout :: "mem \<Rightarrow> nat \<Rightarrow> blk list \<Rightarrow> bool" where
  "layout m a [] \<longleftrightarrow> True"
| "layout m a (b # bs) \<longleftrightarrow> block_at m a b \<and> layout m (a + bsize b) bs"

primrec hdrs :: "nat \<Rightarrow> blk list \<Rightarrow> nat set" where
  "hdrs a [] = {}"
| "hdrs a (b # bs) = hdr a \<union> hdrs (a + bsize b) bs"

lemma layout_append [simp]:
  "layout m a (xs @ ys) \<longleftrightarrow> layout m a xs \<and> layout m (a + bsizes xs) ys"
  by (induction xs arbitrary: a) (auto simp: add.assoc)

lemma hdrs_append [simp]: "hdrs a (xs @ ys) = hdrs a xs \<union> hdrs (a + bsizes xs) ys"
  by (induction xs arbitrary: a) (auto simp: add.assoc)

lemma hdrs_range: "list_all wf_blk bs \<Longrightarrow> x \<in> hdrs a bs \<Longrightarrow> a \<le> x \<and> x < a + bsizes bs"
proof (induction bs arbitrary: a)
  case (Cons b bs)
  from Cons.prems(2) consider "x \<in> hdr a" | "x \<in> hdrs (a + bsize b) bs" by auto
  then show ?case
  proof cases
    case 1
    then show ?thesis using Cons.prems(1) wf_blk_size [of b] by (auto simp: hdr_def)
  next
    case 2
    then show ?thesis using Cons.IH [of "a + bsize b"] Cons.prems(1) by auto
  qed
qed simp

lemma layout_cong:
  assumes "layout m a bs" "a + bsizes bs \<le> 2 ^ 64" "list_all wf_blk bs"
    and "\<And>x. x \<in> hdrs a bs \<Longrightarrow> m' (of_nat x) = m (of_nat x)"
  shows "layout m' a bs"
  using assms
proof (induction bs arbitrary: a)
  case (Cons b bs)
  have "16 \<le> bsize b" using Cons.prems(3) wf_blk_size [of b] by simp
  then have "block_at m' a b"
    using Cons.prems by (intro block_at_cong [of a m' m b]) auto
  moreover have "layout m' (a + bsize b) bs"
    using Cons.prems by (intro Cons.IH) auto
  ultimately show ?case by simp
qed simp

text \<open>Writes outside \<open>[a, a + bsizes bs)\<close> keep the layout.\<close>

lemma layout_frame:
  assumes "layout m a bs" "a + bsizes bs \<le> 2 ^ 64" "list_all wf_blk bs"
    and "\<And>x. a \<le> x \<Longrightarrow> x < a + bsizes bs \<Longrightarrow> m' (of_nat x) = m (of_nat x)"
  shows "layout m' a bs"
proof (rule layout_cong [OF assms(1-3)])
  fix x assume "x \<in> hdrs a bs"
  with assms(3) have "a \<le> x \<and> x < a + bsizes bs" by (rule hdrs_range)
  then show "m' (of_nat x) = m (of_nat x)" using assms(4) by blast
qed

section \<open>What a header write does\<close>

lemma of_nat_neq64: "x < 2 ^ 64 \<Longrightarrow> y < 2 ^ 64 \<Longrightarrow> x \<noteq> y \<Longrightarrow> (of_nat x :: u64) \<noteq> of_nat y"
  using unat_of_nat64 [of x] unat_of_nat64 [of y] by auto

lemma set_state_outside [mem_simps]:
  "x < 2 ^ 64 \<Longrightarrow> a < 2 ^ 64 \<Longrightarrow> x \<noteq> a \<Longrightarrow> set_state m (of_nat a) v (of_nat x) = m (of_nat x)"
  by (simp add: set_state_def of_nat_neq64)

lemma set_slop_outside [mem_simps]:
  "x < 2 ^ 64 \<Longrightarrow> a + 1 < 2 ^ 64 \<Longrightarrow> x \<noteq> a + 1 \<Longrightarrow>
   set_slop m (of_nat a) v (of_nat x) = m (of_nat x)"
  using of_nat_neq64 [of x "a + 1"] by (simp add: set_slop_def add.commute)

lemma region_of_nat: "a + n \<le> 2 ^ 64 \<Longrightarrow> a < 2 ^ 64 \<Longrightarrow> x < 2 ^ 64 \<Longrightarrow> of_nat x \<in> region (of_nat a) n \<longleftrightarrow> a \<le> x \<and> x < a + n"
  by (simp add: region_no_wrap unat_of_nat64)

lemma region_offset:
  assumes "x \<in> region (of_nat a) n" "a + n \<le> 2 ^ 64" "a < 2 ^ 64"
  shows "\<exists>i<n. unat x = a + i"
proof -
  have "a \<le> unat x" "unat x < a + n"
    using region_of_nat [OF assms(2,3), of "unat x"] assms(1) unat_u64_less [of x] by simp_all
  then show ?thesis by (intro exI [of _ "unat x - a"]) auto
qed

lemma set_size_outside [mem_simps]:
  assumes "x < 2 ^ 64" "a + 8 \<le> 2 ^ 64" "x < a + 4 \<or> a + 8 \<le> x"
  shows "set_size m (of_nat a) v (of_nat x) = m (of_nat x)"
proof -
  have "(of_nat x :: u64) \<notin> region (of_nat (a + 4)) 4"
    using assms region_of_nat [of "a + 4" 4 x] by auto
  then show ?thesis by (simp add: set_size_def write32_other)
qed

lemma state_slop_outside:
  assumes "x < 2 ^ 64" "a + 8 \<le> 2 ^ 64" "x < a \<or> a + 8 \<le> x"
  shows "set_slop (set_state m (of_nat a) v) (of_nat a) w (of_nat x) = m (of_nat x)"
proof -
  have "x \<noteq> a" "x \<noteq> a + 1" using assms by auto
  then show ?thesis using assms by (simp add: mem_simps)
qed

lemma header_write_outside:
  assumes "x < 2 ^ 64" "a + 8 \<le> 2 ^ 64" "x < a \<or> a + 8 \<le> x"
  shows "set_size (set_slop (set_state m (of_nat a) v) (of_nat a) w) (of_nat a) z (of_nat x) = m (of_nat x)"
proof -
  have "set_size (set_slop (set_state m (of_nat a) v) (of_nat a) w) (of_nat a) z (of_nat x)
      = set_slop (set_state m (of_nat a) v) (of_nat a) w (of_nat x)"
    using assms by (intro set_size_outside) auto
  then show ?thesis using state_slop_outside [OF assms] by simp
qed

text \<open>Field reads over field writes of the same header.\<close>

lemma small_offset_notin: "unat k < 4 \<Longrightarrow> h + k \<notin> region (h + 4 :: u64) 4"
proof -
  assume k: "unat k < 4"
  have "unat (h + k - (h + 4)) = unat (k - 4)" by simp
  also have "\<dots> \<ge> 4" using k by (simp add: unat_sub_if' word_le_nat_alt)
  finally show ?thesis by (simp add: region_def)
qed

lemma size_region_notin: "h \<notin> region (h + 4 :: u64) 4" "h + 1 \<notin> region (h + 4 :: u64) 4"
  using small_offset_notin [of 0 h] small_offset_notin [of 1 h] by simp_all

lemma h_size_upd_other: "x \<notin> region (h + 4) 4 \<Longrightarrow> h_size (m(x := v)) h = h_size m h"
  unfolding h_size_def by (rule read32_cong) auto

lemma header_rw [mem_simps]:
  "h_state (set_state m h v) h = v"
  "h_state (set_slop m h w) h = h_state m h"
  "h_state (set_size m h z) h = h_state m h"
  "h_slop (set_state m h v) h = h_slop m h"
  "h_slop (set_slop m h w) h = w"
  "h_slop (set_size m h z) h = h_slop m h"
  "h_size (set_state m h v) h = h_size m h"
  "h_size (set_slop m h w) h = h_size m h"
  "h_size (set_size m h z) h = z"
  using size_region_notin [of h]
  by (simp_all add: h_state_def h_slop_def set_state_def set_slop_def set_size_def
      write32_other h_size_upd_other) (simp add: h_size_def)

end
