(* ===== verification/Heap_Spec.thy ===== *)
theory Heap_Spec
  imports Heap_Layout
begin

text \<open>
  What each allocator operation does to the list of blocks, and the lemmas that the loops
  and header writes of \<open>Malloc\<close> do exactly that to the blocks in memory. Nothing here
  depends on the operating system.
\<close>

section \<open>The abstract operations\<close>

definition round8 :: "nat \<Rightarrow> nat" where "round8 n = (n + 7) div 8 * 8"

fun spec_fit :: "nat \<Rightarrow> blk list \<Rightarrow> (blk list \<times> nat \<times> blk list) option" where
  "spec_fit need [] = None"
| "spec_fit need (b # bs) =
     (case b of
        Free n \<Rightarrow> if need \<le> n then Some ([], n, bs)
                  else map_option (\<lambda>(pre, k, post). (b # pre, k, post)) (spec_fit need bs)
      | _ \<Rightarrow> map_option (\<lambda>(pre, k, post). (b # pre, k, post)) (spec_fit need bs))"

text \<open>
  A block that is split keeps the rounding slop; a block handed over whole records the
  remainder only, not the remainder plus the rounding.
\<close>

definition spec_place :: "nat \<Rightarrow> nat \<Rightarrow> nat \<Rightarrow> blk list" where
  "spec_place need slop n =
     (if 16 \<le> n - need then [Used need slop, Free (n - need)] else [Used n (n - need)])"

text \<open>
  \<open>spec_malloc lim a bs sz\<close>: the address of the payload (if any) and the new blocks, for a
  heap that starts at \<open>a\<close> under a break limit \<open>lim\<close>.
\<close>

definition spec_malloc :: "nat \<Rightarrow> nat \<Rightarrow> blk list \<Rightarrow> nat \<Rightarrow> nat option \<times> blk list" where
  "spec_malloc lim a bs sz =
     (if sz = 0 then (None, bs)
      else let need = round8 sz + 8; slop = round8 sz - sz in
        case spec_fit need bs of
          Some (pre, n, post) \<Rightarrow> (Some (a + bsizes pre + 8), pre @ spec_place need slop n @ post)
        | None \<Rightarrow> if a + bsizes bs + need < lim
                  then (Some (a + bsizes bs + 8), bs @ [Used need slop])
                  else (None, bs))"

fun free_blk :: "blk \<Rightarrow> blk" where
  "free_blk b = Free (bsize b)"

text \<open>\<open>set_blk f p a bs\<close> rewrites the block whose payload is at \<open>p\<close>.\<close>

fun set_blk :: "(blk \<Rightarrow> blk) \<Rightarrow> nat \<Rightarrow> nat \<Rightarrow> blk list \<Rightarrow> blk list" where
  "set_blk f p a [] = []"
| "set_blk f p a (b # bs) =
     (if p = a + 8 then f b # bs else b # set_blk f p (a + bsize b) bs)"

fun payloads :: "nat \<Rightarrow> blk list \<Rightarrow> nat set" where
  "payloads a [] = {}"
| "payloads a (b # bs) = insert (a + 8) (payloads (a + bsize b) bs)"

text \<open>One pass that merges every run of adjacent free blocks.\<close>

fun spec_defrag :: "blk list \<Rightarrow> blk list" where
  "spec_defrag [] = []"
| "spec_defrag (Free n # bs) =
     (case spec_defrag bs of Free k # cs \<Rightarrow> Free (n + k) # cs | cs \<Rightarrow> Free n # cs)"
| "spec_defrag (b # bs) = b # spec_defrag bs"

section \<open>First-fit search\<close>

lemma spec_fit_Some:
  "spec_fit need bs = Some (pre, n, post) \<Longrightarrow>
   bs = pre @ Free n # post \<and> need \<le> n \<and> (\<forall>k. Free k \<in> set pre \<longrightarrow> k < need)"
  by (induction bs arbitrary: pre n post) (auto split: blk.splits if_splits)

lemma spec_fit_None: "spec_fit need bs = None \<longleftrightarrow> (\<forall>k. Free k \<in> set bs \<longrightarrow> k < need)"
  by (induction bs) (auto split: blk.splits)

text \<open>Arithmetic of the cursor: the next header is where the block's size says.\<close>

lemma next_header:
  assumes "block_at m a b" "a + bsize b < 2 ^ 64"
  shows "(of_nat a :: u64) + ucast (h_size m (of_nat a)) = of_nat (a + bsize b)"
proof (rule word_eq_unatI)
  have s: "unat (h_size m (of_nat a)) = bsize b" using assms(1) by (rule block_at_size)
  have "unat ((of_nat a :: u64) + ucast (h_size m (of_nat a))) = a + bsize b"
    using assms(2) s by (subst unat_add64) (simp_all add: unat_of_nat64)
  then show "unat ((of_nat a :: u64) + ucast (h_size m (of_nat a)))
      = unat (of_nat (a + bsize b) :: u64)"
    using assms(2) by (simp only: unat_of_nat64)
qed

lemma cursor_less:
  "unat heap_end = a + k \<Longrightarrow> (of_nat a :: u64) < heap_end \<longleftrightarrow> 0 < k"
  using unat_u64_less [of heap_end] by (simp add: word_less_nat_alt unat_of_nat64)

lemma find_fit_spec:
  assumes "layout m a bs" "list_all wf_blk bs" "unat heap_end = a + bsizes bs"
  shows "find_fit m heap_end need (of_nat a) =
    Some (map_option (\<lambda>(pre, n, post). of_nat (a + bsizes pre)) (spec_fit (unat need) bs))"
  using assms
proof (induction bs arbitrary: a)
  case Nil
  then have "\<not> (of_nat a :: u64) < heap_end" by (simp add: cursor_less [of heap_end a 0])
  then show ?case by (simp add: find_fit.simps [of m])
next
  case (Cons b bs)
  let ?h = "of_nat a :: u64"
  have b: "block_at m a b" and lay: "layout m (a + bsize b) bs" and w: "16 \<le> bsize b"
    using Cons.prems wf_blk_size [of b] by auto
  have lt: "?h < heap_end" using w Cons.prems(3) by (simp add: cursor_less [of heap_end a "bsizes (b # bs)"])
  have "a + bsize b < 2 ^ 64 \<or> bs = []"
    using unat_u64_less [of heap_end] Cons.prems(2,3) wf_blk_size by (cases bs) auto
  have e: "unat heap_end = a + bsize b + bsizes bs" using Cons.prems(3) by simp
  have IH: "find_fit m heap_end need (of_nat (a + bsize b)) = Some (map_option
      (\<lambda>(pre, n, post). of_nat (a + bsize b + bsizes pre)) (spec_fit (unat need) bs))"
    by (rule Cons.IH [OF lay _ e]) (use Cons.prems(2) in simp)
  have nx: "?h + ucast (h_size m ?h) = of_nat (a + bsize b)"
    using b e unat_u64_less [of heap_end] by (intro next_header) auto
  have fits: "ucast (h_size m ?h) \<ge> need \<longleftrightarrow> unat need \<le> bsize b"
    using block_at_size [OF b] by (simp add: word_le_nat_alt)
  have rest: "map_option (\<lambda>(pre, n, post). of_nat (a + bsizes pre) :: u64)
        (map_option (\<lambda>(pre, k, post). (b # pre, k, post)) (spec_fit (unat need) bs))
      = map_option (\<lambda>(pre, n, post). of_nat (a + bsize b + bsizes pre)) (spec_fit (unat need) bs)"
    by (cases "spec_fit (unat need) bs") (auto simp: add.assoc)
  show ?case
  proof (cases "h_state m ?h = BLOCK_FREE \<and> unat need \<le> bsize b")
    case True
    then obtain n where n: "b = Free n" using block_at_free_iff [OF b] by auto
    with True show ?thesis using lt fits by (simp add: find_fit.simps [of m _ _ ?h])
  next
    case False
    then have "\<not> (h_state m ?h = BLOCK_FREE \<and> ucast (h_size m ?h) \<ge> need)" using fits by simp
    then have "find_fit m heap_end need ?h = find_fit m heap_end need (?h + ucast (h_size m ?h))"
      using lt by (subst find_fit.simps) (simp only: if_True if_False)
    then have "find_fit m heap_end need ?h = find_fit m heap_end need (of_nat (a + bsize b))"
      by (simp only: nx)
    moreover have "spec_fit (unat need) (b # bs)
        = map_option (\<lambda>(pre, k, post). (b # pre, k, post)) (spec_fit (unat need) bs)"
      using False block_at_free_iff [OF b] by (auto split: blk.splits)
    ultimately show ?thesis by (simp only: IH rest)
  qed
qed

section \<open>Placing a block\<close>

lemma round8_facts: "n \<le> round8 n" "round8 n < n + 8" "8 dvd round8 n"
  unfolding round8_def by presburger+

lemma round8_pos: "0 < n \<Longrightarrow> 8 \<le> round8 n"
  unfolding round8_def by presburger

lemma unat_round_up:
  assumes "unat sz + 7 < 2 ^ 64"
  shows "unat (round_up sz ALIGN) = round8 (unat sz)"
proof -
  have e: "sz + ALIGN - 1 = sz + 7" by (simp add: ALIGN_def)
  have "unat (sz + 7) = unat sz + 7" using assms by (simp add: to_nat)
  then have d: "unat ((sz + 7) div 8) = (unat sz + 7) div 8" by (simp add: unat_div)
  then have "unat ((sz + 7) div 8 * 8) = (unat sz + 7) div 8 * 8"
    using assms by (subst unat_mult_lem [THEN iffD1]) (simp_all add: d)
  then show ?thesis by (simp add: round_up_def e round8_def) (simp add: ALIGN_def)
qed

lemma place_layout:
  assumes free: "block_at m a (Free n)" and need: "unat need \<le> n" "16 \<le> unat need"
    and n: "a + n < 2 ^ 32"
  shows "layout (place m (of_nat a) need slop) a (spec_place (unat need) (unat slop) n)"
    and "x < 2 ^ 64 \<Longrightarrow> x \<notin> hdr a \<Longrightarrow> x \<notin> hdr (a + unat need) \<or> n - unat need < 16 \<Longrightarrow>
      place m (of_nat a) need slop (of_nat x) = m (of_nat x)"
proof -
  let ?h = "of_nat a :: u64" and ?k = "unat need"
  have sz: "unat (h_size m ?h) = n" using block_at_size [OF free] by simp
  have nd: "unat (ucast need :: u32) = ?k" using need n by (simp add: to_nat)
  have rem: "unat (h_size m ?h - ucast need) = n - ?k" using sz nd need by (simp add: to_nat)
  have nx: "?h + need = of_nat (a + ?k)" by simp
  have split: "h_size m ?h - ucast need \<ge> 16 \<longleftrightarrow> 16 \<le> n - ?k"
    using rem by (simp add: word_le_nat_alt)
  let ?m1 = "set_size (set_state m (of_nat (a + ?k)) BLOCK_FREE) (of_nat (a + ?k))
               (h_size m ?h - ucast need)"
  let ?m2 = "set_slop (set_state (set_size ?m1 ?h (ucast need)) ?h BLOCK_USED) ?h slop"
  have pl: "place m ?h need slop = (if 16 \<le> n - ?k then ?m2
      else set_slop (set_state m ?h BLOCK_USED) ?h (ucast (h_size m ?h - ucast need)))"
    unfolding place_def Let_def nx using split by simp
  have far: "?m2 (of_nat y) = ?m1 (of_nat y)" if "y \<in> hdr (a + ?k)" for y
  proof -
    have y: "y \<ge> a + 16" "y < 2 ^ 64" using that need n by (auto simp: hdr_def)
    then show ?thesis using n by (simp add: mem_simps)
  qed
  have "block_at ?m1 (a + ?k) (Free (n - ?k))"
    using rem by (simp add: block_at_def Let_def mem_simps)
  then have tail: "block_at ?m2 (a + ?k) (Free (n - ?k))"
    using far n need by (intro block_at_cong [of "a + ?k" ?m2 ?m1]) auto
  have head: "block_at ?m2 a (Used ?k (unat slop))"
    using nd by (simp add: block_at_def Let_def mem_simps)
  have whole: "n - ?k < 16 \<Longrightarrow> block_at (set_slop (set_state m ?h BLOCK_USED) ?h
      (ucast (h_size m ?h - ucast need))) a (Used n (n - ?k))"
    using sz rem by (simp add: block_at_def Let_def mem_simps to_nat)
  show "layout (place m ?h need slop) a (spec_place ?k (unat slop) n)"
    using tail head whole by (auto simp: pl spec_place_def)
  show "place m ?h need slop (of_nat x) = m (of_nat x)"
    if "x < 2 ^ 64" "x \<notin> hdr a" "x \<notin> hdr (a + ?k) \<or> n - ?k < 16"
  proof -
    have x1: "x < a \<or> a + 8 \<le> x" using that(2) by (auto simp: hdr_def)
    then have w: "set_slop (set_state m ?h BLOCK_USED) ?h v (of_nat x) = m (of_nat x)" for v
      using n that(1) by (intro state_slop_outside) auto
    show ?thesis
    proof (cases "16 \<le> n - ?k")
      case True
      with that(3) have x2: "x < a + ?k \<or> a + ?k + 8 \<le> x" by (auto simp: hdr_def)
      have "?m2 (of_nat x) = ?m1 (of_nat x)" using x1 n that(1) by (auto simp: mem_simps)
      also have "\<dots> = m (of_nat x)"
        using x2 n that(1) need True
          set_size_outside [of x "a + ?k" "set_state m (of_nat (a + ?k)) BLOCK_FREE"]
          set_state_outside [of x "a + ?k" m BLOCK_FREE] by auto
      finally show ?thesis using True by (simp add: pl)
    next
      case False
      then show ?thesis using w by (simp add: pl)
    qed
  qed
qed

end
