(* ===== verification/Heap_Client.thy ===== *)
theory Heap_Client
  imports Heap_Spec
begin

text \<open>
  The contract between the allocator and the kernel: \<open>break_provider\<close> is what \<^verbatim>\<open>malloc.c\<close>
  relies on of \<^verbatim>\<open>sbrk\<close>. The allocator's correctness lemmas are proved once, inside the
  locale; \<open>Brk\<close> interprets it on the kernel's system call.
\<close>

section \<open>The representation invariant\<close>

definition heap_base :: "('os \<Rightarrow> u64) \<Rightarrow> 'os heap \<Rightarrow> nat" where
  "heap_base brk s = unat (if initialized s then managed_memory_start s else brk (os s))"

lemma heap_base_umem [simp]: "heap_base brk (s\<lparr>umem := m\<rparr>) = heap_base brk s"
  by (simp add: heap_base_def)

definition heap_ok :: "('os \<Rightarrow> u64) \<Rightarrow> ('os \<Rightarrow> bool) \<Rightarrow> 'os heap \<Rightarrow> blk list \<Rightarrow> bool" where
  "heap_ok brk okos s bs \<longleftrightarrow>
     okos (os s) \<and> list_all wf_blk bs \<and> 8 dvd heap_base brk s \<and>
     (if initialized s
      then layout (umem s) (unat (managed_memory_start s)) bs \<and>
           unat (last_valid_address s) = unat (managed_memory_start s) + bsizes bs \<and>
           brk (os s) = last_valid_address s
      else bs = [])"

text \<open>The addresses of blocks that are not free: headers and payloads.\<close>

primrec busy :: "nat \<Rightarrow> blk list \<Rightarrow> nat set" where
  "busy a [] = {}"
| "busy a (b # bs) =
     (case b of Free n \<Rightarrow> {} | _ \<Rightarrow> {a..<a + bsize b}) \<union> busy (a + bsize b) bs"

lemma busy_append [simp]: "busy a (xs @ ys) = busy a xs \<union> busy (a + bsizes xs) ys"
  by (induction xs arbitrary: a) (auto simp: add.assoc)

lemma busy_range: "x \<in> busy a bs \<Longrightarrow> a \<le> x \<and> x < a + bsizes bs"
proof (induction bs arbitrary: a)
  case (Cons b bs)
  show ?case
  proof (cases "x \<in> busy (a + bsize b) bs")
    case True
    then show ?thesis using Cons.IH [of "a + bsize b"] by simp
  next
    case False
    then show ?thesis using Cons.prems by (auto split: blk.splits)
  qed
qed simp

text \<open>
  What an allocating operation promises: the pointer and the blocks that the specification
  gives, and no change to any byte of a block that was in use.
\<close>

definition alloc_post :: "('os \<Rightarrow> u64) \<Rightarrow> ('os \<Rightarrow> bool) \<Rightarrow> 'os heap \<Rightarrow>
     blk list \<Rightarrow> nat option \<times> blk list \<Rightarrow> addr \<times> 'os heap \<Rightarrow> bool" where
  "alloc_post brk okos s bs spec r \<longleftrightarrow>
     fst r = (case fst spec of None \<Rightarrow> NULL | Some p \<Rightarrow> of_nat p) \<and>
     heap_ok brk okos (snd r) (snd spec) \<and>
     heap_base brk (snd r) = heap_base brk s \<and>
     (\<forall>x \<in> busy (heap_base brk s) bs. umem (snd r) (of_nat x) = umem s (of_nat x))"

text \<open>\<open>blk_at a bs p b\<close>: block \<open>b\<close> of the heap \<open>bs\<close> (which starts at \<open>a\<close>) has its payload at \<open>p\<close>.\<close>

primrec blk_at :: "nat \<Rightarrow> blk list \<Rightarrow> nat \<Rightarrow> blk \<Rightarrow> bool" where
  "blk_at a [] p b \<longleftrightarrow> False"
| "blk_at a (c # cs) p b \<longleftrightarrow> p = a + 8 \<and> b = c \<or> blk_at (a + bsize c) cs p b"

lemma blk_at_append [simp]:
  "blk_at a (xs @ ys) p b \<longleftrightarrow> blk_at a xs p b \<or> blk_at (a + bsizes xs) ys p b"
  by (induction xs arbitrary: a) (auto simp: add.assoc)

lemma blk_at_split:
  "blk_at a bs p b \<Longrightarrow> \<exists>pre post. bs = pre @ b # post \<and> p = a + bsizes pre + 8"
proof (induction bs arbitrary: a)
  case (Cons c cs)
  show ?case
  proof (cases "blk_at (a + bsize c) cs p b")
    case True
    then obtain pre post where "cs = pre @ b # post" "p = a + bsize c + bsizes pre + 8"
      using Cons.IH by blast
    then have "c # cs = (c # pre) @ b # post" "p = a + bsizes (c # pre) + 8" by simp_all
    then show ?thesis by blast
  next
    case False
    with Cons.prems have "c # cs = [] @ b # cs" "p = a + bsizes [] + 8" by simp_all
    then show ?thesis by blast
  qed
qed simp

lemma set_blk_split:
  "list_all wf_blk pre \<Longrightarrow>
   set_blk f (a + bsizes pre + 8) a (pre @ b # post) = pre @ f b # post"
proof (induction pre arbitrary: a)
  case (Cons c pre)
  have "16 \<le> bsize c" using Cons.prems wf_blk_size [of c] by simp
  then show ?case using Cons.IH [of "a + bsize c"] Cons.prems by (simp add: add.assoc)
qed simp

text \<open>
  What \<^verbatim>\<open>malloc\<close> does once the heap is initialised and the size is rounded, and what its
  specification does then: a free block is used, or the break moves, or there is no room.
\<close>

definition take_block :: "('os \<Rightarrow> u64 \<Rightarrow> (addr \<times> 'os) option) \<Rightarrow> 'os heap \<Rightarrow> u64 \<Rightarrow> u8 \<Rightarrow>
    (addr \<times> 'os heap) option" where
  "take_block sbrk s need slop = do {
     fit \<leftarrow> find_fit (umem s) (last_valid_address s) need (managed_memory_start s);
     case fit of
       Some cur \<Rightarrow> Some (payload_of cur, s\<lparr>umem := place (umem s) cur need slop\<rparr>)
     | None \<Rightarrow> do {
         (r, k) \<leftarrow> sbrk (os s) need;
         if r = - 1 then Some (NULL, s\<lparr>os := k\<rparr>)
         else let h = last_valid_address s
              in Some (payload_of h, s\<lparr>os := k, last_valid_address := h + need,
                   umem := set_size (set_slop (set_state (umem s) h BLOCK_USED) h slop) h (ucast need)\<rparr>) } }"

definition spec_take :: "nat \<Rightarrow> nat \<Rightarrow> blk list \<Rightarrow> nat \<Rightarrow> nat \<Rightarrow> nat option \<times> blk list" where
  "spec_take limit a bs need slop = (case spec_fit need bs of
       Some (pre, n, post) \<Rightarrow> (Some (a + bsizes pre + 8), pre @ spec_place need slop n @ post)
     | None \<Rightarrow> if a + bsizes bs + need < limit
              then (Some (a + bsizes bs + 8), bs @ [Used need slop]) else (None, bs))"

section \<open>The contract\<close>

locale break_provider =
  fixes sbrk :: "'os \<Rightarrow> u64 \<Rightarrow> (addr \<times> 'os) option"
    and brk :: "'os \<Rightarrow> u64"
    and okos :: "'os \<Rightarrow> bool"
    and limit :: nat
  assumes limit_bound: "limit \<le> 2 ^ 31"
    and brk_below: "okos k \<Longrightarrow> unat (brk k) < limit"
    and grow_ok: "okos k \<Longrightarrow> unat d < 2 ^ 63 \<Longrightarrow> unat (brk k) + unat d < limit \<Longrightarrow>
      \<exists>k'. sbrk k d = Some (brk k, k') \<and> okos k' \<and> brk k' = brk k + d"
    and grow_fail: "okos k \<Longrightarrow> unat d < 2 ^ 63 \<Longrightarrow> limit \<le> unat (brk k) + unat d \<Longrightarrow>
      \<exists>k'. sbrk k d = Some (- 1, k') \<and> okos k' \<and> brk k' = brk k"
begin

lemma heap_end_bound: "heap_ok brk okos s bs \<Longrightarrow> heap_base brk s + bsizes bs < limit"
  using brk_below [of "os s"] by (auto simp: heap_ok_def heap_base_def split: if_splits)

lemma init_ok:
  assumes "heap_ok brk okos s bs"
  obtains s1 where "init sbrk s = Some s1" "heap_ok brk okos s1 bs" "initialized s1"
    "umem s1 = umem s" "heap_base brk s1 = heap_base brk s"
proof (cases "initialized s")
  case True
  with assms that [of s] show thesis by (simp add: init_def)
next
  case False
  with assms have k: "okos (os s)" "bs = []" by (auto simp: heap_ok_def)
  obtain k' where "sbrk (os s) 0 = Some (brk (os s), k')" "okos k'" "brk k' = brk (os s)"
    using grow_ok [OF k(1), of 0] brk_below [OF k(1)] by auto
  with False assms k show thesis
    by (intro that [of "s\<lparr>managed_memory_start := brk (os s), last_valid_address := brk (os s),
          initialized := True, os := k'\<rparr>"]) (auto simp: init_def heap_ok_def heap_base_def)
qed

text \<open>The heap is grown: a used block is put at the old end.\<close>

lemma grow_layout:
  fixes slop :: u8 and need :: u64
  assumes lay: "layout m a bs" "list_all wf_blk bs" and e: "a + bsizes bs + unat need < 2 ^ 31"
    and need: "16 \<le> unat need"
  defines "h \<equiv> of_nat (a + bsizes bs)"
  defines "m' \<equiv> set_size (set_slop (set_state m h BLOCK_USED) h slop) h (ucast need)"
  shows "layout m' a (bs @ [Used (unat need) (unat slop)])"
    and "x < 2 ^ 64 \<Longrightarrow> x < a + bsizes bs \<or> a + bsizes bs + 8 \<le> x \<Longrightarrow> m' (of_nat x) = m (of_nat x)"
proof -
  show frame: "m' (of_nat x) = m (of_nat x)"
    if "x < 2 ^ 64" "x < a + bsizes bs \<or> a + bsizes bs + 8 \<le> x" for x
    unfolding m'_def h_def using that e by (intro header_write_outside) auto
  have "layout m' a bs"
  proof (rule layout_frame [OF lay(1) _ lay(2)])
    show "a + bsizes bs \<le> 2 ^ 64" using e by simp
    show "m' (of_nat x) = m (of_nat x)" if "a \<le> x" "x < a + bsizes bs" for x
      using that e by (intro frame) auto
  qed
  moreover have "block_at m' (a + bsizes bs) (Used (unat need) (unat slop))"
    using e unat_ucast_64_32 [of need] by (simp add: block_at_def Let_def m'_def h_def mem_simps)
  ultimately show "layout m' a (bs @ [Used (unat need) (unat slop)])" by simp
qed

text \<open>A free block is used: the blocks before and after it keep their headers.\<close>

lemma place_in_heap:
  fixes slop :: u8 and need :: u64
  assumes lay: "layout m a (pre @ Free n # post)" "list_all wf_blk (pre @ Free n # post)"
    and e: "a + bsizes (pre @ Free n # post) < 2 ^ 31"
    and need: "16 \<le> unat need" "unat need \<le> n"
  defines "m' \<equiv> place m (of_nat (a + bsizes pre)) need slop"
  shows "layout m' a (pre @ spec_place (unat need) (unat slop) n @ post)"
    and "x < 2 ^ 64 \<Longrightarrow> x < a + bsizes pre \<or> a + bsizes pre + n \<le> x \<Longrightarrow> m' (of_nat x) = m (of_nat x)"
proof -
  have b: "block_at m (a + bsizes pre) (Free n)" using lay(1) by simp
  have n: "a + bsizes pre + n < 2 ^ 32" using e by simp
  show frame: "m' (of_nat x) = m (of_nat x)"
    if "x < 2 ^ 64" "x < a + bsizes pre \<or> a + bsizes pre + n \<le> x" for x
    unfolding m'_def using that need by (intro place_layout(2) [OF b need(2,1) n]) (auto simp: hdr_def)
  have "layout m' a pre"
  proof (rule layout_frame [of m])
    show "layout m a pre" "list_all wf_blk pre" "a + bsizes pre \<le> 2 ^ 64" using lay e by auto
    show "m' (of_nat x) = m (of_nat x)" if "a \<le> x" "x < a + bsizes pre" for x
      using that e by (intro frame) auto
  qed
  moreover have "layout m' (a + bsizes pre + n) post"
  proof (rule layout_frame [of m])
    show "layout m (a + bsizes pre + n) post" "list_all wf_blk post"
      "a + bsizes pre + n + bsizes post \<le> 2 ^ 64" using lay e by (auto simp: add.assoc)
    show "m' (of_nat x) = m (of_nat x)"
      if "a + bsizes pre + n \<le> x" "x < a + bsizes pre + n + bsizes post" for x
      using that e by (intro frame) auto
  qed
  moreover have "bsizes (spec_place (unat need) (unat slop) n) = n"
    using need by (auto simp: spec_place_def)
  ultimately show "layout m' a (pre @ spec_place (unat need) (unat slop) n @ post)"
    using place_layout(1) [OF b need(2,1) n, of slop] by (simp add: m'_def add.assoc)
qed

section \<open>malloc refines its specification\<close>

lemma spec_fit_place_wf:
  assumes "list_all wf_blk bs" "spec_fit need bs = Some (pre, n, post)"
    and "8 dvd need" "16 \<le> need" "slop < 8"
  shows "list_all wf_blk (pre @ spec_place need slop n @ post)"
proof -
  from spec_fit_Some [OF assms(2)] have bs: "bs = pre @ Free n # post" and n: "need \<le> n" by auto
  with assms(1) have w: "list_all wf_blk pre" "list_all wf_blk post" "8 dvd n" "16 \<le> n" by auto
  have "8 dvd n - need" using w(3) assms(3) by simp
  then show ?thesis using w assms(3-5) n by (auto simp: spec_place_def)
qed

lemma malloc_fit:
  fixes slop :: u8 and need :: u64
  assumes ok: "heap_ok brk okos s bs" "initialized s"
    and fit: "spec_fit (unat need) bs = Some (pre, n, post)"
    and need: "8 dvd unat need" "16 \<le> unat need" "unat slop < 8"
  defines "a \<equiv> unat (managed_memory_start s)"
  defines "s' \<equiv> s\<lparr>umem := place (umem s) (of_nat (a + bsizes pre)) need slop\<rparr>"
  shows "heap_ok brk okos s' (pre @ spec_place (unat need) (unat slop) n @ post)"
    and "x \<in> busy a bs \<Longrightarrow> umem s' (of_nat x) = umem s (of_nat x)"
proof -
  from spec_fit_Some [OF fit] have bs: "bs = pre @ Free n # post" and n: "unat need \<le> n" by auto
  have lay: "layout (umem s) a bs" "list_all wf_blk bs"
    using ok by (auto simp: heap_ok_def a_def)
  have e: "a + bsizes bs < 2 ^ 31"
    using heap_end_bound [OF ok(1)] limit_bound ok(2) by (simp add: heap_base_def a_def)
  note P = place_in_heap [where m = "umem s" and a = a and pre = pre and n = n and post = post
        and need = need and slop = slop, folded bs, OF lay e need(2) n]
  have "bsizes (pre @ spec_place (unat need) (unat slop) n @ post) = bsizes bs"
    using n by (auto simp: spec_place_def bs)
  then show "heap_ok brk okos s' (pre @ spec_place (unat need) (unat slop) n @ post)"
    using ok P(1) spec_fit_place_wf [OF lay(2) fit need]
    by (auto simp: heap_ok_def heap_base_def a_def s'_def)
  show "umem s' (of_nat x) = umem s (of_nat x)" if x: "x \<in> busy a bs"
  proof -
    have "x < a + bsizes pre \<or> a + bsizes pre + n \<le> x"
      using x busy_range [of x a pre] busy_range [of x "a + bsizes pre + n" post] by (auto simp: bs)
    moreover have "x < 2 ^ 64" using busy_range [OF x] e by simp
    ultimately show ?thesis using P(2) [of x] by (simp add: s'_def)
  qed
qed

lemma malloc_grow:
  fixes slop :: u8 and need :: u64
  assumes ok: "heap_ok brk okos s bs" "initialized s"
    and fit: "unat (brk (os s)) + unat need < limit"
    and need: "8 dvd unat need" "16 \<le> unat need" "unat slop < 8"
    and k: "okos k" "brk k = brk (os s) + need"
  defines "h \<equiv> last_valid_address s"
  defines "s' \<equiv> s\<lparr>os := k, last_valid_address := h + need,
             umem := set_size (set_slop (set_state (umem s) h BLOCK_USED) h slop) h (ucast need)\<rparr>"
  shows "heap_ok brk okos s' (bs @ [Used (unat need) (unat slop)])"
    and "x \<in> busy (unat (managed_memory_start s)) bs \<Longrightarrow> umem s' (of_nat x) = umem s (of_nat x)"
proof -
  let ?a = "unat (managed_memory_start s)"
  have lay: "layout (umem s) ?a bs" "list_all wf_blk bs" and h: "unat h = ?a + bsizes bs"
    and hb: "h = brk (os s)"
    using ok by (auto simp: heap_ok_def h_def)
  have e: "?a + bsizes bs + unat need < 2 ^ 31" using fit limit_bound h hb by simp
  have hn: "h = of_nat (?a + bsizes bs)" using h by (metis of_nat_unat ucast_id)
  have u: "unat (h + need) = ?a + bsizes bs + unat need" using e h by (simp add: to_nat)
  note G = grow_layout [where slop = slop, OF lay e need(2), folded hn]
  show "heap_ok brk okos s' (bs @ [Used (unat need) (unat slop)])"
    using ok k G(1) u need hb by (auto simp: heap_ok_def heap_base_def s'_def)
  show "umem s' (of_nat x) = umem s (of_nat x)" if x: "x \<in> busy ?a bs"
    using G(2) [of x] busy_range [OF x] e by (simp add: s'_def)
qed

lemma need_slop:
  assumes "sz \<noteq> 0" "unat sz + 16 \<le> 2 ^ 63"
  shows "unat (round_up sz ALIGN + sizeof_header) = round8 (unat sz) + 8"
    and "unat (ucast (round_up sz ALIGN - sz) :: u8) = round8 (unat sz) - unat sz"
    and "round8 (unat sz) - unat sz < 8" "16 \<le> round8 (unat sz) + 8"
    and "8 dvd round8 (unat sz) + 8" "round8 (unat sz) + 8 < 2 ^ 63"
proof -
  have r: "unat (round_up sz ALIGN) = round8 (unat sz)"
    using assms(2) by (intro unat_round_up) simp
  note f = round8_facts [of "unat sz"]
  show "unat (round_up sz ALIGN + sizeof_header) = round8 (unat sz) + 8"
    using f(2) assms(2) r by (simp add: sizeof_header_def to_nat)
  have "unat (round_up sz ALIGN - sz) = round8 (unat sz) - unat sz"
    using f(1) r by (simp add: to_nat)
  then show "unat (ucast (round_up sz ALIGN - sz) :: u8) = round8 (unat sz) - unat sz"
    using f(2) by (simp add: to_nat)
  show "round8 (unat sz) - unat sz < 8" "8 dvd round8 (unat sz) + 8"
    "round8 (unat sz) + 8 < 2 ^ 63"
    using f assms(2) by simp_all
  have "0 < unat sz" using assms(1) by (simp add: unat_gt_0)
  then show "16 \<le> round8 (unat sz) + 8" using round8_pos by fastforce
qed

lemma brk_not_minus1: "okos k \<Longrightarrow> brk k \<noteq> - 1"
  using brk_below [of k] limit_bound by (auto simp: unsigned_minus_1_eq_mask mask_eq_exp_minus_1)

lemma malloc_body:
  assumes "sz \<noteq> 0" "init sbrk s = Some s1"
  shows "malloc sbrk s sz = take_block sbrk s1 (round_up sz ALIGN + sizeof_header) (ucast (round_up sz ALIGN - sz))"
  using assms unfolding malloc_def take_block_def Let_def by simp

lemma spec_malloc_body:
  assumes "sz \<noteq> 0" "unat sz + 16 \<le> 2 ^ 63"
  shows "spec_malloc limit a bs (unat sz) =
    spec_take limit a bs (unat (round_up sz ALIGN + sizeof_header)) (unat (ucast (round_up sz ALIGN - sz) :: u8))"
  using assms(1)
  by (simp only: spec_malloc_def spec_take_def Let_def unat_eq_0 if_False need_slop(1,2) [OF assms])

lemma take_block_search:
  assumes "heap_ok brk okos s bs" "initialized s"
  shows "find_fit (umem s) (last_valid_address s) need (managed_memory_start s) =
    Some (map_option (\<lambda>(pre, n, post). of_nat (unat (managed_memory_start s) + bsizes pre))
      (spec_fit (unat need) bs))"
  using find_fit_spec [of "umem s" "unat (managed_memory_start s)" bs "last_valid_address s" need] assms
  by (simp add: heap_ok_def)

lemma take_fit:
  fixes slop :: u8 and need :: u64
  assumes ok: "heap_ok brk okos s bs" "initialized s"
    and need: "8 dvd unat need" "16 \<le> unat need" "unat slop < 8"
    and fit: "spec_fit (unat need) bs = Some (pre, n, post)"
  shows "\<exists>r. take_block sbrk s need slop = Some r \<and>
    alloc_post brk okos s bs (spec_take limit (heap_base brk s) bs (unat need) (unat slop)) r"
proof -
  have a: "heap_base brk s = unat (managed_memory_start s)"
    "heap_base brk (s\<lparr>umem := m\<rparr>) = unat (managed_memory_start s)" for m
    using ok(2) by (simp_all add: heap_base_def)
  show ?thesis
    using malloc_fit [OF ok fit need] fit
    by (auto simp: take_block_def take_block_search [OF ok] alloc_post_def spec_take_def
        payload_of_def sizeof_header_def a)
qed

lemma take_grow:
  fixes slop :: u8 and need :: u64
  assumes ok: "heap_ok brk okos s bs" "initialized s"
    and need: "8 dvd unat need" "16 \<le> unat need" "unat slop < 8" "unat need < 2 ^ 63"
    and nofit: "spec_fit (unat need) bs = None"
    and room: "heap_base brk s + bsizes bs + unat need < limit"
  shows "\<exists>r. take_block sbrk s need slop = Some r \<and>
    alloc_post brk okos s bs (spec_take limit (heap_base brk s) bs (unat need) (unat slop)) r"
proof -
  have a: "heap_base brk (s\<lparr>os := k, last_valid_address := e\<rparr>) = heap_base brk s"
    "heap_base brk s = unat (managed_memory_start s)" for k e
    using ok(2) by (simp_all add: heap_base_def)
  have h: "okos (os s)" "unat (last_valid_address s) = heap_base brk s + bsizes bs"
    "brk (os s) = last_valid_address s" using ok a(2) by (auto simp: heap_ok_def)
  have lt: "unat (brk (os s)) + unat need < limit" using room h by simp
  obtain k where k: "sbrk (os s) need = Some (brk (os s), k)" "okos k" "brk k = brk (os s) + need"
    using grow_ok [OF h(1) need(4) lt] by auto
  have "last_valid_address s = of_nat (heap_base brk s + bsizes bs)"
    using h(2) by (metis of_nat_unat ucast_id)
  then have p: "payload_of (last_valid_address s) = of_nat (heap_base brk s + bsizes bs + 8)"
    by (simp add: payload_of_def sizeof_header_def)
  show ?thesis
    using malloc_grow [OF ok lt need(1-3) k(2,3)] nofit room k(1) brk_not_minus1 [OF h(1)]
    by (auto simp: take_block_def take_block_search [OF ok] alloc_post_def spec_take_def
        p a Let_def)
qed

lemma take_no_room:
  fixes slop :: u8 and need :: u64
  assumes ok: "heap_ok brk okos s bs" "initialized s" and need: "unat need < 2 ^ 63"
    and nofit: "spec_fit (unat need) bs = None"
    and room: "limit \<le> heap_base brk s + bsizes bs + unat need"
  shows "\<exists>r. take_block sbrk s need slop = Some r \<and>
    alloc_post brk okos s bs (spec_take limit (heap_base brk s) bs (unat need) (unat slop)) r"
proof -
  have h: "okos (os s)" "limit \<le> unat (brk (os s)) + unat need"
    using ok room by (auto simp: heap_ok_def heap_base_def)
  obtain k where k: "sbrk (os s) need = Some (- 1, k)" "okos k" "brk k = brk (os s)"
    using grow_fail [OF h(1) need h(2)] by auto
  have "heap_ok brk okos (s\<lparr>os := k\<rparr>) bs" "heap_base brk (s\<lparr>os := k\<rparr>) = heap_base brk s"
    using ok k by (auto simp: heap_ok_def heap_base_def)
  then show ?thesis using nofit room k(1)
    by (auto simp: take_block_def take_block_search [OF ok] alloc_post_def spec_take_def)
qed

lemma malloc_refines:
  assumes ok: "heap_ok brk okos s bs" and sz: "unat sz + 16 \<le> 2 ^ 63"
  shows "\<exists>r. malloc sbrk s sz = Some r \<and>
    alloc_post brk okos s bs (spec_malloc limit (heap_base brk s) bs (unat sz)) r"
proof (cases "sz = 0")
  case True
  with ok show ?thesis by (simp add: malloc_def spec_malloc_def alloc_post_def)
next
  case False
  obtain s1 where s1: "init sbrk s = Some s1" and ok1: "heap_ok brk okos s1 bs" "initialized s1"
    and m1: "umem s1 = umem s" and b1: "heap_base brk s1 = heap_base brk s"
    using init_ok [OF ok] by blast
  define need where "need = round_up sz ALIGN + sizeof_header"
  define slop :: u8 where "slop = ucast (round_up sz ALIGN - sz)"
  have n: "8 dvd unat need" "16 \<le> unat need" "unat slop < 8" "unat need < 2 ^ 63"
    using need_slop [OF False sz, folded need_def slop_def] by simp_all
  have "\<exists>r. take_block sbrk s1 need slop = Some r \<and>
      alloc_post brk okos s1 bs (spec_take limit (heap_base brk s1) bs (unat need) (unat slop)) r"
  proof (cases "spec_fit (unat need) bs")
    case None
    then show ?thesis using take_grow [OF ok1 n] take_no_room [OF ok1 n(4)] by (meson not_le)
  next
    case (Some t)
    then show ?thesis using take_fit [OF ok1 n(1-3)] by (cases t) simp
  qed
  then show ?thesis
    unfolding malloc_body [OF False s1] spec_malloc_body [OF False sz] need_def slop_def
    by (simp add: alloc_post_def m1 b1)
qed

end

end
