(* ===== verification/Heap_Ops.thy ===== *)
theory Heap_Ops
  imports Heap_Client
begin

text \<open>
  \<^verbatim>\<open>free\<close>, \<^verbatim>\<open>calloc\<close>, \<^verbatim>\<open>realloc\<close> and \<^verbatim>\<open>defrag\<close> refine their effect on the list of blocks, and
  the memory they hand out is fresh. The lemmas that need a bound on the heap's end are in
  the context of \<open>break_provider\<close>.
\<close>

section \<open>Positions of blocks\<close>

definition in_use :: "blk \<Rightarrow> bool" where
  "in_use b \<longleftrightarrow> b \<noteq> Free (bsize b)"

lemma in_use_simps [simp]: "\<not> in_use (Free n)" "in_use (Used n s)" "in_use (Internal n s)"
  by (simp_all add: in_use_def)

text \<open>A payload is not part of any header, and the payload of a block in use is busy.\<close>

lemma payload_not_hdr:
  assumes "blk_at a bs p b" "list_all wf_blk bs" "p \<le> x" "x < p + (bsize b - 8)"
  shows "x \<notin> hdrs a bs"
proof -
  obtain pre post where bs: "bs = pre @ b # post" and p: "p = a + bsizes pre + 8"
    using blk_at_split [OF assms(1)] by blast
  have w: "16 \<le> bsize b" "list_all wf_blk pre" "list_all wf_blk post"
    using assms(2) wf_blk_size [of b] by (auto simp: bs)
  have "x \<notin> hdrs a pre" using hdrs_range [OF w(2), of x a] assms(3) p by auto
  moreover have "x \<notin> hdrs (a + bsizes pre + bsize b) post"
    using hdrs_range [OF w(3), of x "a + bsizes pre + bsize b"] assms(4) p w(1) by auto
  ultimately show ?thesis using assms(3) p by (auto simp: bs hdr_def)
qed

lemma payload_busy:
  assumes "blk_at a bs p b" "in_use b" "list_all wf_blk bs" "p - 8 \<le> x" "x < p + (bsize b - 8)"
  shows "x \<in> busy a bs"
proof -
  obtain pre post where bs: "bs = pre @ b # post" and p: "p = a + bsizes pre + 8"
    using blk_at_split [OF assms(1)] by blast
  have "16 \<le> bsize b" using assms(3) wf_blk_size [of b] by (simp add: bs)
  then show ?thesis using assms(2,4,5) p by (cases b) (auto simp: bs)
qed

text \<open>Blocks in use stay where they are when memory is allocated.\<close>

lemma spec_malloc_keeps:
  assumes "blk_at a bs p b" "in_use b"
  shows "blk_at a (snd (spec_malloc lim a bs sz)) p b"
proof -
  have place: "bsizes (spec_place need slop n) = n" if "need \<le> n" for need slop n
    using that by (auto simp: spec_place_def)
  show ?thesis
  proof (cases "spec_fit (round8 sz + 8) bs")
    case None
    then show ?thesis using assms by (simp add: spec_malloc_def Let_def)
  next
    case (Some t)
    obtain pre n post where t: "t = (pre, n, post)" by (cases t)
    from spec_fit_Some [OF Some [unfolded t]]
    have bs: "bs = pre @ Free n # post" "round8 sz + 8 \<le> n" by auto
    have "blk_at a pre p b \<or> blk_at (a + bsizes pre + n) post p b"
      using assms by (auto simp: bs)
    then show ?thesis using assms(1) Some t place [OF bs(2)] by (auto simp: spec_malloc_def Let_def add.assoc)
  qed
qed

text \<open>
  A successful allocation puts a used block at the returned address, large enough, and its
  bytes were in no block in use.
\<close>

lemma spec_malloc_fresh:
  assumes "spec_malloc lim a bs sz = (Some p, bs')" "list_all wf_blk bs"
  shows "\<exists>n s. blk_at a bs' p (Used n s) \<and> sz + 8 + s \<le> n \<and>
           {p - 8..<p + (n - 8)} \<inter> busy a bs = {} \<and> 8 dvd p - a \<and> a + 8 \<le> p"
proof -
  have sz: "sz \<noteq> 0"
  proof
    assume "sz = 0"
    with assms(1) show False by (simp add: spec_malloc_def)
  qed
  let ?need = "round8 sz + 8" and ?slop = "round8 sz - sz"
  note r = round8_facts [of sz]
  show ?thesis
  proof (cases "spec_fit ?need bs")
    case None
    with assms(1) sz have p: "p = a + bsizes bs + 8" and bs': "bs' = bs @ [Used ?need ?slop]"
      by (auto simp: spec_malloc_def Let_def split: if_splits)
    have "8 dvd bsizes bs" using assms(2) by (rule wf_bsizes_dvd)
    then show ?thesis using r p busy_range [of _ a bs]
      by (intro exI [of _ ?need] exI [of _ ?slop]) (force simp: bs')
  next
    case (Some t)
    obtain pre n post where t: "t = (pre, n, post)" by (cases t)
    from spec_fit_Some [OF Some [unfolded t]] have bs: "bs = pre @ Free n # post" "?need \<le> n" by auto
    from assms(1) sz Some t have p: "p = a + bsizes pre + 8"
      and bs': "bs' = pre @ spec_place ?need ?slop n @ post" by (auto simp: spec_malloc_def Let_def)
    have d: "8 dvd bsizes pre" using assms(2) bs wf_bsizes_dvd [of pre] by simp
    have out: "x \<notin> busy a bs" if "a + bsizes pre \<le> x" "x < a + bsizes pre + n" for x
      using that busy_range [of x a pre] busy_range [of x "a + bsizes pre + n" post]
      by (auto simp: bs)
    show ?thesis
    proof (cases "16 \<le> n - ?need")
      case True
      then show ?thesis using r p out bs(2) d
        by (intro exI [of _ ?need] exI [of _ ?slop]) (auto simp: bs' spec_place_def)
    next
      case False
      then show ?thesis using r p out bs(2) d
        by (intro exI [of _ n] exI [of _ "n - ?need"]) (auto simp: bs' spec_place_def)
    qed
  qed
qed

text \<open>
  What \<^verbatim>\<open>realloc\<close> of a live block promises: the new pointer and blocks, the old contents up
  to the smaller of the two sizes, and no other live byte changed.
\<close>

definition realloc_post :: "('os \<Rightarrow> u64) \<Rightarrow> ('os \<Rightarrow> bool) \<Rightarrow> 'os heap \<Rightarrow> blk list \<Rightarrow> nat \<Rightarrow> nat \<Rightarrow>
     nat option \<times> blk list \<Rightarrow> addr \<times> 'os heap \<Rightarrow> bool" where
  "realloc_post brk okos s bs p keep spec r \<longleftrightarrow>
     (case fst spec of
        None \<Rightarrow> fst r = NULL \<and> heap_ok brk okos (snd r) (snd spec)
      | Some q \<Rightarrow> fst r = of_nat q \<and>
          heap_ok brk okos (snd r) (set_blk free_blk p (heap_base brk s) (snd spec)) \<and>
          (\<forall>i < keep. umem (snd r) (of_nat (q + i)) = umem s (of_nat (p + i)))) \<and>
     heap_base brk (snd r) = heap_base brk s \<and>
     (\<forall>x \<in> busy (heap_base brk s) bs - {p - 8}. umem (snd r) (of_nat x) = umem s (of_nat x))"

section \<open>Writing a payload, changing a state byte\<close>

context break_provider
begin

lemma heap_ok_layout:
  assumes "heap_ok brk okos s bs"
  shows "layout (umem s) (heap_base brk s) bs" "list_all wf_blk bs"
    "heap_base brk s + bsizes bs < 2 ^ 31"
  using assms heap_end_bound [OF assms] limit_bound
  by (auto simp: heap_ok_def heap_base_def)

lemma heap_ok_initialized: "heap_ok brk okos s bs \<Longrightarrow> blk_at a bs p b \<Longrightarrow> initialized s"
  by (auto simp: heap_ok_def split: if_splits)

lemma heap_ok_upd:
  assumes "heap_ok brk okos s bs" "initialized s" "bsizes bs' = bsizes bs"
    and "list_all wf_blk bs'" "layout m (heap_base brk s) bs'"
  shows "heap_ok brk okos (s\<lparr>umem := m\<rparr>) bs'" "heap_base brk (s\<lparr>umem := m\<rparr>) = heap_base brk s"
  using assms by (auto simp: heap_ok_def heap_base_def)

lemma write_payload:
  assumes ok: "heap_ok brk okos s bs" and b: "blk_at (heap_base brk s) bs p b"
    and m: "\<And>x. x < 2 ^ 64 \<Longrightarrow> x < p \<or> p + (bsize b - 8) \<le> x \<Longrightarrow> m (of_nat x) = umem s (of_nat x)"
  shows "heap_ok brk okos (s\<lparr>umem := m\<rparr>) bs"
proof (rule heap_ok_upd(1) [OF ok heap_ok_initialized [OF ok b] refl])
  note L = heap_ok_layout [OF ok]
  show "list_all wf_blk bs" by (rule L(2))
  show "layout m (heap_base brk s) bs"
  proof (rule layout_cong [OF L(1) _ L(2)])
    show "heap_base brk s + bsizes bs \<le> 2 ^ 64" using L(3) by simp
    fix x assume x: "x \<in> hdrs (heap_base brk s) bs"
    then have "x < p \<or> p + (bsize b - 8) \<le> x" using payload_not_hdr [OF b L(2), of x] by fastforce
    moreover have "x < 2 ^ 64" using hdrs_range [OF L(2) x] L(3) by simp
    ultimately show "m (of_nat x) = umem s (of_nat x)" using m by blast
  qed
qed

lemma mark_block:
  assumes ok: "heap_ok brk okos s (pre @ b # post)"
    and b': "bsize b' = bsize b" "wf_blk b'"
    and at: "block_at (set_state (umem s) (of_nat (heap_base brk s + bsizes pre)) v)
               (heap_base brk s + bsizes pre) b'"
  shows "heap_ok brk okos
    (s\<lparr>umem := set_state (umem s) (of_nat (heap_base brk s + bsizes pre)) v\<rparr>) (pre @ b' # post)"
proof (rule heap_ok_upd(1) [OF ok])
  note L = heap_ok_layout [OF ok]
  let ?a = "heap_base brk s" and ?m = "set_state (umem s) (of_nat (heap_base brk s + bsizes pre)) v"
  show "initialized s" using ok by (auto simp: heap_ok_def split: if_splits)
  show "bsizes (pre @ b' # post) = bsizes (pre @ b # post)" using b' by simp
  show "list_all wf_blk (pre @ b' # post)" using b' L(2) by simp
  have w: "16 \<le> bsize b" using L(2) wf_blk_size [of b] by simp
  have same: "?m (of_nat x) = umem s (of_nat x)" if "x \<noteq> ?a + bsizes pre" "x < 2 ^ 64" for x
    using that L(3) by (intro set_state_outside) auto
  have "layout ?m ?a pre"
  proof (rule layout_frame [of "umem s"])
    show "?m (of_nat x) = umem s (of_nat x)" if "?a \<le> x" "x < ?a + bsizes pre" for x
      using that L(3) by (intro same) auto
  qed (use L in auto)
  moreover have "layout ?m (?a + bsizes pre + bsize b) post"
  proof (rule layout_frame [of "umem s"])
    show "?m (of_nat x) = umem s (of_nat x)"
      if "?a + bsizes pre + bsize b \<le> x" "x < ?a + bsizes pre + bsize b + bsizes post" for x
      using that L(3) w by (intro same) auto
  qed (use L in \<open>auto simp: add.assoc\<close>)
  ultimately show "layout ?m ?a (pre @ b' # post)" using at b' by (simp add: add.assoc)
qed

section \<open>free\<close>

lemma header_of_nat: "8 \<le> p \<Longrightarrow> header_of (of_nat p) = of_nat (p - 8)"
  by (simp add: header_of_def sizeof_header_def of_nat_diff)

lemma blk_at_ge: "blk_at a bs p b \<Longrightarrow> a + 8 \<le> p"
  using blk_at_split by fastforce

lemma blk_at_less: "blk_at a bs p b \<Longrightarrow> list_all wf_blk bs \<Longrightarrow> p + (bsize b - 8) \<le> a + bsizes bs"
  using blk_at_split [of a bs p b] wf_blk_size [of b] by fastforce

lemma blk_at_ptr:
  assumes "heap_ok brk okos s bs" "blk_at (heap_base brk s) bs p b"
  shows "(of_nat p :: u64) \<noteq> NULL" "p < 2 ^ 31" "8 \<le> p"
proof -
  note L = heap_ok_layout [OF assms(1)]
  show p: "p < 2 ^ 31" "8 \<le> p"
    using blk_at_less [OF assms(2) L(2)] blk_at_ge [OF assms(2)] L(3) by auto
  then show "(of_nat p :: u64) \<noteq> NULL" using of_nat_neq64 [of p 0] by simp
qed

lemma free_refines:
  assumes ok: "heap_ok brk okos s bs" and b: "blk_at (heap_base brk s) bs p b"
  shows "heap_ok brk okos (free s (of_nat p)) (set_blk free_blk p (heap_base brk s) bs)"
    and "x < 2 ^ 64 \<Longrightarrow> x \<noteq> p - 8 \<Longrightarrow> umem (free s (of_nat p)) (of_nat x) = umem s (of_nat x)"
    and "heap_base brk (free s (of_nat p)) = heap_base brk s"
proof -
  let ?a = "heap_base brk s"
  obtain pre post where bs: "bs = pre @ b # post" and p: "p = ?a + bsizes pre + 8"
    using blk_at_split [OF b] by blast
  note L = heap_ok_layout [OF ok] and P = blk_at_ptr [OF ok b]
  have w: "wf_blk b" "list_all wf_blk pre" using L(2) by (auto simp: bs)
  have fr: "free s (of_nat p) = s\<lparr>umem := set_state (umem s) (of_nat (?a + bsizes pre)) BLOCK_FREE\<rparr>"
    using P header_of_nat [OF P(3)] p by (simp add: free_def)
  have "block_at (umem s) (?a + bsizes pre) b" using L(1) by (simp add: bs)
  then have at: "block_at (set_state (umem s) (of_nat (?a + bsizes pre)) BLOCK_FREE)
      (?a + bsizes pre) (Free (bsize b))"
    by (simp add: block_at_def Let_def mem_simps)
  have "wf_blk (Free (bsize b))" using w(1) wf_blk_size wf_blk_dvd by simp
  then have "heap_ok brk okos (s\<lparr>umem := set_state (umem s) (of_nat (?a + bsizes pre)) BLOCK_FREE\<rparr>)
      (pre @ Free (bsize b) # post)"
    using at by (intro mark_block [OF ok [unfolded bs]]) simp_all
  moreover have "set_blk free_blk p ?a bs = pre @ Free (bsize b) # post"
    using set_blk_split [OF w(2)] by (simp add: bs p)
  ultimately show "heap_ok brk okos (free s (of_nat p)) (set_blk free_blk p ?a bs)"
    by (simp only: fr)
  show "umem (free s (of_nat p)) (of_nat x) = umem s (of_nat x)" if "x < 2 ^ 64" "x \<noteq> p - 8"
  proof -
    have "set_state (umem s) (of_nat (?a + bsizes pre)) BLOCK_FREE (of_nat x) = umem s (of_nat x)"
      using that P p by (intro set_state_outside) auto
    then show ?thesis by (simp add: fr)
  qed
  show "heap_base brk (free s (of_nat p)) = ?a"
    using heap_ok_initialized [OF ok b] by (simp add: fr heap_base_def)
qed

section \<open>calloc\<close>

lemma calloc_overflow:
  assumes "2 ^ 64 \<le> unat num * unat sz"
  shows "calloc sbrk s num sz = Some (NULL, s)"
proof -
  have "unat sz \<noteq> 0"
  proof
    assume "unat sz = 0"
    with assms show False by simp
  qed
  have "unat (- 1 div sz) = (2 ^ 64 - 1) div unat sz"
    by (simp add: unat_div unsigned_minus_1_eq_mask mask_eq_exp_minus_1)
  moreover have "(2 ^ 64 - 1) div unat sz < unat num"
    using assms \<open>unat sz \<noteq> 0\<close> by (subst div_less_iff_less_mult) simp_all
  ultimately have "num > - 1 div sz" by (simp add: word_less_nat_alt)
  then show ?thesis by (simp add: calloc_def)
qed

lemma calloc_no_overflow:
  assumes "unat num * unat sz < 2 ^ 64" "num \<noteq> 0" "sz \<noteq> 0"
  shows "calloc sbrk s num sz = do {
    (ptr, s) \<leftarrow> malloc sbrk s (num * sz);
    Some (if ptr \<noteq> NULL then (ptr, s\<lparr>umem := snd (memset (umem s) ptr 0 (num * sz))\<rparr>) else (ptr, s)) }"
proof -
  have "0 < unat sz" using assms(3) by (simp add: unat_gt_0)
  have "unat (- 1 div sz) = (2 ^ 64 - 1) div unat sz"
    by (simp add: unat_div unsigned_minus_1_eq_mask mask_eq_exp_minus_1)
  moreover have "unat num \<le> (2 ^ 64 - 1) div unat sz"
    using assms(1) \<open>0 < unat sz\<close> by (simp add: less_eq_div_iff_mult_less_eq)
  ultimately have "\<not> num > - 1 div sz" by (simp add: word_less_nat_alt)
  then show ?thesis using assms(2,3) unfolding calloc_def Let_def by simp
qed

lemma malloc_result:
  assumes ok: "heap_ok brk okos s bs" and sz: "unat sz + 16 \<le> 2 ^ 63"
    and sp: "spec_malloc limit (heap_base brk s) bs (unat sz) = (res, bs1)"
  obtains s1 where "malloc sbrk s sz = Some (case res of None \<Rightarrow> NULL | Some p \<Rightarrow> of_nat p, s1)"
    "heap_ok brk okos s1 bs1" "heap_base brk s1 = heap_base brk s"
    "\<And>x. x \<in> busy (heap_base brk s) bs \<Longrightarrow> umem s1 (of_nat x) = umem s (of_nat x)"
  using malloc_refines [OF ok sz] sp by (auto simp: alloc_post_def)

lemma calloc_refines:
  assumes ok: "heap_ok brk okos s bs" and sz: "unat num * unat sz + 16 \<le> 2 ^ 63"
  shows "\<exists>r. calloc sbrk s num sz = Some r \<and>
    alloc_post brk okos s bs (spec_malloc limit (heap_base brk s) bs (unat num * unat sz)) r \<and>
    (fst r \<noteq> NULL \<longrightarrow> (\<forall>i < unat num * unat sz. umem (snd r) (fst r + of_nat i) = 0))"
proof (cases "num = 0 \<or> sz = 0")
  case True
  then have z: "unat num * unat sz = 0" by auto
  then show ?thesis using True ok by (auto simp: calloc_def alloc_post_def spec_malloc_def)
next
  case False
  let ?a = "heap_base brk s"
  have t: "unat (num * sz) = unat num * unat sz"
    using sz by (subst unat_mult_lem [THEN iffD1]) simp_all
  obtain res bs1 where sp: "spec_malloc limit ?a bs (unat (num * sz)) = (res, bs1)" by fastforce
  have sz': "unat (num * sz) + 16 \<le> 2 ^ 63" using sz t by simp
  obtain s1 where m: "malloc sbrk s (num * sz) = Some (case res of None \<Rightarrow> NULL | Some p \<Rightarrow> of_nat p, s1)"
    and ok1: "heap_ok brk okos s1 bs1" and b1: "heap_base brk s1 = ?a"
    and fr: "\<And>x. x \<in> busy ?a bs \<Longrightarrow> umem s1 (of_nat x) = umem s (of_nat x)"
    using malloc_result [OF ok sz' sp] by blast
  have c: "calloc sbrk s num sz = do {
      (ptr, s) \<leftarrow> malloc sbrk s (num * sz);
      Some (if ptr \<noteq> NULL then (ptr, s\<lparr>umem := snd (memset (umem s) ptr 0 (num * sz))\<rparr>) else (ptr, s)) }"
    using False sz by (intro calloc_no_overflow) auto
  show ?thesis
  proof (cases res)
    case None
    then show ?thesis using m ok1 b1 fr sp t by (simp add: c alloc_post_def)
  next
    case (Some p)
    obtain n sl where b: "blk_at ?a bs1 p (Used n sl)" and n: "unat (num * sz) + 8 + sl \<le> n"
      and fresh: "{p - 8..<p + (n - 8)} \<inter> busy ?a bs = {}"
      using spec_malloc_fresh [OF sp [unfolded Some] heap_ok_layout(2) [OF ok]] by blast
    note P = blk_at_ptr [OF ok1 b [folded b1]]
    have pn: "p + (n - 8) < 2 ^ 31"
      using blk_at_less [OF b heap_ok_layout(2) [OF ok1]] heap_ok_layout(3) [OF ok1] b1 by simp
    let ?m = "snd (memset (umem s1) (of_nat p) 0 (num * sz))"
    have ap: "?m (of_nat x) = (if p \<le> x \<and> x < p + unat (num * sz) then 0 else umem s1 (of_nat x))"
      if "x < 2 ^ 64" for x
      using that n pn P region_of_nat [of p "unat (num * sz)" x] by (simp add: memset_apply)
    have "heap_ok brk okos (s1\<lparr>umem := ?m\<rparr>) bs1"
      using n by (intro write_payload [OF ok1 b [folded b1]]) (auto simp: ap)
    moreover have "heap_base brk (s1\<lparr>umem := ?m\<rparr>) = ?a" using b1 by simp
    moreover have "?m (of_nat x) = umem s (of_nat x)" if x: "x \<in> busy ?a bs" for x
    proof -
      have "x \<notin> {p - 8..<p + (n - 8)}" using x fresh by blast
      moreover have "x < 2 ^ 64" using busy_range [OF x] heap_ok_layout(3) [OF ok] by simp
      ultimately show ?thesis using fr [OF x] n by (auto simp: ap)
    qed
    moreover have "?m (of_nat p + of_nat i) = 0" if "i < unat num * unat sz" for i
      using ap [of "p + i"] that pn n t by simp
    ultimately show ?thesis using m P sp Some t by (auto simp: c alloc_post_def)
  qed
qed

section \<open>realloc\<close>

lemma old_usable:
  assumes ok: "heap_ok brk okos s bs" and b: "blk_at (heap_base brk s) bs p (Used n sl)"
  shows "unat (ucast (h_size (umem s) (header_of (of_nat p))) - sizeof_header
           - ucast (h_slop (umem s) (header_of (of_nat p))) :: u64) = n - 8 - sl"
proof -
  let ?a = "heap_base brk s"
  obtain pre post where bs: "bs = pre @ Used n sl # post" and p: "p = ?a + bsizes pre + 8"
    using blk_at_split [OF b] by blast
  note L = heap_ok_layout [OF ok] and P = blk_at_ptr [OF ok b]
  have h: "header_of (of_nat p) = of_nat (?a + bsizes pre)" using header_of_nat [OF P(3)] p by simp
  have "block_at (umem s) (?a + bsizes pre) (Used n sl)" using L(1) by (simp add: bs)
  then have "unat (h_size (umem s) (header_of (of_nat p))) = n"
    "unat (h_slop (umem s) (header_of (of_nat p))) = sl"
    unfolding h by (simp_all only: block_at_def Let_def) simp_all
  moreover have "16 \<le> n" "sl + 8 < n" using L(2) by (auto simp: bs)
  ultimately show ?thesis by (simp add: sizeof_header_def to_nat)
qed

lemma ranges_apart:
  assumes "\<And>i j. i < k \<Longrightarrow> j < k \<Longrightarrow> q + i \<noteq> p + j" "q + k \<le> 2 ^ 31" "p + k \<le> 2 ^ 31"
  shows "region (of_nat q) k \<inter> region (of_nat p) k = {}"
proof (rule equals0I)
  fix x :: u64 assume "x \<in> region (of_nat q) k \<inter> region (of_nat p) k"
  then have "\<exists>i<k. unat x = q + i" "\<exists>i<k. unat x = p + i"
    using assms(2,3) by (auto intro!: region_offset)
  then show False using assms(1) by metis
qed

text \<open>The copy of \<^verbatim>\<open>realloc\<close>: from live bytes at \<open>p\<close> into the payload of the fresh block at \<open>q\<close>.\<close>

lemma copy_into_fresh:
  assumes ok: "heap_ok brk okos s bs" and q: "blk_at (heap_base brk s) bs q (Used n sl)"
    and k: "unat k + 8 \<le> n" "p + unat k \<le> 2 ^ 31"
    and apart: "\<forall>i < unat k. \<forall>j < unat k. q + i \<noteq> p + j"
  defines "m \<equiv> snd (memcpy (umem s) (of_nat q) (of_nat p) k)"
  shows "heap_ok brk okos (s\<lparr>umem := m\<rparr>) bs"
    and "i < unat k \<Longrightarrow> m (of_nat (q + i)) = umem s (of_nat (p + i))"
    and "x < 2 ^ 64 \<Longrightarrow> x < q \<or> q + unat k \<le> x \<Longrightarrow> m (of_nat x) = umem s (of_nat x)"
proof -
  note L = heap_ok_layout [OF ok]
  have qn: "q + unat k \<le> 2 ^ 31" using blk_at_less [OF q L(2)] L(3) k(1) by simp
  have out: "m (of_nat x) = umem s (of_nat x)" if "x < 2 ^ 64" "x < q \<or> q + unat k \<le> x" for x
    unfolding m_def using that qn region_of_nat [of q "unat k" x] by (intro memcpy_other) auto
  then show "x < 2 ^ 64 \<Longrightarrow> x < q \<or> q + unat k \<le> x \<Longrightarrow> m (of_nat x) = umem s (of_nat x)" by blast
  show "heap_ok brk okos (s\<lparr>umem := m\<rparr>) bs"
    using k(1) by (intro write_payload [OF ok q] out) auto
  show "m (of_nat (q + i)) = umem s (of_nat (p + i))" if "i < unat k"
  proof -
    have "region (of_nat q) (unat k) \<inter> region (of_nat p) (unat k) = {}"
      by (rule ranges_apart [OF _ qn k(2)]) (use apart in blast)
    from memcpy_apply [OF this that, of "umem s"] show ?thesis unfolding m_def by simp
  qed
qed

text \<open>The block \<open>q\<close> lies in bytes that were free, so it misses every live block.\<close>

lemma fresh_apart:
  assumes "{q - 8..<q + (n - 8)} \<inter> busy a bs = {}" "x \<in> busy a bs" "k + 8 \<le> n"
  shows "x < q - 8 \<or> q + k \<le> x"
proof (rule ccontr)
  assume "\<not> (x < q - 8 \<or> q + k \<le> x)"
  then have "x \<in> {q - 8..<q + (n - 8)}" using assms(3) by auto
  with assms(1,2) show False by blast
qed

lemma realloc_moves:
  assumes ok: "heap_ok brk okos s bs" and p: "blk_at (heap_base brk s) bs p (Used n sl)"
    and ok1: "heap_ok brk okos s1 bs1" "heap_base brk s1 = heap_base brk s"
    and fr: "\<And>x. x \<in> busy (heap_base brk s) bs \<Longrightarrow> umem s1 (of_nat x) = umem s (of_nat x)"
    and p1: "blk_at (heap_base brk s) bs1 p (Used n sl)"
    and q: "blk_at (heap_base brk s) bs1 q (Used n' sl')"
    and fresh: "{q - 8..<q + (n' - 8)} \<inter> busy (heap_base brk s) bs = {}"
    and k: "unat k + 8 \<le> n'" "unat k \<le> n - 8 - sl"
  defines "s2 \<equiv> s1\<lparr>umem := snd (memcpy (umem s1) (of_nat q) (of_nat p) k)\<rparr>"
  shows "heap_ok brk okos (free s2 (of_nat p)) (set_blk free_blk p (heap_base brk s) bs1)"
    and "heap_base brk (free s2 (of_nat p)) = heap_base brk s"
    and "i < unat k \<Longrightarrow> umem (free s2 (of_nat p)) (of_nat (q + i)) = umem s (of_nat (p + i))"
    and "x \<in> busy (heap_base brk s) bs - {p - 8} \<Longrightarrow> umem (free s2 (of_nat p)) (of_nat x) = umem s (of_nat x)"
proof -
  let ?a = "heap_base brk s"
  note L = heap_ok_layout [OF ok] and P = blk_at_ptr [OF ok p] and L1 = heap_ok_layout [OF ok1(1)]
  have qn: "q + (n' - 8) < 2 ^ 31" "p + (n - 8) < 2 ^ 31"
    using blk_at_less [OF q L1(2)] blk_at_less [OF p L(2)] L1(3) L(3) ok1(2) by auto
  have wn: "sl + 8 < n" using blk_at_split [OF p] L(2) by auto
  have pbusy: "p + i \<in> busy ?a bs" if "i < n - 8" for i
    using payload_busy [OF p _ L(2), of "p + i"] that by simp
  have hbusy: "p - 8 \<in> busy ?a bs" using payload_busy [OF p _ L(2), of "p - 8"] P(3) wn by simp
  have apart: "\<forall>i < unat k. \<forall>j < unat k. q + i \<noteq> p + j"
  proof (intro allI impI)
    fix i j assume ij: "i < unat k" "j < unat k"
    then have j: "j < n - 8" using k(2) by simp
    show "q + i \<noteq> p + j" using fresh_apart [OF fresh pbusy [OF j] k(1)] ij by auto
  qed
  have pk: "p + unat k \<le> 2 ^ 31" using qn k by simp
  note C = copy_into_fresh [OF ok1(1) q [folded ok1(2)] k(1) pk apart]
  have ok2: "heap_ok brk okos s2 bs1" and p2: "blk_at (heap_base brk s2) bs1 p (Used n sl)"
    using C(1) p1 ok1(2) by (simp_all add: s2_def)
  note F = free_refines [OF ok2 p2]
  show "heap_ok brk okos (free s2 (of_nat p)) (set_blk free_blk p ?a bs1)"
    "heap_base brk (free s2 (of_nat p)) = ?a" using F(1,3) ok1(2) by (simp_all add: s2_def)
  show "umem (free s2 (of_nat p)) (of_nat (q + i)) = umem s (of_nat (p + i))" if i: "i < unat k"
  proof -
    have "q + i \<noteq> p - 8" using fresh_apart [OF fresh hbusy k(1)] i by auto
    then have "umem (free s2 (of_nat p)) (of_nat (q + i)) = umem s2 (of_nat (q + i))"
      using qn k(1) i by (intro F(2)) simp_all
    also have "\<dots> = umem s (of_nat (p + i))" using C(2) [OF i] fr [OF pbusy, of i] i k(2) by (simp add: s2_def)
    finally show ?thesis .
  qed
  show "umem (free s2 (of_nat p)) (of_nat x) = umem s (of_nat x)" if x: "x \<in> busy ?a bs - {p - 8}"
  proof -
    have b: "x \<in> busy ?a bs" "x < 2 ^ 64" using x busy_range [of x ?a bs] L(3) by auto
    have "x < q \<or> q + unat k \<le> x" using fresh_apart [OF fresh b(1) k(1)] by auto
    then show ?thesis using F(2) [OF b(2)] C(3) [OF b(2)] fr [OF b(1)] x by (simp add: s2_def)
  qed
qed

lemma realloc_refines:
  assumes ok: "heap_ok brk okos s bs" and b: "blk_at (heap_base brk s) bs p (Used n sl)"
    and sz: "sz \<noteq> 0" "unat sz + 16 \<le> 2 ^ 63"
  shows "\<exists>r. realloc sbrk s (of_nat p) sz = Some r \<and>
    realloc_post brk okos s bs p (min (n - 8 - sl) (unat sz))
      (spec_malloc limit (heap_base brk s) bs (unat sz)) r"
proof -
  let ?a = "heap_base brk s"
  define k :: u64 where "k = (let u = ucast (h_size (umem s) (header_of (of_nat p))) - sizeof_header
           - ucast (h_slop (umem s) (header_of (of_nat p))) in if u < sz then u else sz)"
  have k: "unat k = min (n - 8 - sl) (unat sz)"
    using old_usable [OF ok b] by (auto simp: k_def Let_def word_less_nat_alt)
  note P = blk_at_ptr [OF ok b] and L = heap_ok_layout [OF ok]
  have rl: "realloc sbrk s (of_nat p) sz = do {
      (new_ptr, s) \<leftarrow> malloc sbrk s sz;
      if new_ptr = NULL then Some (NULL, s)
      else Some (new_ptr, free (s\<lparr>umem := snd (memcpy (umem s) new_ptr (of_nat p) k)\<rparr>) (of_nat p)) }"
    unfolding realloc_def Let_def k_def using P(1) sz(1) by simp
  obtain res bs1 where sp: "spec_malloc limit ?a bs (unat sz) = (res, bs1)" by fastforce
  obtain s1 where m: "malloc sbrk s sz = Some (case res of None \<Rightarrow> NULL | Some p \<Rightarrow> of_nat p, s1)"
    and ok1: "heap_ok brk okos s1 bs1" and b1: "heap_base brk s1 = ?a"
    and fr: "\<And>x. x \<in> busy ?a bs \<Longrightarrow> umem s1 (of_nat x) = umem s (of_nat x)"
    using malloc_result [OF ok sz(2) sp] by blast
  show ?thesis
  proof (cases res)
    case None
    then show ?thesis using m ok1 b1 fr sp by (auto simp: rl realloc_post_def)
  next
    case (Some q)
    obtain n' sl' where q: "blk_at ?a bs1 q (Used n' sl')" and n': "unat sz + 8 + sl' \<le> n'"
      and fresh: "{q - 8..<q + (n' - 8)} \<inter> busy ?a bs = {}"
      using spec_malloc_fresh [OF sp [unfolded Some] L(2)] by blast
    have pb: "blk_at ?a bs1 p (Used n sl)"
      using spec_malloc_keeps [OF b, of limit "unat sz"] sp by simp
    have kn: "unat k + 8 \<le> n'" "unat k \<le> n - 8 - sl" using k n' by auto
    note M = realloc_moves [OF ok b ok1 b1 fr pb q fresh kn]
    show ?thesis
      using m Some sp blk_at_ptr(1) [OF ok1 q [folded b1]] M k by (auto simp: rl realloc_post_def)
  qed
qed

end

end
