(* ===== verification/Heap_Defrag.thy ===== *)
theory Heap_Defrag
  imports Heap_Ops
begin

text \<open>
  \<^verbatim>\<open>defrag\<close>: the nested walk of \<open>Malloc.defrag_loop\<close> terminates on a well-formed heap and
  merges exactly the runs of adjacent free blocks; blocks in use keep every byte.
\<close>

primrec is_free :: "blk \<Rightarrow> bool" where
  "is_free (Free n) \<longleftrightarrow> True"
| "is_free (Internal n s) \<longleftrightarrow> False"
| "is_free (Used n s) \<longleftrightarrow> False"

text \<open>No two neighbours are both free.\<close>

fun no_adjacent_free :: "blk list \<Rightarrow> bool" where
  "no_adjacent_free (b # c # bs) \<longleftrightarrow> \<not> (is_free b \<and> is_free c) \<and> no_adjacent_free (c # bs)"
| "no_adjacent_free _ \<longleftrightarrow> True"

definition free_total :: "blk list \<Rightarrow> nat" where
  "free_total bs = bsizes (filter is_free bs)"

section \<open>The specification merges runs\<close>

lemma bsizes_spec_defrag: "bsizes (spec_defrag bs) = bsizes bs"
  by (induction bs rule: spec_defrag.induct) (auto split: list.splits blk.splits)

lemma wf_spec_defrag: "list_all wf_blk bs \<Longrightarrow> list_all wf_blk (spec_defrag bs)"
  by (induction bs rule: spec_defrag.induct) (auto split: list.splits blk.splits)

lemma no_adjacent_spec_defrag: "no_adjacent_free (spec_defrag bs)"
proof (induction bs)
  case (Cons b bs)
  show ?case
  proof (cases b)
    case (Free n)
    with Cons show ?thesis by (cases "spec_defrag bs" rule: no_adjacent_free.cases)
        (auto split: list.splits blk.splits)
  next
    case (Internal n s)
    with Cons show ?thesis by (cases "spec_defrag bs") auto
  next
    case (Used n s)
    with Cons show ?thesis by (cases "spec_defrag bs") auto
  qed
qed simp

lemma free_total_spec_defrag: "free_total (spec_defrag bs) = free_total bs"
  by (induction bs rule: spec_defrag.induct) (auto simp: free_total_def split: list.splits blk.splits)

lemma in_use_spec_defrag: "filter in_use (spec_defrag bs) = filter in_use bs"
  by (induction bs rule: spec_defrag.induct) (auto split: list.splits blk.splits)

lemma blk_at_spec_defrag: "in_use b \<Longrightarrow> blk_at a (spec_defrag bs) p b \<longleftrightarrow> blk_at a bs p b"
proof (induction bs arbitrary: a rule: spec_defrag.induct)
  case (2 n bs)
  show ?case
  proof (cases "spec_defrag bs")
    case Nil
    then show ?thesis using "2.IH" [of "a + n"] "2.prems" by auto
  next
    case (Cons c cs)
    then show ?thesis using "2.IH" [of "a + n"] "2.prems" by (cases c) (auto simp: add.assoc)
  qed
qed auto

lemma spec_defrag_run:
  assumes "list_all is_free fs" "rest = [] \<or> \<not> is_free (hd rest)"
  shows "spec_defrag (Free n # fs @ rest) = Free (n + bsizes fs) # spec_defrag rest"
  using assms(1)
proof (induction fs arbitrary: n)
  case Nil
  show ?case
  proof (cases rest)
    case (Cons c cs)
    with assms(2) show ?thesis by (cases c) auto
  qed simp
next
  case (Cons f fs)
  then show ?case by (cases f) (auto simp: add.assoc)
qed

section \<open>The loops\<close>

lemma free_run_spec:
  assumes "layout m a bs" "list_all wf_blk bs" "unat heap_end = a + bsizes bs"
  shows "free_run m heap_end (of_nat a) = Some (of_nat (a + bsizes (takeWhile is_free bs)))"
  using assms
proof (induction bs arbitrary: a)
  case Nil
  then have "\<not> (of_nat a :: u64) < heap_end" by (simp add: cursor_less [of heap_end a 0])
  then show ?case by (simp add: free_run.simps [of m])
next
  case (Cons b bs)
  have b: "block_at m a b" and w: "16 \<le> bsize b" using Cons.prems wf_blk_size [of b] by auto
  have lt: "(of_nat a :: u64) < heap_end"
    using w Cons.prems(3) by (simp add: cursor_less [of heap_end a "bsizes (b # bs)"])
  have e: "unat heap_end = a + bsize b + bsizes bs" using Cons.prems(3) by simp
  have nx: "(of_nat a :: u64) + ucast (h_size m (of_nat a)) = of_nat (a + bsize b)"
    using b e unat_u64_less [of heap_end] by (intro next_header) auto
  have IH: "free_run m heap_end (of_nat (a + bsize b))
      = Some (of_nat (a + bsize b + bsizes (takeWhile is_free bs)))"
    by (rule Cons.IH [OF _ _ e]) (use Cons.prems in auto)
  have f: "h_state m (of_nat a) = BLOCK_FREE \<longleftrightarrow> is_free b"
    using block_at_free_iff [OF b] by (cases b) auto
  have "free_run m heap_end (of_nat a) = (if is_free b
      then free_run m heap_end (of_nat (a + bsize b)) else Some (of_nat a))"
    using lt f by (subst free_run.simps) (simp only: nx simp_thms)
  then show ?case by (simp only: IH) (simp add: add.assoc)
qed

text \<open>Enlarging a free block over the free blocks that follow it.\<close>

lemma merge_layout:
  assumes lay: "layout m a (Free n # fs @ rest)" and wf: "list_all wf_blk (Free n # fs @ rest)"
    and e: "a + n + bsizes fs + bsizes rest < 2 ^ 31"
  defines "m' \<equiv> set_size m (of_nat a) (of_nat (n + bsizes fs))"
  shows "block_at m' a (Free (n + bsizes fs))" "layout m' (a + n + bsizes fs) rest"
    and "x < 2 ^ 64 \<Longrightarrow> x < a \<or> a + 8 \<le> x \<Longrightarrow> m' (of_nat x) = m (of_nat x)"
proof -
  show frame: "m' (of_nat x) = m (of_nat x)" if "x < 2 ^ 64" "x < a \<or> a + 8 \<le> x" for x
    unfolding m'_def using that e by (intro set_size_outside) auto
  have "unat (of_nat (n + bsizes fs) :: u32) = n + bsizes fs" using e by (intro unat_of_nat32) simp
  then show "block_at m' a (Free (n + bsizes fs))"
    using lay by (simp only: m'_def block_at_def Let_def layout.simps header_rw) simp
  show "layout m' (a + n + bsizes fs) rest"
  proof (rule layout_frame [of m])
    show "m' (of_nat x) = m (of_nat x)"
      if "a + n + bsizes fs \<le> x" "x < a + n + bsizes fs + bsizes rest" for x
      using that e wf by (intro frame) auto
  qed (use lay wf e in \<open>auto simp: add.assoc\<close>)
qed

lemma busy_all_free: "list_all is_free fs \<Longrightarrow> busy a fs = {}"
  by (induction fs arbitrary: a) (auto split: blk.splits)

lemma defrag_step_free:
  assumes lay: "layout m a (Free n # fs @ rest)" "list_all wf_blk (Free n # fs @ rest)"
    and e: "unat heap_end = a + n + bsizes fs + bsizes rest" "a + n + bsizes fs + bsizes rest < 2 ^ 31"
    and fs: "list_all is_free fs" "rest = [] \<or> \<not> is_free (hd rest)"
  shows "\<exists>m1. defrag_loop m heap_end (of_nat a) = defrag_loop m1 heap_end (of_nat (a + n + bsizes fs)) \<and>
    block_at m1 a (Free (n + bsizes fs)) \<and> layout m1 (a + n + bsizes fs) rest \<and>
    (\<forall>x. x < 2 ^ 64 \<longrightarrow> x < a \<or> a + 8 \<le> x \<longrightarrow> m1 (of_nat x) = m (of_nat x))"
proof -
  let ?h = "of_nat a :: u64" and ?t = "n + bsizes fs"
  have b: "block_at m a (Free n)" using lay(1) by simp
  have n16: "16 \<le> n" using lay(2) by simp
  have lt: "?h < heap_end" using n16 e(1) by (simp add: cursor_less [of heap_end a "n + bsizes fs + bsizes rest"])
  have st: "h_state m ?h = BLOCK_FREE" using block_at_free_iff [OF b] by simp
  have nx: "?h + ucast (h_size m ?h) = of_nat (a + n)" using next_header [OF b] e(2) by simp
  have tw: "takeWhile is_free (fs @ rest) = fs"
    using fs by (cases rest) (auto simp: list_all_iff takeWhile_append)
  have "free_run m heap_end (of_nat (a + n)) = Some (of_nat (a + n + bsizes (takeWhile is_free (fs @ rest))))"
    by (rule free_run_spec) (use lay e in \<open>auto simp: add.assoc\<close>)
  then have run: "free_run m heap_end (of_nat (a + n)) = Some (of_nat (a + ?t))"
    by (simp only: tw add.assoc)
  define m1 where "m1 = (if of_nat (a + ?t) \<noteq> (of_nat (a + n) :: u64)
      then set_size m ?h (ucast (of_nat (a + ?t) - ?h :: u64)) else m)"
  have sz: "(ucast (of_nat (a + ?t) - ?h :: u64) :: u32) = of_nat ?t"
  proof -
    have "(of_nat (a + ?t) - ?h :: u64) = of_nat ?t" by simp
    moreover have "unat (of_nat ?t :: u64) = ?t" using e(2) by (intro unat_of_nat64) simp
    moreover have "unat (of_nat ?t :: u32) = ?t" using e(2) by (intro unat_of_nat32) simp
    ultimately show ?thesis using e(2) by (intro word_eq_unatI) (simp add: unat_ucast_64_32)
  qed
  note M = merge_layout [OF lay e(2)]
  have m1: "block_at m1 a (Free ?t)" "layout m1 (a + n + bsizes fs) rest"
    "\<And>x. x < 2 ^ 64 \<Longrightarrow> x < a \<or> a + 8 \<le> x \<Longrightarrow> m1 (of_nat x) = m (of_nat x)"
  proof -
    have "m1 = set_size m ?h (of_nat ?t) \<or> (m1 = m \<and> bsizes fs = 0)"
      using sz of_nat_neq64 [of "a + ?t" "a + n"] e(2) by (auto simp: m1_def)
    then show "block_at m1 a (Free ?t)" "layout m1 (a + n + bsizes fs) rest"
      "\<And>x. x < 2 ^ 64 \<Longrightarrow> x < a \<or> a + 8 \<le> x \<Longrightarrow> m1 (of_nat x) = m (of_nat x)"
      using M lay(1) by (auto simp: add.assoc)
  qed
  have nx1: "?h + ucast (h_size m1 ?h) = of_nat (a + n + bsizes fs)"
    using next_header [OF m1(1)] e(2) by (simp add: add.assoc)
  have "defrag_loop m heap_end ?h = defrag_loop m1 heap_end (?h + ucast (h_size m1 ?h))"
    using lt st by (subst defrag_loop.simps) (simp only: nx run m1_def if_True simp_thms bind.simps Let_def)
  then show ?thesis using m1 nx1 by (intro exI [of _ m1]) auto
qed

text \<open>What a run of the loop from the header at \<open>a\<close>, where the blocks \<open>bs\<close> start, achieves.\<close>

definition defrags :: "mem \<Rightarrow> addr \<Rightarrow> nat \<Rightarrow> blk list \<Rightarrow> bool" where
  "defrags m heap_end a bs \<longleftrightarrow>
     (\<exists>m'. defrag_loop m heap_end (of_nat a) = Some m' \<and> layout m' a (spec_defrag bs) \<and>
       (\<forall>x < 2 ^ 64. (x < a \<or> x \<in> busy a bs) \<longrightarrow> m' (of_nat x) = m (of_nat x)))"

lemma defrags_used:
  assumes lay: "block_at m a b" "16 \<le> bsize b" "\<not> is_free b"
    and e: "unat heap_end = a + bsize b + bsizes cs" "a + bsize b + bsizes cs < 2 ^ 31"
    and rest: "defrags m heap_end (a + bsize b) cs"
  shows "defrags m heap_end a (b # cs)"
proof -
  let ?h = "of_nat a :: u64"
  have lt: "?h < heap_end"
    using lay(2) e(1) by (simp add: cursor_less [of heap_end a "bsize b + bsizes cs"])
  have nx: "?h + ucast (h_size m ?h) = of_nat (a + bsize b)"
    using lay(1) e(1) unat_u64_less [of heap_end] by (intro next_header) auto
  have ne: "h_state m ?h \<noteq> BLOCK_FREE" using block_at_free_iff [OF lay(1)] lay(3) by (cases b) auto
  have "defrag_loop m heap_end ?h = defrag_loop m heap_end (of_nat (a + bsize b))"
    using lt ne by (subst defrag_loop.simps) (simp only: nx simp_thms if_True if_False)
  moreover obtain m' where m': "defrag_loop m heap_end (of_nat (a + bsize b)) = Some m'"
    "layout m' (a + bsize b) (spec_defrag cs)"
    "\<forall>x < 2 ^ 64. (x < a + bsize b \<or> x \<in> busy (a + bsize b) cs) \<longrightarrow> m' (of_nat x) = m (of_nat x)"
    using rest by (auto simp: defrags_def)
  moreover have "block_at m' a b"
    using m'(3) lay(1,2) e(2) by (intro block_at_cong [of a m' m b]) (auto simp: hdr_def)
  moreover have "spec_defrag (b # cs) = b # spec_defrag cs" using lay(3) by (cases b) auto
  ultimately show ?thesis using lay(2) by (auto simp: defrags_def split: blk.splits)
qed

lemma defrags_run:
  assumes lay: "layout m a (Free n # fs @ rest)" "list_all wf_blk (Free n # fs @ rest)"
    and e: "unat heap_end = a + n + bsizes fs + bsizes rest" "a + n + bsizes fs + bsizes rest < 2 ^ 31"
    and fs: "list_all is_free fs" and hd: "rest = [] \<or> \<not> is_free (hd rest)"
    and rest: "\<And>m1. layout m1 (a + n + bsizes fs) rest \<Longrightarrow> defrags m1 heap_end (a + n + bsizes fs) rest"
  shows "defrags m heap_end a (Free n # fs @ rest)"
proof -
  let ?r = "a + n + bsizes fs"
  obtain m1 where m1: "defrag_loop m heap_end (of_nat a) = defrag_loop m1 heap_end (of_nat ?r)"
    "block_at m1 a (Free (n + bsizes fs))" "layout m1 ?r rest"
    "\<And>x. x < 2 ^ 64 \<Longrightarrow> x < a \<or> a + 8 \<le> x \<Longrightarrow> m1 (of_nat x) = m (of_nat x)"
    using defrag_step_free [OF lay e fs hd] by blast
  obtain m' where m': "defrag_loop m1 heap_end (of_nat ?r) = Some m'"
    "layout m' ?r (spec_defrag rest)"
    "\<forall>x < 2 ^ 64. (x < ?r \<or> x \<in> busy ?r rest) \<longrightarrow> m' (of_nat x) = m1 (of_nat x)"
    using rest [OF m1(3)] unfolding defrags_def by blast
  have n16: "16 \<le> n" using lay(2) by simp
  have "block_at m' a (Free (n + bsizes fs))"
    using m'(3) n16 e(2) m1(2) by (intro block_at_cong [of a m' m1]) (auto simp: hdr_def)
  moreover have "busy a (Free n # fs @ rest) = busy ?r rest"
    using busy_all_free [OF fs] by (simp add: add.assoc)
  moreover have "m' (of_nat x) = m (of_nat x)" if "x < 2 ^ 64" "x < a \<or> x \<in> busy ?r rest" for x
    using that m'(3) m1(4) [of x] n16 busy_range [of x ?r rest] by auto
  ultimately show ?thesis
    using m1(1) m'(1,2) spec_defrag_run [OF fs hd] by (auto simp: defrags_def add.assoc)
qed

lemma defrag_loop_defrags:
  assumes "layout m a bs" "list_all wf_blk bs" "unat heap_end = a + bsizes bs" "a + bsizes bs < 2 ^ 31"
  shows "defrags m heap_end a bs"
  using assms
proof (induction bs arbitrary: a m rule: measure_induct_rule [of length])
  case (less bs)
  show ?case
  proof (cases bs)
    case Nil
    then have "\<not> (of_nat a :: u64) < heap_end"
      using less.prems(3) by (simp add: cursor_less [of heap_end a 0])
    then show ?thesis using Nil by (simp add: defrags_def defrag_loop.simps [of m])
  next
    case (Cons b cs)
    note P = less.prems [unfolded Cons]
    show ?thesis
    proof (cases "is_free b")
      case False
      have "defrags m heap_end (a + bsize b) cs" using P by (intro less.IH) (auto simp: Cons)
      then show ?thesis unfolding Cons
        using P False wf_blk_size [of b] by (intro defrags_used) auto
    next
      case True
      then obtain n where n: "b = Free n" by (cases b) auto
      define fs where "fs = takeWhile is_free cs"
      define rest where "rest = dropWhile is_free cs"
      have cs: "cs = fs @ rest" by (simp add: fs_def rest_def)
      have fs: "list_all is_free fs" unfolding fs_def by (auto simp: list_all_iff dest: set_takeWhileD)
      have hd: "rest = [] \<or> \<not> is_free (hd rest)" unfolding rest_def using hd_dropWhile [of is_free cs] by blast
      have "defrags m1 heap_end (a + n + bsizes fs) rest" if "layout m1 (a + n + bsizes fs) rest" for m1
        using P that by (intro less.IH) (auto simp: Cons n cs)
      then show ?thesis unfolding Cons n cs
        using P fs hd by (intro defrags_run) (auto simp: n cs)
    qed
  qed
qed

lemmas defrag_loop_spec = defrag_loop_defrags [unfolded defrags_def]

section \<open>defrag\<close>

context break_provider
begin

lemma defrag_refines:
  assumes ok: "heap_ok brk okos s bs" and i: "initialized s"
  shows "\<exists>s'. defrag s = Some s' \<and> heap_ok brk okos s' (spec_defrag bs) \<and>
    heap_base brk s' = heap_base brk s \<and>
    (\<forall>x \<in> busy (heap_base brk s) bs. umem s' (of_nat x) = umem s (of_nat x))"
proof -
  note L = heap_ok_layout [OF ok]
  have a: "heap_base brk s = unat (managed_memory_start s)"
    "unat (last_valid_address s) = heap_base brk s + bsizes bs"
    using ok i by (auto simp: heap_ok_def heap_base_def)
  obtain m' where m': "defrag_loop (umem s) (last_valid_address s) (of_nat (heap_base brk s)) = Some m'"
    "layout m' (heap_base brk s) (spec_defrag bs)"
    "\<forall>x < 2 ^ 64. x < heap_base brk s \<or> x \<in> busy (heap_base brk s) bs \<longrightarrow> m' (of_nat x) = umem s (of_nat x)"
    using defrag_loop_spec [OF L(1,2) a(2) L(3)] by blast
  have "defrag s = Some (s\<lparr>umem := m'\<rparr>)" using m'(1) by (simp add: defrag_def a(1))
  moreover have "heap_ok brk okos (s\<lparr>umem := m'\<rparr>) (spec_defrag bs)"
    by (rule heap_ok_upd(1) [OF ok i bsizes_spec_defrag wf_spec_defrag [OF L(2)] m'(2)])
  moreover have "m' (of_nat x) = umem s (of_nat x)" if "x \<in> busy (heap_base brk s) bs" for x
    using m'(3) that busy_range [OF that] L(3) by simp
  ultimately show ?thesis by simp
qed

end

end
