(* ===== verification/Brk.thy ===== *)
theory Brk
  imports Paging Heap_Defrag
begin

text \<open>
  The program break: \<^verbatim>\<open>sbrk\<close> of \<^verbatim>\<open>kernel.c\<close> and the two system calls that use it. A
  process is its index in \<^verbatim>\<open>processes\<close>. The contract \<open>break_provider\<close> of the allocator is
  interpreted here on the \<^verbatim>\<open>sbrk\<close> system call.
\<close>

section \<open>sbrk\<close>

text \<open>
  The loop over the pages a shrinking break gives up. Both ends are multiples of
  \<^verbatim>\<open>PAGESIZE\<close>, so it runs once per page between them: \<open>n\<close> times.
\<close>

fun release_pages :: "nat \<Rightarrow> nat \<Rightarrow> addr \<Rightarrow> unit kernel" where
  "release_pages 0 p a s = Inr ((), s)"
| "release_pages (Suc n) p a s =
     (let pt = p_pagetable (processes s ! p);
          vam = virtual_memory_lookup (pmem s) pt a
      in if va_pn vam \<ge> 0
         then bindK (virtual_memory_map pt a 0 PAGESIZE 0) (\<lambda>_. release_pages n p (a + PAGESIZE))
                (upd_page (nat (va_pn vam)) (\<lambda>pi. pi\<lparr>owner := PO_FREE, refcount := 0\<rparr>) s)
         else release_pages n p (a + PAGESIZE) s)"

definition sbrk :: "nat \<Rightarrow> u64 \<Rightarrow> int kernel" where
  "sbrk p difference s =
     (let pr = processes s ! p;
          new_break = program_break pr + difference
      in if new_break < original_break pr \<or> new_break \<ge> MEMSIZE_VIRTUAL - PAGESIZE then Inr (- 1, s)
         else let old_break = program_break pr;
                  s = upd_proc p (\<lambda>pr. pr\<lparr>program_break := new_break\<rparr>) s
              in if sint difference < 0
                 then let old_top = ROUNDUP old_break PAGESIZE;
                          a = ROUNDUP new_break PAGESIZE
                      in bindK (release_pages (if a < old_top then unat ((old_top - a) div PAGESIZE) else 0) p a)
                           (\<lambda>_. ret 0) s
                 else Inr (0, s))"

section \<open>The system calls\<close>

definition set_rax :: "u64 \<Rightarrow> kstate \<Rightarrow> kstate" where
  "set_rax v s = upd_proc (current s) (\<lambda>pr. pr\<lparr>p_registers := (p_registers pr)\<lparr>reg_rax := v\<rparr>\<rparr>) s"

definition sys_brk :: "unit kernel" where
  "sys_brk s =
     (let a = reg_rdi (p_registers (cur_proc s));
          difference = a - program_break (cur_proc s)
      in bindK (sbrk (current s) difference)
           (\<lambda>r s. Inr ((), set_rax (if r = 0 then 0 else - 1) s)) s)"

definition sys_sbrk :: "unit kernel" where
  "sys_sbrk s =
     (let difference = reg_rdi (p_registers (cur_proc s));
          old_break = program_break (cur_proc s)
      in bindK (sbrk (current s) difference)
           (\<lambda>r s. Inr ((), set_rax (if r = 0 then old_break else - 1) s)) s)"

section \<open>Results\<close>

definition break_limit :: nat where "break_limit = 0x2FF000"

lemma limit_word: "x \<ge> MEMSIZE_VIRTUAL - PAGESIZE \<longleftrightarrow> break_limit \<le> unat x"
  by (simp add: word_le_nat_alt MEMSIZE_VIRTUAL_def PAGESIZE_def break_limit_def)

definition break_ok :: "proc \<Rightarrow> bool" where
  "break_ok pr \<longleftrightarrow> original_break pr \<le> program_break pr \<and> unat (program_break pr) < break_limit"

lemma upd_proc_simps [simp]:
  "pmem (upd_proc p f s) = pmem s" "img (upd_proc p f s) = img s" "pageinfo (upd_proc p f s) = pageinfo s"
  "current (upd_proc p f s) = current s" "kernel_pagetable (upd_proc p f s) = kernel_pagetable s"
  "length (processes (upd_proc p f s)) = length (processes s)"
  "p < length (processes s) \<Longrightarrow> processes (upd_proc p f s) ! p = f (processes s ! p)"
  "q \<noteq> p \<Longrightarrow> processes (upd_proc p f s) ! q = processes s ! q"
  by (simp_all add: upd_proc_def)

lemma upd_page_simps [simp]:
  "pmem (upd_page n f s) = pmem s" "img (upd_page n f s) = img s" "processes (upd_page n f s) = processes s"
  "current (upd_page n f s) = current s" "kernel_pagetable (upd_page n f s) = kernel_pagetable s"
  "pageinfo (upd_page n f s) = (pageinfo s)[n := f (pageinfo s ! n)]"
  by (simp_all add: upd_page_def)

lemma sbrk_grow:
  assumes "0 \<le> sint d"
  shows "sbrk p d s =
    (if original_break (processes s ! p) \<le> program_break (processes s ! p) + d \<and>
        unat (program_break (processes s ! p) + d) < break_limit
     then Inr (0, upd_proc p (\<lambda>pr. pr\<lparr>program_break := program_break pr + d\<rparr>) s) else Inr (- 1, s))"
  using assms by (auto simp: sbrk_def Let_def limit_word not_less not_le upd_proc_def)

section \<open>The allocator's contract\<close>

text \<open>The call as a process sees it: the increment in \<^verbatim>\<open>%rdi\<close>, the result in \<^verbatim>\<open>%rax\<close>.\<close>

definition set_rdi :: "u64 \<Rightarrow> kstate \<Rightarrow> kstate" where
  "set_rdi v s = upd_proc (current s) (\<lambda>pr. pr\<lparr>p_registers := (p_registers pr)\<lparr>reg_rdi := v\<rparr>\<rparr>) s"

definition user_sbrk :: "kstate \<Rightarrow> u64 \<Rightarrow> (addr \<times> kstate) option" where
  "user_sbrk s d =
     (case sys_sbrk (set_rdi d s) of
        Inl e \<Rightarrow> None
      | Inr (x, s') \<Rightarrow> Some (reg_rax (p_registers (cur_proc s')), s'))"

definition cur_break :: "kstate \<Rightarrow> u64" where "cur_break s = program_break (cur_proc s)"

definition user_ok :: "kstate \<Rightarrow> bool" where
  "user_ok s \<longleftrightarrow> current s < length (processes s) \<and> break_ok (cur_proc s)"

lemma user_sbrk_grow:
  assumes ok: "user_ok s" and d: "unat d < 2 ^ 63"
  shows "\<exists>s'. user_sbrk s d = Some (if unat (cur_break s) + unat d < break_limit then cur_break s else - 1, s') \<and>
    user_ok s' \<and>
    cur_break s' = (if unat (cur_break s) + unat d < break_limit then cur_break s + d else cur_break s)"
proof -
  let ?p = "current s" and ?t = "set_rdi d s"
  have lt: "?p < length (processes s)" and b: "break_ok (cur_proc s)" using ok by (auto simp: user_ok_def)
  have brk: "unat (cur_break s) < break_limit" using b by (simp add: break_ok_def cur_break_def)
  then have sum: "unat (cur_break s + d) = unat (cur_break s) + unat d"
    using d by (simp add: break_limit_def to_nat)
  have t: "current ?t = ?p" "length (processes ?t) = length (processes s)"
    "processes ?t ! ?p = (cur_proc s)\<lparr>p_registers := (p_registers (cur_proc s))\<lparr>reg_rdi := d\<rparr>\<rparr>"
    using lt by (simp_all add: set_rdi_def cur_proc_def)
  have ge: "original_break (cur_proc s) \<le> cur_break s + d"
    using b sum by (simp add: break_ok_def cur_break_def word_le_nat_alt)
  have sb: "sbrk ?p d ?t = (if unat (cur_break s) + unat d < break_limit
      then Inr (0, upd_proc ?p (\<lambda>pr. pr\<lparr>program_break := program_break pr + d\<rparr>) ?t) else Inr (- 1, ?t))"
    using sbrk_grow [of d ?p ?t] d ge sum by (simp add: sint_nonneg_iff64 t cur_break_def)
  show ?thesis
  proof (cases "unat (cur_break s) + unat d < break_limit")
    case True
    then show ?thesis
      using sb lt t ge sum b
      by (auto simp: user_sbrk_def sys_sbrk_def cur_proc_def Let_def set_rax_def user_ok_def
          cur_break_def break_ok_def)
  next
    case False
    then show ?thesis
      using sb lt t b
      by (auto simp: user_sbrk_def sys_sbrk_def cur_proc_def Let_def set_rax_def user_ok_def
          cur_break_def break_ok_def)
  qed
qed

interpretation kb: break_provider user_sbrk cur_break user_ok break_limit
proof
  show "break_limit \<le> 2 ^ 31" by (simp add: break_limit_def)
  show "unat (cur_break k) < break_limit" if "user_ok k" for k
    using that by (simp add: user_ok_def break_ok_def cur_break_def)
  show "\<exists>k'. user_sbrk k d = Some (cur_break k, k') \<and> user_ok k' \<and> cur_break k' = cur_break k + d"
    if "user_ok k" "unat d < 2 ^ 63" "unat (cur_break k) + unat d < break_limit" for k d
    using user_sbrk_grow [OF that(1,2)] that(3) by auto
  show "\<exists>k'. user_sbrk k d = Some (- 1, k') \<and> user_ok k' \<and> cur_break k' = cur_break k"
    if "user_ok k" "unat d < 2 ^ 63" "break_limit \<le> unat (cur_break k) + unat d" for k d
    using user_sbrk_grow [OF that(1,2)] that(3) by auto
qed

end
