(* ===== verification/Access.thy ===== *)
theory Access
  imports Vm
begin

text \<open>
  What the processor does with an address: the four-level walk of the table in \<^verbatim>\<open>%cr3\<close>, which
  needs every level's entry to be present, and for a write every level's writable bit (the
  kernel sets \<^verbatim>\<open>CR0_WP\<close>, so its own writes are checked too). \<^verbatim>\<open>memcpy\<close> and \<^verbatim>\<open>memset\<close> of
  \<^verbatim>\<open>shared/lib.c\<close> are restated over such accesses for the code that copies through the page
  table it has just installed.
\<close>

section \<open>The walk of the processor\<close>

definition hw_walk :: "mem \<Rightarrow> addr \<Rightarrow> addr \<Rightarrow> (addr \<times> u64) option" where
  "hw_walk m pt va =
     (let e0 = pte m pt va 0;
          e1 = pte m (PTE_ADDR e0) va 1;
          e2 = pte m (PTE_ADDR e1) va 2;
          e3 = pte m (PTE_ADDR e2) va 3;
          flags = e0 AND e1 AND e2 AND e3
      in if flags AND PTE_P \<noteq> 0 then Some (PTE_ADDR e3 + PAGEOFFSET va, PTE_FLAGS flags) else None)"

definition kload8 :: "addr \<Rightarrow> u8 kernel" where
  "kload8 va s =
     (case hw_walk (pmem s) (cr3 s) va of
        Some (pa, flags) \<Rightarrow> Inr (pmem s pa, s)
      | None \<Rightarrow> Inl (Faulted va, s))"

definition kstore8 :: "addr \<Rightarrow> u8 \<Rightarrow> unit kernel" where
  "kstore8 va b s =
     (case hw_walk (pmem s) (cr3 s) va of
        Some (pa, flags) \<Rightarrow> if flags AND PTE_W \<noteq> 0 then Inr ((), s\<lparr>pmem := (pmem s)(pa := b)\<rparr>)
                            else Inl (Faulted va, s)
      | None \<Rightarrow> Inl (Faulted va, s))"

section \<open>memcpy and memset through the page table\<close>

fun kmemcpy :: "nat \<Rightarrow> addr \<Rightarrow> addr \<Rightarrow> unit kernel" where
  "kmemcpy 0 d p = ret ()"
| "kmemcpy (Suc n) d p = bindK (kload8 p) (\<lambda>b. bindK (kstore8 d b) (\<lambda>_. kmemcpy n (d + 1) (p + 1)))"

fun kmemset :: "nat \<Rightarrow> addr \<Rightarrow> u8 \<Rightarrow> unit kernel" where
  "kmemset 0 d c = ret ()"
| "kmemset (Suc n) d c = bindK (kstore8 d c) (\<lambda>_. kmemset n (d + 1) c)"

text \<open>\<open>n\<close> bytes as a list.\<close>

fun kload_bytes :: "nat \<Rightarrow> addr \<Rightarrow> u8 list kernel" where
  "kload_bytes 0 p = ret []"
| "kload_bytes (Suc n) p = bindK (kload8 p) (\<lambda>b. bindK (kload_bytes n (p + 1)) (\<lambda>bs. ret (b # bs)))"

end
