(* ===== verification/Hardware.thy ===== *)
theory Hardware
  imports Vm
begin

text \<open>
  \<^verbatim>\<open>kernel/k-hardware.c\<close>: segment and interrupt descriptors, the interrupt controllers, the
  timer, PCI configuration space and power, and the register setup of a new process. Descriptor
  tables are fields of the state; their addresses come from the link map.
\<close>

section \<open>Segments and gates\<close>

definition SEGSEL_KERN_CODE :: u64 where "SEGSEL_KERN_CODE = 0x8"
definition SEGSEL_APP_CODE :: u64 where "SEGSEL_APP_CODE = 0x10"
definition SEGSEL_KERN_DATA :: u64 where "SEGSEL_KERN_DATA = 0x18"
definition SEGSEL_APP_DATA :: u64 where "SEGSEL_APP_DATA = 0x20"
definition SEGSEL_TASKSTATE :: u64 where "SEGSEL_TASKSTATE = 0x28"

definition set_app_segment :: "u64 \<Rightarrow> u64 \<Rightarrow> u64" where
  "set_app_segment type dpl = type OR X86SEG_S OR push_bit 45 dpl OR X86SEG_P"

definition set_sys_segment :: "u64 \<Rightarrow> u64 \<Rightarrow> addr \<Rightarrow> u64 \<Rightarrow> u64 \<times> u64" where
  "set_sys_segment type dpl a sz =
     (push_bit 16 (a AND 0xFFFFFF) OR push_bit 32 (a AND 0xFF000000)
        OR ((sz - 1) AND 0xFFFF) OR push_bit 48 ((sz - 1) AND 0xF0000)
        OR type OR push_bit 45 dpl OR X86SEG_P,
      drop_bit 32 a)"

definition set_gate :: "u64 \<Rightarrow> u64 \<Rightarrow> addr \<Rightarrow> x86_64_gatedescriptor" where
  "set_gate type dpl f =
     \<lparr>gd_low = (f AND 0xFFFF) OR push_bit 16 SEGSEL_KERN_CODE OR type OR push_bit 45 dpl
        OR X86SEG_P OR push_bit 32 (f AND 0xFFFF0000),
      gd_high = drop_bit 32 f\<rparr>"

text \<open>\<^verbatim>\<open>sizeof(kernel_task_descriptor)\<close>, \<^verbatim>\<open>sizeof(segments)\<close>, \<^verbatim>\<open>sizeof(interrupt_descriptors)\<close>\<close>

definition sizeof_taskstate :: u64 where "sizeof_taskstate = 96"
definition sizeof_segments :: u16 where "sizeof_segments = 56"
definition sizeof_interrupt_descriptors :: u16 where "sizeof_interrupt_descriptors = 4096"

definition segment_table :: "addr \<Rightarrow> u64 list \<Rightarrow> u64 list" where
  "segment_table ktd old =
     (let (lo, hi) = set_sys_segment X86SEG_TSS 0 ktd sizeof_taskstate;
          sel = (\<lambda>x. unat (drop_bit 3 x))
      in old[0 := 0,
             sel SEGSEL_KERN_CODE := set_app_segment (X86SEG_X OR X86SEG_L) 0,
             sel SEGSEL_APP_CODE := set_app_segment (X86SEG_X OR X86SEG_L) 3,
             sel SEGSEL_KERN_DATA := set_app_segment X86SEG_W 0,
             sel SEGSEL_APP_DATA := set_app_segment X86SEG_W 3,
             sel SEGSEL_TASKSTATE := lo,
             Suc (sel SEGSEL_TASKSTATE) := hi])"

text \<open>
  The descriptor table: cleared, 16 to 255 to the default handler, then the timer, the two
  faults and the sixteen system calls, which alone may be raised by applications (level 3).
\<close>

definition gate_table :: "image \<Rightarrow> x86_64_gatedescriptor list" where
  "gate_table im =
     (let set = (\<lambda>i dpl f t. t[i := set_gate X86GATE_INTERRUPT dpl f]);
          t = replicate 256 \<lparr>gd_low = 0, gd_high = 0\<rparr>;
          t = fold (\<lambda>i. set i 0 (default_int_handler_at im)) [16..<256] t;
          t = set (unat INT_TIMER) 0 (timer_int_handler_at im) t;
          t = set (unat INT_GPF) 0 (gpf_int_handler_at im) t;
          t = set (unat INT_PAGEFAULT) 0 (pagefault_int_handler_at im) t
      in fold (\<lambda>i. set i 3 (sys_int_handlers_at im ! (i - unat INT_SYS)))
           [unat INT_SYS..<unat INT_SYS + 16] t)"

definition segments_init :: "kstate \<Rightarrow> kstate" where
  "segments_init s =
     (let im = img s;
          s = s\<lparr>segments := segment_table (kernel_task_descriptor_at im) (segments s),
                kernel_task_descriptor :=
                  \<lparr>ts_rsp = [KERNEL_STACK_TOP, 0, 0], ts_ist = replicate 7 0, ts_iomap_base = 0\<rparr>,
                interrupt_descriptors := gate_table im\<rparr>;
          s = lgdt \<lparr>pseudod_limit = sizeof_segments - 1, pseudod_base = segments_at im\<rparr> s;
          s = ltr (ucast SEGSEL_TASKSTATE) s;
          s = lidt \<lparr>pseudod_limit = sizeof_interrupt_descriptors - 1,
                    pseudod_base = interrupt_descriptors_at im\<rparr> s
      in lcr0 (rcr0 s OR CR0_PE OR CR0_PG OR CR0_WP OR CR0_AM OR CR0_MP OR CR0_NE) s)"

section \<open>Interrupt controllers and timer\<close>

definition MAX_IRQS :: nat where "MAX_IRQS = 16"
definition IO_PIC1 :: u16 where "IO_PIC1 = 0x20"
definition IO_PIC2 :: u16 where "IO_PIC2 = 0xA0"
definition IRQ_SLAVE :: nat where "IRQ_SLAVE = 2"
definition IO_TIMER1 :: u16 where "IO_TIMER1 = 0x40"
definition TIMER_MODE :: u16 where "TIMER_MODE = IO_TIMER1 + 3"
definition TIMER_SEL0 :: u8 where "TIMER_SEL0 = 0x00"
definition TIMER_RATEGEN :: u8 where "TIMER_RATEGEN = 0x04"
definition TIMER_16BIT :: u8 where "TIMER_16BIT = 0x30"
definition TIMER_FREQ :: int where "TIMER_FREQ = 1193182"

text \<open>For a positive argument, as \<^verbatim>\<open>timer_init\<close> calls it.\<close>

definition TIMER_DIV :: "int \<Rightarrow> int" where
  "TIMER_DIV x = (TIMER_FREQ + x div 2) div x"

definition interrupt_mask :: "kstate \<Rightarrow> kstate" where
  "interrupt_mask s =
     (let masked = NOT (interrupts_enabled s)
      in outb (IO_PIC2 + 1) (ucast (drop_bit 8 masked AND 0xFF))
           (outb (IO_PIC1 + 1) (ucast (masked AND 0xFF)) s))"

definition interrupt_init :: "kstate \<Rightarrow> kstate" where
  "interrupt_init s =
     (let s = interrupt_mask (s\<lparr>interrupts_enabled := 0\<rparr>);
          s = outb IO_PIC1 0x11 s;
          s = outb (IO_PIC1 + 1) (ucast INT_HARDWARE) s;
          s = outb (IO_PIC1 + 1) (push_bit IRQ_SLAVE 1) s;
          s = outb (IO_PIC1 + 1) 0x3 s;
          s = outb IO_PIC2 0x11 s;
          s = outb (IO_PIC2 + 1) (ucast (INT_HARDWARE + 8)) s;
          s = outb (IO_PIC2 + 1) (of_nat IRQ_SLAVE) s;
          s = outb (IO_PIC2 + 1) 0x01 s;
          s = outb IO_PIC1 0x68 s;
          s = outb IO_PIC1 0x0A s;
          s = outb IO_PIC2 0x68 s;
          s = outb IO_PIC2 0x0A s
      in interrupt_mask s)"

definition timer_init :: "int \<Rightarrow> kstate \<Rightarrow> kstate" where
  "timer_init rate s =
     (let bit = push_bit (unat (INT_TIMER - INT_HARDWARE)) 1;
          s = (if rate > 0
               then let s = outb TIMER_MODE (TIMER_SEL0 OR TIMER_RATEGEN OR TIMER_16BIT) s;
                        s = outb IO_TIMER1 (word_of_int (TIMER_DIV rate mod 256)) s;
                        s = outb IO_TIMER1 (word_of_int (TIMER_DIV rate div 256)) s
                    in s\<lparr>interrupts_enabled := interrupts_enabled s OR bit\<rparr>
               else s\<lparr>interrupts_enabled := interrupts_enabled s AND NOT bit\<rparr>)
      in interrupt_mask s)"

definition IOPHYSMEM :: u64 where "IOPHYSMEM = 0xA0000"
definition EXTPHYSMEM :: u64 where "EXTPHYSMEM = 0x100000"

definition physical_memory_isreserved :: "addr \<Rightarrow> bool" where
  "physical_memory_isreserved pa \<longleftrightarrow> pa = 0 \<or> pa \<ge> IOPHYSMEM \<and> pa < EXTPHYSMEM"

definition hardware_init :: "unit kernel" where
  "hardware_init s = virtual_memory_init (interrupt_init (segments_init s))"

section \<open>PCI and power\<close>

definition pci_make_configaddr :: "nat \<Rightarrow> nat \<Rightarrow> nat \<Rightarrow> u32" where
  "pci_make_configaddr bus slot func =
     push_bit 16 (of_nat bus) OR push_bit 11 (of_nat slot) OR push_bit 8 (of_nat func)"

definition PCI_HOST_BRIDGE_CONFIG_ADDR :: u16 where "PCI_HOST_BRIDGE_CONFIG_ADDR = 0xCF8"
definition PCI_HOST_BRIDGE_CONFIG_DATA :: u16 where "PCI_HOST_BRIDGE_CONFIG_DATA = 0xCFC"

definition pci_config_readl :: "u32 \<Rightarrow> u32 \<Rightarrow> kstate \<Rightarrow> u32 \<times> kstate" where
  "pci_config_readl configaddr offset s =
     inl PCI_HOST_BRIDGE_CONFIG_DATA
       (outl PCI_HOST_BRIDGE_CONFIG_ADDR (0x80000000 OR configaddr OR offset) s)"

text \<open>
  The three nested loops, each over what is left of its range: functions of a slot, slots of a
  bus, buses. A first function that answers all ones ends its slot.
\<close>

fun pci_find_func :: "nat list \<Rightarrow> u32 \<Rightarrow> nat \<Rightarrow> nat \<Rightarrow> kstate \<Rightarrow> u32 option \<times> kstate" where
  "pci_find_func [] wanted bus slot s = (None, s)"
| "pci_find_func (func # funcs) wanted bus slot s =
     (let configaddr = pci_make_configaddr bus slot func;
          (vendor_device, s) = pci_config_readl configaddr 0 s
      in if vendor_device = wanted then (Some configaddr, s)
         else if vendor_device = - 1 \<and> func = 0 then (None, s)
         else pci_find_func funcs wanted bus slot s)"

fun pci_find_slot :: "nat list \<Rightarrow> u32 \<Rightarrow> nat \<Rightarrow> kstate \<Rightarrow> u32 option \<times> kstate" where
  "pci_find_slot [] wanted bus s = (None, s)"
| "pci_find_slot (slot # slots) wanted bus s =
     (let (r, s) = pci_find_func [0..<8] wanted bus slot s
      in if r \<noteq> None then (r, s) else pci_find_slot slots wanted bus s)"

fun pci_find_bus :: "nat list \<Rightarrow> u32 \<Rightarrow> kstate \<Rightarrow> u32 option \<times> kstate" where
  "pci_find_bus [] wanted s = (None, s)"
| "pci_find_bus (bus # buses) wanted s =
     (let (r, s) = pci_find_slot [0..<32] wanted bus s
      in if r \<noteq> None then (r, s) else pci_find_bus buses wanted s)"

text \<open>The configuration address, or -1.\<close>

definition pci_find_device :: "u32 \<Rightarrow> u32 \<Rightarrow> kstate \<Rightarrow> int \<times> kstate" where
  "pci_find_device vendor device s =
     (let (r, s) = pci_find_bus [0..<256] (vendor OR push_bit 16 device) s
      in (case r of Some a \<Rightarrow> sint a | None \<Rightarrow> - 1, s))"

definition PCI_VENDOR_ID_INTEL :: u32 where "PCI_VENDOR_ID_INTEL = 0x8086"
definition PCI_DEVICE_ID_PIIX4 :: u32 where "PCI_DEVICE_ID_PIIX4 = 0x7113"

text \<open>
  The write of \<^verbatim>\<open>suspend enable\<close> is what powers the machine off; without the device (or if
  the write has no effect) the code prints a message and spins.
\<close>

definition poweroff :: "'a kernel" where
  "poweroff s =
     (let (configaddr, s) = pci_find_device PCI_VENDOR_ID_INTEL PCI_DEVICE_ID_PIIX4 s
      in if configaddr \<ge> 0
         then let (r, s) = pci_config_readl (word_of_int configaddr) 0x40 s
              in Inl (Powered_off, outw (ucast (r AND 0xFFC0) + 4) 0x2000 s)
         else Inl (Spinning, snd (kconsole_vprintf (CPOS 24 0) 0xC000 (''Cannot power off!'' @ newline) [] s)))"

definition reboot :: "'a kernel" where
  "reboot s = Inl (Spinning, outb 0x92 3 s)"

section \<open>Process registers, the cursor, unexpected exceptions\<close>

definition PROCINIT_ALLOW_PROGRAMMED_IO :: u32 where "PROCINIT_ALLOW_PROGRAMMED_IO = 1"
definition PROCINIT_DISABLE_INTERRUPTS :: u32 where "PROCINIT_DISABLE_INTERRUPTS = 2"

definition process_init :: "u32 \<Rightarrow> proc \<Rightarrow> proc" where
  "process_init flags p =
     (let fl = ucast EFLAGS_IF;
          fl = (if flags AND PROCINIT_ALLOW_PROGRAMMED_IO \<noteq> 0 then fl OR ucast EFLAGS_IOPL_3 else fl);
          fl = (if flags AND PROCINIT_DISABLE_INTERRUPTS \<noteq> 0 then fl AND NOT (ucast EFLAGS_IF) else fl)
      in p\<lparr>p_registers := zero_regs\<lparr>reg_cs := ucast (SEGSEL_APP_CODE OR 3),
             reg_fs := SEGSEL_APP_DATA OR 3, reg_gs := SEGSEL_APP_DATA OR 3,
             reg_ss := ucast (SEGSEL_APP_DATA OR 3), reg_rflags := fl\<rparr>,
           display_status := 1\<rparr>)"

definition console_show_cursor :: "int \<Rightarrow> kstate \<Rightarrow> kstate" where
  "console_show_cursor cpos s =
     (let cpos = (if cpos < 0 \<or> cpos > int (CONSOLE_ROWS * CONSOLE_COLUMNS) then 0 else cpos);
          s = outb 0x3D4 14 s;
          s = outb 0x3D5 (word_of_int (cpos div 256)) s;
          s = outb 0x3D4 15 s
      in outb 0x3D5 (word_of_int (cpos mod 256)) s)"

definition default_exception :: "proc \<Rightarrow> 'a kernel" where
  "default_exception p =
     kernel_panic (Some (''Unexpected exception %d!'' @ newline)) [Num (reg_intno (p_registers p))]"

end
