(* ===== verification/Kvm.thy ===== *)
theory Kvm
  imports Access Hardware
begin

text \<open>
  \<^verbatim>\<open>kernel/k-vm.o\<close> is an object file without source: the page allocator and the operations on
  a whole process. They are the fields of \<open>kvm\<close>, which every definition that calls them takes
  as its first argument. A process is its index in \<^verbatim>\<open>processes\<close>. What the properties rely on
  is stated where they are used, as \<^verbatim>\<open>kernel.h\<close> documents it.
\<close>

record kvm =
  palloc :: "int \<Rightarrow> addr kernel"
  process_free :: "int \<Rightarrow> unit kernel"
  process_config_tables :: "int \<Rightarrow> int kernel"
  process_load :: "nat \<Rightarrow> int \<Rightarrow> kstate \<Rightarrow> int run"
  process_setup_stack :: "nat \<Rightarrow> unit kernel"
  process_fork :: "nat \<Rightarrow> int kernel"
  process_page_alloc :: "nat \<Rightarrow> addr \<Rightarrow> int kernel"

end
