(* ===== verification/Keyboard.thy ===== *)
theory Keyboard
  imports Hardware
begin

text \<open>
  The keyboard half of \<^verbatim>\<open>kernel/k-hardware.c\<close>: scan codes to characters, the control keys that
  reboot the kernel or power it off, and the endless loop after a panic.
\<close>

section \<open>Key codes\<close>

definition MOD_SHIFT :: u8 where "MOD_SHIFT = 1"
definition MOD_CONTROL :: u8 where "MOD_CONTROL = 2"
definition MOD_CAPSLOCK :: u8 where "MOD_CAPSLOCK = 8"
definition KEY_SHIFT :: nat where "KEY_SHIFT = 0xFA"
definition KEY_CONTROL :: nat where "KEY_CONTROL = 0xFB"
definition KEY_ALT :: nat where "KEY_ALT = 0xFC"
definition KEY_CAPSLOCK :: nat where "KEY_CAPSLOCK = 0xFD"
definition KEY_NUMLOCK :: nat where "KEY_NUMLOCK = 0xFE"
definition KEY_SCROLLLOCK :: nat where "KEY_SCROLLLOCK = 0xFF"
definition CKEY :: "nat \<Rightarrow> nat" where "CKEY cn = 0x80 + cn"
definition KEY_UP :: nat where "KEY_UP = 0xC0"
definition KEY_RIGHT :: nat where "KEY_RIGHT = 0xC1"
definition KEY_DOWN :: nat where "KEY_DOWN = 0xC2"
definition KEY_LEFT :: nat where "KEY_LEFT = 0xC3"
definition KEY_HOME :: nat where "KEY_HOME = 0xC4"
definition KEY_END :: nat where "KEY_END = 0xC5"
definition KEY_PAGEUP :: nat where "KEY_PAGEUP = 0xC6"
definition KEY_PAGEDOWN :: nat where "KEY_PAGEDOWN = 0xC7"
definition KEY_INSERT :: nat where "KEY_INSERT = 0xC8"
definition KEY_DELETE :: nat where "KEY_DELETE = 0xC9"

lemmas key_defs = MOD_SHIFT_def MOD_CONTROL_def MOD_CAPSLOCK_def KEY_SHIFT_def KEY_CONTROL_def
  KEY_ALT_def KEY_CAPSLOCK_def KEY_NUMLOCK_def KEY_SCROLLLOCK_def CKEY_def KEY_UP_def
  KEY_RIGHT_def KEY_DOWN_def KEY_LEFT_def KEY_HOME_def KEY_END_def KEY_PAGEUP_def
  KEY_PAGEDOWN_def KEY_INSERT_def KEY_DELETE_def

definition key :: "char \<Rightarrow> nat" where "key c = of_char c"

definition zeros :: "nat \<Rightarrow> nat list" where "zeros n = replicate n 0"

text \<open>\<^verbatim>\<open>keymap\<close>, sixteen scan codes to a line of the source.\<close>

definition keymap :: "nat list" where
  "keymap =
     [0, 0x1B, CKEY 0, CKEY 1, CKEY 2, CKEY 3, CKEY 4, CKEY 5,
      CKEY 6, CKEY 7, CKEY 8, CKEY 9, CKEY 10, CKEY 11, 8, 9] @
     map key ''qwertyui'' @
     map key ''op'' @ [CKEY 12, CKEY 13, CKEY 14, KEY_CONTROL] @ map key ''as'' @
     map key ''dfghjkl'' @ [CKEY 15] @
     [CKEY 16, CKEY 17, KEY_SHIFT, CKEY 18] @ map key ''zxcv'' @
     map key ''bnm'' @ [CKEY 19, CKEY 20, CKEY 21, KEY_SHIFT, key CHR ''*''] @
     [KEY_ALT, key CHR '' '', KEY_CAPSLOCK] @ zeros 5 @
     zeros 5 @ [KEY_NUMLOCK, KEY_SCROLLLOCK, key CHR ''7''] @
     map key ''89-456+1'' @
     map key ''230.'' @ zeros 12 @
     zeros 16 @ zeros 16 @ zeros 16 @
     zeros 12 @ [CKEY 14, KEY_CONTROL, 0, 0] @
     zeros 16 @
     zeros 5 @ [key CHR ''/'', 0, 0, KEY_ALT] @ zeros 7 @
     zeros 7 @ [KEY_HOME] @
     [KEY_UP, KEY_PAGEUP, 0, KEY_LEFT, 0, KEY_RIGHT, 0, KEY_END] @
     [KEY_DOWN, KEY_PAGEDOWN, KEY_INSERT, KEY_DELETE] @ zeros 12 @
     zeros 16 @ zeros 16"

text \<open>\<^verbatim>\<open>complex_keymap\<close>: plain, shift, control, shift and control.\<close>

definition complex_keymap :: "nat list list" where
  "complex_keymap =
     [[key CHR ''1'', key CHR ''!'', 0, 0], [key CHR ''2'', key CHR ''@'', 0, 0],
      [key CHR ''3'', key CHR ''#'', 0, 0], [key CHR ''4'', key CHR ''$'', 0, 0],
      [key CHR ''5'', key CHR ''%'', 0, 0], [key CHR ''6'', 0x5E, 0, 0x1E],
      [key CHR ''7'', key CHR ''&'', 0, 0], [key CHR ''8'', key CHR ''*'', 0, 0],
      [key CHR ''9'', key CHR ''('', 0, 0], [key CHR ''0'', key CHR '')'', 0, 0],
      [key CHR ''-'', key CHR ''_'', 0, 0x1F], [key CHR ''='', key CHR ''+'', 0, 0],
      [key CHR ''['', key CHR ''{'', 0x1B, 0], [key CHR '']'', key CHR ''}'', 0x1D, 0],
      [0x0A, 0x0A, 0x0D, 0x0D],
      [key CHR '';'', key CHR '':'', 0, 0],
      [0x27, 0x22, 0, 0], [0x60, 0x7E, 0, 0],
      [0x5C, key CHR ''|'', 0x1C, 0], [key CHR '','', key CHR ''<'', 0, 0],
      [key CHR ''.'', key CHR ''>'', 0, 0], [key CHR ''/'', key CHR ''?'', 0, 0]]"

section \<open>Reading a key\<close>

text \<open>The character of a pressed key and the modifiers after it.\<close>

definition key_press :: "u8 \<Rightarrow> u8 \<Rightarrow> u8 \<Rightarrow> int \<times> u8" where
  "key_press data escape mods =
     (let ch = keymap ! unat (data OR escape);
          bit = push_bit (ch - KEY_SHIFT) 1
      in if ch \<ge> key CHR ''a'' \<and> ch \<le> key CHR ''z''
         then (if mods AND MOD_CONTROL \<noteq> 0 then (int ch - 0x60, mods)
               else if (mods AND MOD_SHIFT = 0) \<noteq> (mods AND MOD_CAPSLOCK = 0) then (int ch - 0x20, mods)
               else (int ch, mods))
         else if ch \<ge> KEY_CAPSLOCK then (0, mods XOR bit)
         else if ch \<ge> KEY_SHIFT then (0, mods OR bit)
         else if ch \<ge> CKEY 0 \<and> ch \<le> CKEY 21
         then (int (complex_keymap ! (ch - CKEY 0) ! unat (mods AND 3)), mods)
         else if ch < 0x80 \<and> mods AND MOD_CONTROL \<noteq> 0 then (0, mods)
         else (int ch, mods))"

definition key_release :: "u8 \<Rightarrow> u8 \<Rightarrow> u8 \<Rightarrow> u8" where
  "key_release data escape mods =
     (let ch = keymap ! unat ((data AND 0x7F) OR escape)
      in if ch \<ge> KEY_SHIFT \<and> ch < KEY_CAPSLOCK then mods AND NOT (push_bit (ch - KEY_SHIFT) 1) else mods)"

definition keyboard_readc :: "kstate \<Rightarrow> int \<times> kstate" where
  "keyboard_readc s =
     (let (status, s) = inb KEYBOARD_STATUSREG s
      in if ucast status AND KEYBOARD_STATUS_READY = 0 then (- 1, s)
         else let (data, s) = inb KEYBOARD_DATAREG s;
                  escape = last_escape s;
                  s = s\<lparr>last_escape := 0\<rparr>
              in if data = 0xE0 then (0, s\<lparr>last_escape := 0x80\<rparr>)
                 else if data AND 0x80 \<noteq> 0
                 then (0, s\<lparr>modifiers := key_release data escape (modifiers s)\<rparr>)
                 else let (ch, mods) = key_press data escape (modifiers s)
                      in (ch, s\<lparr>modifiers := mods\<rparr>))"

section \<open>Control keys\<close>

definition reboot_argument :: "int \<Rightarrow> string" where
  "reboot_argument c =
     (if c = of_char CHR ''a'' then ''allocator''
      else if c = of_char CHR ''c'' then ''alloctests''
      else if c = of_char CHR ''t'' then ''test''
      else if c = of_char CHR ''2'' then ''test2''
      else ''malloc'')"

text \<open>
  A soft reboot: the temporary page table at 0x8000 is installed and the kernel is entered
  again with the argument. The string constant lies in the kernel image, below 4 GB, which is
  what the assertion at line 604 tests.
\<close>

definition soft_reboot :: "int \<Rightarrow> 'a kernel" where
  "soft_reboot c s =
     (let pt = 0x8000;
          pwu = PTE_P OR PTE_W OR PTE_U;
          m = snd (memset (pmem s) pt 0 (PAGESIZE * 3));
          m = write64 m pt (0x9000 OR pwu);
          m = write64 m (pt + PAGESIZE) (0xA000 OR pwu);
          m = write64 m (pt + 2 * PAGESIZE) (pwu OR PTE_PS)
      in Inl (Rebooted (reboot_argument c), lcr3 pt (s\<lparr>pmem := m\<rparr>)))"

definition is_reboot_key :: "int \<Rightarrow> bool" where
  "is_reboot_key c \<longleftrightarrow> c \<in> set (map of_char ''amct2'')"

definition is_exit_key :: "int \<Rightarrow> bool" where
  "is_exit_key c \<longleftrightarrow> c = 3 \<or> c = of_char CHR ''q''"

definition check_keyboard :: "int kernel" where
  "check_keyboard s =
     (let (c, s) = keyboard_readc s
      in if is_reboot_key c then soft_reboot c s
         else if is_exit_key c then poweroff s
         else Inr (c, s))"

text \<open>After a panic: \<open>None\<close> when no control key is ever typed.\<close>

partial_function (option) fail :: "kstate \<Rightarrow> (stop \<times> kstate) option" where
  "fail s = (case check_keyboard s of Inl e \<Rightarrow> Some e | Inr (c, s') \<Rightarrow> fail s')"

end
