(* ===== verification/Syscalls.thy ===== *)
theory Syscalls
  imports Brk Kvm Keyboard
begin

text \<open>
  \<^verbatim>\<open>kernel/kernel.c\<close>: physical pages, process set-up, and the arms of \<^verbatim>\<open>exception\<close>'s switch
  other than \<^verbatim>\<open>brk\<close> and \<^verbatim>\<open>sbrk\<close>. An arm that ends in \<^verbatim>\<open>schedule()\<close>, which never comes back,
  returns \<open>Schedule\<close>; an arm that breaks out of the switch returns \<open>Break\<close>.
\<close>

section \<open>Physical pages\<close>

definition pageinfo_init :: "kstate \<Rightarrow> kstate" where
  "pageinfo_init s =
     fold (\<lambda>pn. let a = of_nat pn * PAGESIZE;
                    own = (if physical_memory_isreserved a then PO_RESERVED
                         else if a \<ge> KERNEL_START_ADDR \<and> a < end_at (img s) \<or> a = KERNEL_STACK_TOP - PAGESIZE
                         then PO_KERNEL
                         else PO_FREE)
                in upd_page pn (\<lambda>_. \<lparr>owner = own, refcount = (if own \<noteq> PO_FREE then 1 else 0)\<rparr>))
       [0..<NPAGES] s"

definition assign_physical_page :: "addr \<Rightarrow> u8 \<Rightarrow> kstate \<Rightarrow> int \<times> kstate" where
  "assign_physical_page a own s =
     (if a AND 0xFFF \<noteq> 0 \<or> a \<ge> MEMSIZE_PHYSICAL \<or> refcount (pageinfo s ! nat (PAGENUMBER a)) \<noteq> 0
      then (- 1, s)
      else (0, upd_page (nat (PAGENUMBER a)) (\<lambda>_. \<lparr>owner = sint own, refcount = 1\<rparr>) s))"

section \<open>Processes\<close>

definition kernel_c :: string where "kernel_c = ''kernel/kernel.c''"

definition process_setup :: "kvm \<Rightarrow> nat \<Rightarrow> int \<Rightarrow> kstate \<Rightarrow> unit run" where
  "process_setup k pid program_number s =
     andThen (Some (process_config_tables k (int pid) (upd_proc pid (process_init 0) s))) (\<lambda>r s.
     andThen (Some (assertK (r = 0) kernel_c 119 ''process_config_tables(pid) == 0'' (ret ()) s)) (\<lambda>_ s.
     andThen (process_load k pid program_number s) (\<lambda>r s.
     andThen (Some (assertK (r \<ge> 0) kernel_c 122 ''process_load(&processes[pid], program_number) >= 0''
                      (process_setup_stack k pid) s)) (\<lambda>_ s.
     Some (Inr ((), upd_proc pid (\<lambda>pr. pr\<lparr>p_state := P_RUNNABLE\<rparr>) s))))))"

definition syscall_fork :: "kvm \<Rightarrow> int kernel" where
  "syscall_fork k s = process_fork k (current s) s"

definition syscall_exit :: "kvm \<Rightarrow> unit kernel" where
  "syscall_exit k s = process_free k (p_pid (cur_proc s)) s"

definition syscall_page_alloc :: "kvm \<Rightarrow> addr \<Rightarrow> int kernel" where
  "syscall_page_alloc k a s = process_page_alloc k (current s) a s"

section \<open>mapping and mem_tog\<close>

definition sizeof_vamapping :: u64 where "sizeof_vamapping = 24"

text \<open>\<^verbatim>\<open>memcpy\<close> of a \<^verbatim>\<open>struct vamapping\<close>: the two ints are followed by four bytes of padding.\<close>

definition store_vamapping :: "u32 \<times> u32 \<Rightarrow> addr \<Rightarrow> vamapping \<Rightarrow> mem \<Rightarrow> mem" where
  "store_vamapping padding a v m =
     (let m = write32 m a (word_of_int (va_pn v));
          m = write32 m (a + 4) (fst padding);
          m = write64 m (a + 8) (va_pa v);
          m = write32 m (a + 16) (ucast (va_perm v))
      in write32 m (a + 20) (snd padding))"

definition syscall_mapping :: "nat \<Rightarrow> kstate \<Rightarrow> kstate" where
  "syscall_mapping p s =
     (let pr = processes s ! p;
          mapping_ptr = reg_rdi (p_registers pr);
          ptr = reg_rsi (p_registers pr);
          look = virtual_memory_lookup (pmem s) (p_pagetable pr);
          map = look mapping_ptr;
          endaddr = mapping_ptr + sizeof_vamapping - 1
      in if va_perm map AND (PTE_W OR PTE_U) \<noteq> PTE_W OR PTE_U then s
         else if PAGENUMBER endaddr \<noteq> PAGENUMBER ptr
                 \<and> va_perm (look endaddr) AND (PTE_W OR PTE_P) \<noteq> PTE_W OR PTE_P then s
         else s\<lparr>pmem := store_vamapping (vamapping_padding (img s)) (va_pa map) (look ptr) (pmem s)\<rparr>)"

text \<open>The argument is a \<^verbatim>\<open>pid_t\<close>, the low 32 bits of \<^verbatim>\<open>%rdi\<close> read signed.\<close>

definition syscall_mem_tog :: "nat \<Rightarrow> kstate \<Rightarrow> kstate" where
  "syscall_mem_tog i s =
     (let pr = processes s ! i;
          p = sint (ucast (reg_rdi (p_registers pr)) :: u32)
      in if p = 0 then s\<lparr>disp_global := lnot8 (disp_global s)\<rparr>
         else if p < 0 \<or> p > int NPROC \<or> p \<noteq> p_pid pr then s
         else upd_proc i (\<lambda>pr. pr\<lparr>display_status := lnot8 (display_status pr)\<rparr>) s)"

section \<open>Arms of the switch\<close>

datatype flow = Break | Schedule

text \<open>The string in the 160 bytes copied from the process.\<close>

definition bytes_string :: "u8 list \<Rightarrow> string" where
  "bytes_string bs = map (\<lambda>b. char_of (unat b)) (takeWhile (\<lambda>b. b \<noteq> 0) bs)"

text \<open>
  \<^verbatim>\<open>INT_SYS_PANIC\<close>. The bytes are read at the physical address of the mapping, through the
  kernel's page table; the message is used as a format, for which there are no arguments.
\<close>

definition sys_panic :: "flow kernel" where
  "sys_panic s =
     (let a = reg_rdi (p_registers (cur_proc s))
      in if a = NULL then kernel_panic None [] s
         else bindK (kload_bytes 160 (va_pa (virtual_memory_lookup (pmem s) (p_pagetable (cur_proc s)) a)))
                (\<lambda>bs. kernel_panic (Some (bytes_string bs)) []) s)"

definition sys_getpid :: "kstate \<Rightarrow> kstate" where
  "sys_getpid s = set_rax (word_of_int (p_pid (cur_proc s))) s"

definition set_cur_state :: "procstate \<Rightarrow> kstate \<Rightarrow> kstate" where
  "set_cur_state st s = upd_proc (current s) (\<lambda>pr. pr\<lparr>p_state := st\<rparr>) s"

text \<open>
  The page-fault arm: a missing page inside the heap is allocated and mapped, and a process
  for which that fails is ended; a fault of the kernel panics; any other ends the process.
\<close>

definition in_heap :: "addr \<Rightarrow> proc \<Rightarrow> bool" where
  "in_heap a pr \<longleftrightarrow> a \<ge> original_break pr \<and> a < program_break pr"

definition broken :: "kvm \<Rightarrow> unit kernel" where
  "broken k s = syscall_exit k (set_cur_state P_BROKEN s)"

definition map_heap_page :: "kvm \<Rightarrow> addr \<Rightarrow> unit kernel" where
  "map_heap_page k page_addr s =
     bindK (palloc k (p_pid (cur_proc s))) (\<lambda>pa s.
       if pa = NULL then broken k s
       else bindK (virtual_memory_map (p_pagetable (cur_proc s)) page_addr pa PAGESIZE (PTE_P OR PTE_W OR PTE_U))
              (\<lambda>r s. if r \<ge> 0 then Inr ((), s) else broken k s) s) s"

definition fault_args :: "addr \<Rightarrow> x86_64_registers \<Rightarrow> fmt_arg list" where
  "fault_args a reg =
     [Num a, Text (if reg_err reg AND PFERR_WRITE \<noteq> 0 then ''write'' else ''read''),
      Text (if reg_err reg AND PFERR_PRESENT = 0 then ''missing page'' else ''protection problem''),
      Num (reg_rip reg)]"

definition page_fault :: "kvm \<Rightarrow> x86_64_registers \<Rightarrow> unit kernel" where
  "page_fault k reg s =
     (let a = rcr2 s;
          missing = (reg_err reg AND PFERR_PRESENT = 0);
          user = (reg_err reg AND PFERR_USER \<noteq> 0)
      in if user \<and> missing \<and> in_heap a (cur_proc s) then map_heap_page k (ROUNDDOWN a PAGESIZE) s
         else if \<not> user
         then kernel_panic (Some (''Kernel page fault for %p (%s %s, rip=%p)!'' @ newline)) (fault_args a reg) s
         else broken k (snd (kconsole_vprintf (CPOS 24 0) 0x0C00
                ([CHR ''P''] @ ''rocess %d page fault for %p (%s %s, rip=%p)!'' @ newline)
                (Num (word_of_int (p_pid (cur_proc s))) # fault_args a reg) s)))"

definition unit_break :: "unit kernel \<Rightarrow> flow kernel" where
  "unit_break f = bindK f (\<lambda>_. ret Break)"

text \<open>The switch. \<open>reg\<close> is the register frame the exception came with.\<close>

definition handle :: "kvm \<Rightarrow> x86_64_registers \<Rightarrow> flow kernel" where
  "handle k reg s =
     (let n = reg_intno reg
      in if n = INT_SYS_PANIC then sys_panic s
         else if n = INT_SYS_GETPID then Inr (Break, sys_getpid s)
         else if n = INT_SYS_FORK
         then bindK (syscall_fork k) (\<lambda>r s. Inr (Break, set_rax (word_of_int r) s)) s
         else if n = INT_SYS_MAPPING then Inr (Break, syscall_mapping (current s) s)
         else if n = INT_SYS_EXIT then bindK (syscall_exit k) (\<lambda>_. ret Schedule) s
         else if n = INT_SYS_YIELD then Inr (Schedule, s)
         else if n = INT_SYS_BRK then unit_break sys_brk s
         else if n = INT_SYS_SBRK then unit_break sys_sbrk s
         else if n = INT_SYS_PAGE_ALLOC
         then bindK (syscall_page_alloc k (reg_rdi reg)) (\<lambda>_. ret Break) s
         else if n = INT_SYS_MEM_TOG then Inr (Break, syscall_mem_tog (current s) s)
         else if n = INT_TIMER then Inr (Schedule, s\<lparr>ticks := ticks s + 1\<rparr>)
         else if n = INT_PAGEFAULT then unit_break (page_fault k reg) s
         else default_exception (cur_proc s) s)"

end
