(* ===== verification/Checks.thy ===== *)
theory Checks
  imports Syscalls
begin

text \<open>
  The operating system invariants of \<^verbatim>\<open>kernel.c\<close> that every system call checks, and the two
  pictures of memory that it draws on the console.
\<close>

section \<open>Kernel mappings\<close>

definition check_kernel_page :: "addr \<Rightarrow> addr \<Rightarrow> unit kernel" where
  "check_kernel_page pt va s =
     (let vam = virtual_memory_lookup (pmem s) pt va;
          s = (if va_pa vam \<noteq> va
               then snd (kconsole_vprintf (CPOS 22 0) 0xC000 (''%p vs %p'' @ newline) [Num va, Num (va_pa vam)] s)
               else s)
      in assertK (va_pa vam = va) kernel_c 498 ''vam.pa == va''
         (assertK (va \<ge> start_data_at (img s) \<longrightarrow> va_perm vam AND PTE_W \<noteq> 0) kernel_c 500 ''vam.perm & PTE_W''
         (ret ())) s)"

text \<open>The pages from \<open>KERNEL_START_ADDR\<close> up to \<^verbatim>\<open>end\<close>.\<close>

function check_kernel_pages :: "addr \<Rightarrow> addr \<Rightarrow> nat \<Rightarrow> unit kernel" where
  "check_kernel_pages pt kend a =
     (if a < unat kend then bindK (check_kernel_page pt (of_nat a)) (\<lambda>_. check_kernel_pages pt kend (a + 4096))
      else ret ())"
  by pat_completeness auto

termination by (relation "measure (\<lambda>(pt, kend, a). unat kend - a)") auto

declare check_kernel_pages.simps [simp del]

definition check_page_table_mappings :: "addr \<Rightarrow> unit kernel" where
  "check_page_table_mappings pt s =
     (let kstack = KERNEL_STACK_TOP - PAGESIZE
      in assertK (PTE_ADDR pt = pt) kernel_c 489 ''PTE_ADDR(pt) == (uintptr_t) pt''
         (bindK (check_kernel_pages pt (end_at (img s)) (unat KERNEL_START_ADDR)) (\<lambda>_ s.
           let vam = virtual_memory_lookup (pmem s) pt kstack
           in assertK (va_pa vam = kstack) kernel_c 507 ''vam.pa == kstack''
              (assertK (va_perm vam AND PTE_W \<noteq> 0) kernel_c 508 ''vam.perm & PTE_W'' (ret ())) s)) s)"

section \<open>Ownership of page tables\<close>

text \<open>
  The recursion goes from level 0 to level 3: \<open>levels\<close> is 3 minus the level. A negative page
  number (a table address of 2^43 and more) indexes before the array in C; it is stopped by the
  same assertion here.
\<close>

definition page_owned :: "addr \<Rightarrow> int \<Rightarrow> int \<Rightarrow> unit kernel \<Rightarrow> unit kernel" where
  "page_owned pt own count k s =
     (let pn = PAGENUMBER pt in
      assertK (0 \<le> pn \<and> pn < int NPAGES) kernel_c 537 ''PAGENUMBER(pt) < NPAGES''
      (assertK (owner (pageinfo s ! nat pn) = own) kernel_c 538 ''pageinfo[PAGENUMBER(pt)].owner == owner''
      (assertK (refcount (pageinfo s ! nat pn) = count) kernel_c 539 ''pageinfo[PAGENUMBER(pt)].refcount == refcount''
      k)) s)"

fun seqK :: "unit kernel list \<Rightarrow> unit kernel" where
  "seqK [] = ret ()"
| "seqK (f # fs) = bindK f (\<lambda>_. seqK fs)"

fun check_page_table_ownership_level :: "nat \<Rightarrow> addr \<Rightarrow> int \<Rightarrow> int \<Rightarrow> unit kernel" where
  "check_page_table_ownership_level 0 pt own count = page_owned pt own count (ret ())"
| "check_page_table_ownership_level (Suc levels) pt own count =
     page_owned pt own count (\<lambda>s. seqK (map (\<lambda>i s.
         let e = read64 (pmem s) (pt + 8 * of_nat i)
         in if e \<noteq> 0 then check_page_table_ownership_level levels (PTE_ADDR e) own 1 s else Inr ((), s))
       [0..<NPAGETABLEENTRIES]) s)"

definition check_page_table_ownership :: "addr \<Rightarrow> int \<Rightarrow> unit kernel" where
  "check_page_table_ownership pt pid s =
     (if pt = kernel_pagetable s
      then check_page_table_ownership_level 3 pt PO_KERNEL
             (1 + int (length (filter (\<lambda>pr. p_state pr \<noteq> P_FREE \<and> p_pagetable pr = kernel_pagetable s) (processes s)))) s
      else check_page_table_ownership_level 3 pt pid 1 s)"

section \<open>All of it\<close>

definition check_process :: "nat \<Rightarrow> unit kernel" where
  "check_process pid s =
     (let pr = processes s ! pid
      in if p_state pr \<noteq> P_FREE \<and> p_pagetable pr \<noteq> kernel_pagetable s
         then bindK (check_page_table_mappings (p_pagetable pr))
                (\<lambda>_. check_page_table_ownership (p_pagetable pr) (int pid)) s
         else Inr ((), s))"

definition check_page_owner :: "nat \<Rightarrow> unit kernel" where
  "check_page_owner pn s =
     (let pi = pageinfo s ! pn
      in if refcount pi > 0 \<and> owner pi \<ge> 0
         then assertK (p_state (processes s ! nat (owner pi)) \<noteq> P_FREE) kernel_c 581
                ''processes[pageinfo[pn].owner].p_state != P_FREE'' (ret ()) s
         else Inr ((), s))"

definition check_virtual_memory :: "unit kernel" where
  "check_virtual_memory s =
     assertK (p_state (processes s ! 0) = P_FREE) kernel_c 558 ''processes[0].p_state == P_FREE''
     (bindK (check_page_table_mappings (kernel_pagetable s)) (\<lambda>_.
      bindK (check_page_table_ownership (kernel_pagetable s) (- 1)) (\<lambda>_.
      bindK (seqK (map check_process [0..<NPROC])) (\<lambda>_.
      seqK (map check_page_owner [0..<NPAGES]))))) s"

section \<open>Memory pictures\<close>

definition memstate_colors :: "u16 list" where
  "memstate_colors =
     map (\<lambda>(c, k). of_char c OR k)
       [(CHR ''K'', 0x0D00), (CHR ''R'', 0x0700), (CHR ''.'', 0x0700), (CHR ''1'', 0x0C00),
        (CHR ''2'', 0x0A00), (CHR ''3'', 0x0900), (CHR ''4'', 0x0E00), (CHR ''5'', 0x0F00),
        (CHR ''6'', 0x0C00), (CHR ''7'', 0x0A00), (CHR ''8'', 0x0900), (CHR ''9'', 0x0E00),
        (CHR ''A'', 0x0F00), (CHR ''B'', 0x0C00), (CHR ''C'', 0x0A00), (CHR ''D'', 0x0900),
        (CHR ''E'', 0x0E00), (CHR ''F'', 0x0F00), (CHR ''S'', 0)]"

definition SHARED_COLOR :: u16 where "SHARED_COLOR = memstate_colors ! 18"

definition owner_color :: "physical_pageinfo \<Rightarrow> u16" where
  "owner_color pi =
     memstate_colors ! nat ((if refcount pi = 0 then PO_FREE else owner pi) - PO_KERNEL)"

definition put_cell :: "int \<Rightarrow> u16 \<Rightarrow> kstate \<Rightarrow> kstate" where
  "put_cell cpos c s = s\<lparr>console := (console s)[nat cpos := c]\<rparr>"

definition show_page :: "nat \<Rightarrow> kstate \<Rightarrow> kstate" where
  "show_page pn s =
     (let row = int pn div 64;
          s = (if pn mod 64 = 0
               then snd (kconsole_vprintf (CPOS (1 + row) 3) 0x0F00 ''0x%06X '' [Num (of_nat (pn * 4096))] s)
               else s);
          pi = pageinfo s ! pn;
          colour = (if refcount pi > 1 \<and> int pn \<noteq> PAGENUMBER CONSOLE_ADDR
                    then SHARED_COLOR OR 0x0F00 else owner_color pi)
      in put_cell (CPOS (1 + row) (12 + int pn mod 64)) colour s)"

definition memshow_physical :: "kstate \<Rightarrow> kstate" where
  "memshow_physical s =
     fold show_page [0..<NPAGES] (snd (kconsole_vprintf (CPOS 0 32) 0x0F00 ''PHYSICAL MEMORY'' [] s))"

definition virtual_color :: "addr \<Rightarrow> vamapping \<Rightarrow> physical_pageinfo list \<Rightarrow> u16" where
  "virtual_color va vam pis =
     (let pi = pis ! nat (va_pn vam);
          user = (va_perm vam AND PTE_U \<noteq> 0);
          c = owner_color pi;
          c = (if user then push_bit 4 (c AND 0x0F00) OR drop_bit 4 (c AND 0xF000) OR (c AND 0x00FF) else c)
      in if refcount pi > 1 \<and> va \<noteq> CONSOLE_ADDR
         then let c = SHARED_COLOR OR (c AND 0xF000) in if user then c else c OR 0x0F00
         else c)"

definition show_virtual_page :: "addr \<Rightarrow> nat \<Rightarrow> unit kernel" where
  "show_virtual_page pt i s =
     (let va = of_nat i * PAGESIZE;
          row = int i div 64;
          vam = virtual_memory_lookup (pmem s) pt va;
          draw = (\<lambda>colour s.
            let s = (if i mod 64 = 0
                     then snd (kconsole_vprintf (CPOS (11 + row) 3) 0x0F00 ''0x%06X '' [Num va] s) else s)
            in put_cell (CPOS (11 + row) (12 + int i mod 64)) colour s)
      in if va_pn vam < 0 then Inr ((), draw (of_char CHR '' '') s)
         else assertK (va_pa vam < MEMSIZE_PHYSICAL) kernel_c 639 ''vam.pa < MEMSIZE_PHYSICAL''
                (\<lambda>s. Inr ((), draw (virtual_color va vam (pageinfo s)) s)) s)"

definition memshow_virtual :: "addr \<Rightarrow> string \<Rightarrow> unit kernel" where
  "memshow_virtual pagetable name =
     assertK (pagetable = PTE_ADDR pagetable) kernel_c 630 ''(uintptr_t) pagetable == PTE_ADDR(pagetable)''
     (\<lambda>s. seqK (map (show_virtual_page pagetable) [0..<unat (MEMSIZE_VIRTUAL div PAGESIZE)])
            (snd (kconsole_vprintf (CPOS 10 26) 0x0F00 ''VIRTUAL ADDRESS SPACE FOR %s'' [Text name] s)))"

text \<open>The process to show: the first that is not free from \<open>n\<close> on, looking no further than 2 * NPROC + 1.\<close>

function next_showing :: "proc list \<Rightarrow> int \<Rightarrow> int" where
  "next_showing ps n =
     (if n \<le> 2 * int NPROC \<and> p_state (ps ! nat (n mod int NPROC)) = P_FREE then next_showing ps (n + 1) else n)"
  by pat_completeness auto

termination by (relation "measure (\<lambda>(ps, n). nat (2 * int NPROC + 1 - n))") auto

declare next_showing.simps [simp del]

definition HZ :: int where "HZ = 100"

text \<open>
  The name is what \<^verbatim>\<open>snprintf\<close> leaves in a buffer of four bytes: three characters of the
  output (\<open>Printer.vsnprintf_in_bounds\<close>).
\<close>

definition memshow_virtual_animate :: "unit kernel" where
  "memshow_virtual_animate s =
     (let s = (if last_ticks s = 0 \<or> ticks s - last_ticks s \<ge> word_of_int (HZ div 2)
               then s\<lparr>last_ticks := ticks s, showing := showing s + 1\<rparr> else s);
          s = s\<lparr>showing := next_showing (processes s) (showing s) mod int NPROC\<rparr>;
          pr = processes s ! nat (showing s);
          name = take 3 (map fst (printer_vprintf 0 ''%d '' [Num (word_of_int (showing s))]))
      in if p_state pr \<noteq> P_FREE \<and> display_status pr \<noteq> 0
         then memshow_virtual (p_pagetable pr) name s
         else Inr ((), s))"

end
