(* ===== verification/Elf.thy ===== *)
theory Elf
  imports Byte_Memory
begin

text \<open>
  \<^verbatim>\<open>shared/elf.h\<close>: the headers of an executable, read field by field from memory at the
  offsets that the declarations give them.
\<close>

section \<open>ELF structures\<close>

definition read16 :: "mem \<Rightarrow> addr \<Rightarrow> u16" where "read16 = read_le 2"

definition ELF_MAGIC :: u32 where "ELF_MAGIC = 0x464C457F"
definition ELF_PTYPE_LOAD :: u32 where "ELF_PTYPE_LOAD = 1"
definition ELF_PFLAG_EXEC :: u32 where "ELF_PFLAG_EXEC = 1"
definition ELF_PFLAG_WRITE :: u32 where "ELF_PFLAG_WRITE = 2"
definition ELF_PFLAG_READ :: u32 where "ELF_PFLAG_READ = 4"

record elf_header =
  e_magic :: u32
  e_elf :: "u8 list"
  e_type :: u16
  e_machine :: u16
  e_version :: u32
  e_entry :: u64
  e_phoff :: u64
  e_shoff :: u64
  e_flags :: u32
  e_ehsize :: u16
  e_phentsize :: u16
  e_phnum :: u16
  e_shentsize :: u16
  e_shnum :: u16
  e_shstrndx :: u16

record elf_program =
  p_type :: u32
  p_flags :: u32
  p_offset :: u64
  p_va :: u64
  p_pa :: u64
  p_filesz :: u64
  p_memsz :: u64
  p_align :: u64

record elf_section =
  s_name :: u32
  s_type :: u32
  s_flags :: u64
  s_addr :: u64
  s_offset :: u64
  s_size :: u64
  s_link :: u32
  s_info :: u32
  s_addralign :: u64
  s_entsize :: u64

definition ELF_STYPE_NULL :: u32 where "ELF_STYPE_NULL = 0"
definition ELF_STYPE_PROGBITS :: u32 where "ELF_STYPE_PROGBITS = 1"
definition ELF_STYPE_SYMTAB :: u32 where "ELF_STYPE_SYMTAB = 2"
definition ELF_STYPE_STRTAB :: u32 where "ELF_STYPE_STRTAB = 3"
definition ELF_SNAME_UNDEF :: u32 where "ELF_SNAME_UNDEF = 0"

definition read_elf_header :: "mem \<Rightarrow> addr \<Rightarrow> elf_header" where
  "read_elf_header m a =
     \<lparr>e_magic = read32 m a, e_elf = map (\<lambda>i. m (a + 4 + of_nat i)) [0..<12],
      e_type = read16 m (a + 0x10), e_machine = read16 m (a + 0x12), e_version = read32 m (a + 0x14),
      e_entry = read64 m (a + 0x18), e_phoff = read64 m (a + 0x20), e_shoff = read64 m (a + 0x28),
      e_flags = read32 m (a + 0x30), e_ehsize = read16 m (a + 0x34),
      e_phentsize = read16 m (a + 0x36), e_phnum = read16 m (a + 0x38),
      e_shentsize = read16 m (a + 0x3A), e_shnum = read16 m (a + 0x3C), e_shstrndx = read16 m (a + 0x3E)\<rparr>"

definition sizeof_elf_program :: u64 where "sizeof_elf_program = 56"

definition read_elf_program :: "mem \<Rightarrow> addr \<Rightarrow> elf_program" where
  "read_elf_program m a =
     \<lparr>p_type = read32 m a, p_flags = read32 m (a + 4), p_offset = read64 m (a + 8),
      p_va = read64 m (a + 0x10), p_pa = read64 m (a + 0x18), p_filesz = read64 m (a + 0x20),
      p_memsz = read64 m (a + 0x28), p_align = read64 m (a + 0x30)\<rparr>"

end
