(* ===== verification/Loader.thy ===== *)
theory Loader
  imports Kvm Elf
begin

text \<open>
  \<^verbatim>\<open>kernel/k-loader.c\<close>: loading a program from its RAM image. The image
  is part of the kernel's data, which is identity mapped, so headers are read from physical
  memory; the segment's bytes are copied through the process's own page table.
\<close>

definition k_loader_c :: string where "k_loader_c = ''kernel/k-loader.c''"

section \<open>One segment\<close>

text \<open>
  The loop that gives pages to \<open>[a, end_mem)\<close>. It runs for ever when \<open>end_mem\<close> lies in the last
  page of the address space and no page is ever refused, hence \<open>run\<close>.
\<close>

definition load_page :: "kvm \<Rightarrow> nat \<Rightarrow> addr \<Rightarrow> bool kernel" where
  "load_page k p a s =
     (let pr = processes s ! p in
      bindK (palloc k (p_pid pr)) (\<lambda>pa.
        if pa = NULL then ret False
        else bindK (virtual_memory_map (p_pagetable pr) a pa PAGESIZE (PTE_W OR PTE_P OR PTE_U))
               (\<lambda>r. ret (r \<ge> 0))) s)"

definition load_failed :: "nat \<Rightarrow> addr \<Rightarrow> kstate \<Rightarrow> kstate" where
  "load_failed p a s =
     snd (kconsole_vprintf (CPOS 22 0) 0xC000
       (''program_load_segment(pid %d): can'' @ [CHR 0x27] @ ''t assign address %p'' @ newline)
       [Num (word_of_int (p_pid (processes s ! p))), Num a] s)"

partial_function (option) load_pages :: "kvm \<Rightarrow> nat \<Rightarrow> addr \<Rightarrow> addr \<Rightarrow> kstate \<Rightarrow> int run" where
  "load_pages k p end_mem a s =
     (if a < end_mem
      then case load_page k p a s of
             Inl e \<Rightarrow> Some (Inl e)
           | Inr (ok, s') \<Rightarrow>
               if ok then load_pages k p end_mem (a + PAGESIZE) s'
               else Some (Inr (- 1, load_failed p a s'))
      else Some (Inr (0, s)))"

text \<open>The loop that takes write permission away from the pages of a read-only segment.\<close>

definition protect_page :: "nat \<Rightarrow> addr \<Rightarrow> int kernel" where
  "protect_page p a s =
     (let pt = p_pagetable (processes s ! p)
      in virtual_memory_map pt a (va_pa (virtual_memory_lookup (pmem s) pt a)) PAGESIZE (PTE_P OR PTE_U) s)"

partial_function (option) protect_pages :: "nat \<Rightarrow> addr \<Rightarrow> addr \<Rightarrow> kstate \<Rightarrow> int run" where
  "protect_pages p end_mem a s =
     (if a < end_mem
      then case protect_page p a s of
             Inl e \<Rightarrow> Some (Inl e)
           | Inr (r, s') \<Rightarrow> protect_pages p end_mem (a + PAGESIZE) s'
      else Some (Inr (0, s)))"

definition copy_segment :: "nat \<Rightarrow> addr \<Rightarrow> addr \<Rightarrow> addr \<Rightarrow> addr \<Rightarrow> unit kernel" where
  "copy_segment p va source end_file end_mem s =
     bindK (set_pagetable (p_pagetable (processes s ! p))) (\<lambda>_.
     bindK (kmemcpy (unat (end_file - va)) va source) (\<lambda>_.
     bindK (kmemset (unat (end_mem - end_file)) end_file 0) (\<lambda>_ s.
     set_pagetable (kernel_pagetable s) s))) s"

definition program_load_segment :: "kvm \<Rightarrow> nat \<Rightarrow> elf_program \<Rightarrow> addr \<Rightarrow> kstate \<Rightarrow> int run" where
  "program_load_segment k p ph source s =
     (let end_file = p_va ph + p_filesz ph;
          end_mem = p_va ph + p_memsz ph;
          va = p_va ph AND NOT (PAGESIZE - 1)
      in andThen (load_pages k p end_mem va s) (\<lambda>r s.
         if r < 0 then Some (Inr (- 1, s))
         else andThen (Some (copy_segment p va source end_file end_mem s)) (\<lambda>_ s.
              if p_flags ph AND ELF_PFLAG_WRITE = 0 then protect_pages p end_mem va s
              else Some (Inr (0, s)))))"

section \<open>The program\<close>

text \<open>The loop over program headers: the highest end of a segment, or -1 through \<open>None\<close>.\<close>

fun load_segments :: "kvm \<Rightarrow> nat \<Rightarrow> addr \<Rightarrow> addr \<Rightarrow> nat list \<Rightarrow> u64 \<Rightarrow> kstate \<Rightarrow> u64 option run" where
  "load_segments k p eh ph [] max_end_mem s = Some (Inr (Some max_end_mem, s))"
| "load_segments k p eh ph (i # is) max_end_mem s =
     (let h = read_elf_program (pmem s) (ph + of_nat i * sizeof_elf_program)
      in if p_type h = ELF_PTYPE_LOAD
         then andThen (program_load_segment k p h (eh + p_offset h) s) (\<lambda>r s.
                if r < 0 then Some (Inr (None, s))
                else let end_mem = p_va h + p_memsz h
                     in load_segments k p eh ph is (if end_mem > max_end_mem then end_mem else max_end_mem) s)
         else load_segments k p eh ph is max_end_mem s)"

definition program_load :: "kvm \<Rightarrow> nat \<Rightarrow> int \<Rightarrow> kstate \<Rightarrow> int run" where
  "program_load k p programnumber s =
     (if \<not> (programnumber \<ge> 0 \<and> programnumber < int (length (ramimages (img s))))
      then Some (assert_fail k_loader_c 46 ''programnumber >= 0 && programnumber < nprograms'' s)
      else let eh = fst (ramimages (img s) ! nat programnumber);
               h = read_elf_header (pmem s) eh
           in if e_magic h \<noteq> ELF_MAGIC then Some (assert_fail k_loader_c 48 ''eh->e_magic == ELF_MAGIC'' s)
              else andThen (load_segments k p eh (eh + e_phoff h) [0..<unat (e_phnum h)] 0 s) (\<lambda>r s.
                   case r of
                     None \<Rightarrow> Some (Inr (- 1, s))
                   | Some max_end_mem \<Rightarrow>
                       let brk = ROUNDUP max_end_mem PAGESIZE
                       in Some (Inr (0, upd_proc p (\<lambda>pr. pr\<lparr>
                            p_registers := (p_registers pr)\<lparr>reg_rip := e_entry (read_elf_header (pmem s) eh)\<rparr>,
                            program_break := brk, original_break := brk\<rparr>) s))))"

end
