(* ===== verification/Exceptions.thy ===== *)
theory Exceptions
  imports Checks Loader
begin

text \<open>
  The control flow of \<^verbatim>\<open>kernel.c\<close>: leaving to a process (\<^verbatim>\<open>run\<close>), picking one (\<^verbatim>\<open>schedule\<close>),
  the exception entry point and the start of the kernel. \<^verbatim>\<open>run\<close> never comes back: \<open>Inr\<close> of its
  result is the machine in user mode, executing the process \<open>current\<close> with its saved registers
  and its page table. \<open>None\<close> is a schedule that spins for ever.
\<close>

section \<open>run and schedule\<close>

definition run :: "nat \<Rightarrow> unit kernel" where
  "run p s =
     assertK (p_state (processes s ! p) = P_RUNNABLE) kernel_c 443 ''p->p_state == P_RUNNABLE''
       (\<lambda>s. let pr = processes s ! p;
                s = s\<lparr>current := p\<rparr>;
                s = snd (kconsole_vprintf (CPOS 24 79) (ucast (memstate_colors ! nat (p_pid pr - PO_KERNEL)))
                           ''%d'' [Num (word_of_int (p_pid pr))] s)
            in set_pagetable (p_pagetable pr) s) s"

text \<open>Process ids are not negative, so \<^verbatim>\<open>%\<close> is \<open>mod\<close>.\<close>

partial_function (option) schedule_from :: "int \<Rightarrow> kstate \<Rightarrow> unit run" where
  "schedule_from pid s =
     (if p_state (processes s ! nat ((pid + 1) mod int NPROC)) = P_RUNNABLE
      then Some (run (nat ((pid + 1) mod int NPROC)) s)
      else case check_keyboard s of
             Inl e \<Rightarrow> Some (Inl e)
           | Inr (c, s') \<Rightarrow> schedule_from ((pid + 1) mod int NPROC) s')"

definition schedule :: "kstate \<Rightarrow> unit run" where
  "schedule s = schedule_from (p_pid (cur_proc s)) s"

section \<open>exception\<close>

text \<open>What comes before the switch; the registers are those of the interrupted process.\<close>

definition show_memory :: "x86_64_registers \<Rightarrow> unit kernel" where
  "show_memory reg s =
     (if reg_intno reg \<noteq> INT_PAGEFAULT \<and> reg_intno reg \<noteq> INT_GPF \<or> reg_err reg AND PFERR_USER \<noteq> 0
      then bindK check_virtual_memory
             (\<lambda>_ s. if disp_global s \<noteq> 0 then memshow_virtual_animate (memshow_physical s) else Inr ((), s)) s
      else Inr ((), s))"

definition enter_kernel :: "x86_64_registers \<Rightarrow> unit kernel" where
  "enter_kernel reg s =
     (let s = upd_proc (current s) (\<lambda>pr. pr\<lparr>p_registers := reg\<rparr>) s
      in bindK (set_pagetable (kernel_pagetable s)) (\<lambda>_ s.
         bindK (show_memory reg) (\<lambda>_ s.
         bindK check_keyboard (\<lambda>_. ret ()) s) (console_show_cursor (cursorpos s) s)) s)"

definition resume :: "flow \<Rightarrow> kstate \<Rightarrow> unit run" where
  "resume f s =
     (if f = Break \<and> p_state (cur_proc s) = P_RUNNABLE then Some (run (current s) s) else schedule s)"

definition exception :: "kvm \<Rightarrow> x86_64_registers \<Rightarrow> kstate \<Rightarrow> unit run" where
  "exception k reg s =
     andThen (Some (bindK (enter_kernel reg) (\<lambda>_. handle k reg) s)) (\<lambda>f s. resume f s)"

section \<open>kernel\<close>

definition init_processes :: "kstate \<Rightarrow> kstate" where
  "init_processes s =
     s\<lparr>processes := map (\<lambda>i. zero_proc\<lparr>p_pid := int i, p_state := P_FREE\<rparr>) [0..<NPROC]\<rparr>"

definition start_programs :: "kvm \<Rightarrow> string option \<Rightarrow> kstate \<Rightarrow> unit run" where
  "start_programs k command s =
     (if command = Some ''malloc'' then process_setup k 1 1 s
      else if command = Some ''alloctests'' then process_setup k 1 2 s
      else if command = Some ''test'' then process_setup k 1 3 s
      else if command = Some ''test2''
      then andThen (process_setup k 1 3 s) (\<lambda>_. process_setup k 2 3)
      else process_setup k 1 0 s)"

definition kernel :: "kvm \<Rightarrow> string option \<Rightarrow> kstate \<Rightarrow> unit run" where
  "kernel k command s =
     andThen (Some (hardware_init s)) (\<lambda>_ s.
       let s = pageinfo_init s;
           (con, cur) = console_clear (console s);
           s = s\<lparr>console := con, cursorpos := cur\<rparr>;
           s = init_processes (timer_init HZ s)
       in andThen (start_programs k command s) (\<lambda>_ s. Some (run 1 s)))"

end
