(* ===== verification/Process.thy ===== *)
theory Process
  imports Exceptions
begin

text \<open>
  \<^verbatim>\<open>uspace/process.h\<close> and \<^verbatim>\<open>uspace/process.c\<close>: the library of a process. A system call is a
  trap: its wrapper gives the register frame the kernel is entered with, and the result is read
  from \<^verbatim>\<open>%rax\<close> of the frame the kernel returns to.
\<close>

section \<open>System calls\<close>

definition trap :: "u64 \<Rightarrow> x86_64_registers \<Rightarrow> x86_64_registers" where
  "trap n r = r\<lparr>reg_intno := n, reg_err := 0\<rparr>"

definition getpid :: "x86_64_registers \<Rightarrow> x86_64_registers" where
  "getpid r = trap INT_SYS_GETPID r"

definition yield :: "x86_64_registers \<Rightarrow> x86_64_registers" where
  "yield r = trap INT_SYS_YIELD r"

definition sys_page_alloc :: "addr \<Rightarrow> x86_64_registers \<Rightarrow> x86_64_registers" where
  "sys_page_alloc a r = trap INT_SYS_PAGE_ALLOC (r\<lparr>reg_rdi := a\<rparr>)"

definition fork :: "x86_64_registers \<Rightarrow> x86_64_registers" where
  "fork r = trap INT_SYS_FORK r"

definition exit :: "x86_64_registers \<Rightarrow> x86_64_registers" where
  "exit r = trap INT_SYS_EXIT r"

definition panic :: "addr \<Rightarrow> x86_64_registers \<Rightarrow> x86_64_registers" where
  "panic msg r = trap INT_SYS_PANIC (r\<lparr>reg_rdi := msg\<rparr>)"

definition mapping :: "addr \<Rightarrow> addr \<Rightarrow> x86_64_registers \<Rightarrow> x86_64_registers" where
  "mapping a dest r = trap INT_SYS_MAPPING (r\<lparr>reg_rdi := dest, reg_rsi := a\<rparr>)"

text \<open>A \<^verbatim>\<open>pid_t\<close> in a 64-bit register: its low 32 bits.\<close>

definition mem_tog :: "u32 \<Rightarrow> x86_64_registers \<Rightarrow> x86_64_registers" where
  "mem_tog p r = trap INT_SYS_MEM_TOG (r\<lparr>reg_rdi := ucast p\<rparr>)"

definition brk :: "addr \<Rightarrow> x86_64_registers \<Rightarrow> x86_64_registers" where
  "brk a r = trap INT_SYS_BRK (r\<lparr>reg_rdi := a\<rparr>)"

definition sbrk_call :: "u64 \<Rightarrow> x86_64_registers \<Rightarrow> x86_64_registers" where
  "sbrk_call increment r = trap INT_SYS_SBRK (r\<lparr>reg_rdi := increment\<rparr>)"

definition int_result :: "x86_64_registers \<Rightarrow> int" where
  "int_result r = sint (ucast (reg_rax r) :: u32)"

definition pointer_result :: "x86_64_registers \<Rightarrow> addr" where
  "pointer_result r = reg_rax r"

section \<open>Printing\<close>

text \<open>The console and the cursor position, which processes share with the kernel.\<close>

definition app_printf :: "int \<Rightarrow> string \<Rightarrow> fmt_arg list \<Rightarrow> u16 list \<times> int \<Rightarrow> u16 list \<times> int" where
  "app_printf colorid format args st =
     (let (con, cur) = st;
          col = [0x0E, 0x0F, 0x0C, 0x0A, 0x09] :: u32 list;
          colour = (if colorid < 0 then 0x0700 else push_bit 8 (col ! nat (colorid mod 5)));
          (cur, con) = console_vprintf cur colour format args con
      in (con, if CROW cur \<ge> 23 then CPOS 0 0 else cur))"

fun poke :: "addr \<Rightarrow> string \<Rightarrow> mem \<Rightarrow> mem" where
  "poke a [] m = m"
| "poke a (c # cs) m = poke (a + 1) cs (m(a := of_char c))"

text \<open>
  \<^verbatim>\<open>kernel_panic\<close> of a process: the message in the 160-byte stack buffer at \<open>buf\<close>, the same
  on the console, and the frame of the panic call.
\<close>

definition panic_message :: "addr \<Rightarrow> string \<Rightarrow> fmt_arg list \<Rightarrow> mem \<Rightarrow> mem" where
  "panic_message buf format args m =
     (let m = poke buf ''PANIC: '' m;
          (n, m) = vsnprintf m (buf + 7) (160 - 7) format args;
          len = n + 7
      in if sint len > 0 \<and> m (buf + ucast len - 1) \<noteq> 0x0A
         then poke (buf + ucast len - (if len = 160 - 1 then 1 else 0)) [CHR 0x0A, CHR 0x00] m
         else m)"

definition process_kernel_panic ::
  "addr \<Rightarrow> string \<Rightarrow> fmt_arg list \<Rightarrow> x86_64_registers \<Rightarrow> mem \<times> u16 list \<Rightarrow>
     x86_64_registers \<times> mem \<times> u16 list" where
  "process_kernel_panic buf format args r st =
     (let m = panic_message buf format args (fst st);
          text = bytes_string (map (\<lambda>i. m (buf + of_nat i)) [0..<160])
      in (panic buf r, m, snd (console_printf (CPOS 23 0) 0xC000 ''%s'' [Text text] (snd st))))"

definition process_assert_fail ::
  "string \<Rightarrow> nat \<Rightarrow> string \<Rightarrow> x86_64_registers \<Rightarrow> u16 list \<Rightarrow> x86_64_registers \<times> u16 list" where
  "process_assert_fail file line msg r con =
     (panic NULL r,
      snd (console_printf (CPOS 23 0) 0xC000
        (''PANIC: %s:%d: assertion '' @ [CHR 0x27] @ ''%s'' @ [CHR 0x27] @ '' failed'' @ newline)
        [Text file, Num (of_nat line), Text msg] con))"

end
