(* ===== verification/Brk_Shrink.thy ===== *)
theory Brk_Shrink
  imports Brk
begin

text \<open>
  What a shrinking break does to the page table and to \<^verbatim>\<open>pageinfo\<close>, and the properties of
  \<^verbatim>\<open>sbrk\<close> and the allocator that rest on the break.
\<close>

section \<open>Releasing pages\<close>

definition page_backed :: "vamapping \<Rightarrow> bool" where
  "page_backed v \<longleftrightarrow> v = unmapped \<or> (0 \<le> va_pn v \<and> va_pn v < int NPAGES)"

definition backed :: "mem \<Rightarrow> addr \<Rightarrow> bool" where
  "backed m pt \<longleftrightarrow> (\<forall>x. unat x < 0x400000 \<longrightarrow> page_backed (virtual_memory_lookup m pt x))"

definition freed :: "physical_pageinfo \<Rightarrow> physical_pageinfo" where
  "freed pi = pi\<lparr>owner := PO_FREE, refcount := 0\<rparr>"

lemma freed_freed [simp]: "freed (freed pi) = freed pi"
  by (simp add: freed_def)

text \<open>The effect of unmapping the addresses from \<open>a\<close> up to \<open>b\<close>.\<close>

definition released :: "addr \<Rightarrow> nat \<Rightarrow> nat \<Rightarrow> kstate \<Rightarrow> mem \<Rightarrow> physical_pageinfo list \<Rightarrow> bool" where
  "released pt a b s m pis \<longleftrightarrow>
     (\<forall>x. unat x < 0x400000 \<longrightarrow> virtual_memory_lookup m pt x =
        (if a \<le> unat x \<and> unat x < b then unmapped else virtual_memory_lookup (pmem s) pt x)) \<and>
     length pis = length (pageinfo s) \<and>
     (\<forall>i < length pis. pis ! i =
        (if \<exists>x. a \<le> unat x \<and> unat x < b \<and> va_pn (virtual_memory_lookup (pmem s) pt x) = int i
         then freed (pageinfo s ! i) else pageinfo s ! i))"

lemma released_upd_proc [simp]: "released pt a b (upd_proc p f s) m pis \<longleftrightarrow> released pt a b s m pis"
  by (simp only: released_def upd_proc_simps)

lemma released_none: "b \<le> a \<Longrightarrow> released pt a b s m pis \<longleftrightarrow> released pt a a s m pis"
proof -
  assume "b \<le> a"
  then have "(a \<le> n \<and> n < b) \<longleftrightarrow> (a \<le> n \<and> n < a)" for n :: nat by auto
  then show ?thesis unfolding released_def by (simp only: flip: conj_assoc)
qed

lemma same_page_pn:
  assumes "tables_ok m pt t1 t2 ts" "unat x < 0x400000" "unat y < 0x400000"
    and "unat x div 4096 = unat y div 4096"
  shows "va_pn (virtual_memory_lookup m pt x) = va_pn (virtual_memory_lookup m pt y)"
    "virtual_memory_lookup m pt y = unmapped \<Longrightarrow> va_pn (virtual_memory_lookup m pt x) = - 1"
  using assms(4) unfolding lookup_low [OF assms(1,2)] lookup_low [OF assms(1,3)]
  by (simp_all add: vam_of_def unmapped_def split: if_splits)

lemma unmap_runs:
  assumes ok: "tables_ok (pmem s) pt t1 t2 ts" and a: "aligned a" "unat a + 4096 \<le> 0x400000"
  shows "\<exists>m. virtual_memory_map pt a 0 PAGESIZE 0 s = Inr (0, s\<lparr>pmem := m\<rparr>) \<and> tables_ok m pt t1 t2 ts \<and>
    (\<forall>x. unat x < 0x400000 \<longrightarrow> virtual_memory_lookup m pt x =
      (if unat a \<le> unat x \<and> unat x < unat a + 4096 then unmapped else virtual_memory_lookup (pmem s) pt x))"
proof -
  have sz: "aligned PAGESIZE" "unat PAGESIZE = 4096" by (simp_all add: aligned_def PAGESIZE_def)
  have "unat a div 4096 + 4096 div 4096 \<le> 1024" using a by (auto simp: aligned_iff elim!: dvdE)
  then show ?thesis
    using vmap_runs [OF ok a(1) sz(1), of 0 0] vmap_lookup [OF ok a(1) sz(1), of 0 0] a(2)
      tables_write_ptes [OF ok, of "unat a div 4096" 1 0 0]
    by (intro exI [of _ "write_ptes 1 ts (unat a div 4096) 0 0 (pmem s)"]) (auto simp: sz)
qed

text \<open>Releasing the page at \<open>a\<close> and then those from the next page up to \<open>b\<close>.\<close>

lemma released_mapped:
  fixes a :: addr
  assumes m: "\<And>x. unat x < 0x400000 \<Longrightarrow> virtual_memory_lookup m pt x =
      (if unat a \<le> unat x \<and> unat x < unat a + 4096 then unmapped else virtual_memory_lookup (pmem s) pt x)"
    and pn: "\<And>x. unat a \<le> unat x \<Longrightarrow> unat x < unat a + 4096 \<Longrightarrow>
      va_pn (virtual_memory_lookup (pmem s) pt x) = int i"
    and i: "i < length (pageinfo s)" and b: "unat a + 4096 \<le> b" "b \<le> 0x400000"
    and r: "released pt (unat a + 4096) b ((upd_page i freed s)\<lparr>pmem := m\<rparr>) m' pis"
  shows "released pt (unat a) b s m' pis"
  unfolding released_def
proof (intro conjI allI impI)
  let ?L = "virtual_memory_lookup (pmem s) pt"
  show "virtual_memory_lookup m' pt x = (if unat a \<le> unat x \<and> unat x < b then unmapped else ?L x)"
    if "unat x < 0x400000" for x
    using r m [OF that] that b by (auto simp: released_def)
  show "length pis = length (pageinfo s)" using r by (simp add: released_def)
  fix j assume j: "j < length pis"
  have "(\<exists>x. unat a \<le> unat x \<and> unat x < b \<and> va_pn (?L x) = int j) \<longleftrightarrow>
    j = i \<or> (\<exists>x. unat a + 4096 \<le> unat x \<and> unat x < b \<and> va_pn (virtual_memory_lookup m pt x) = int j)"
    (is "?A \<longleftrightarrow> ?B \<or> ?C")
  proof
    assume ?A
    then obtain x where x: "unat a \<le> unat x" "unat x < b" "va_pn (?L x) = int j" by blast
    show "?B \<or> ?C"
    proof (cases "unat x < unat a + 4096")
      case True
      then show ?thesis using pn [OF x(1) True] x(3) by simp
    next
      case False
      then have "va_pn (virtual_memory_lookup m pt x) = int j" using m [of x] x b by simp
      then show ?thesis using x(2) False by auto
    qed
  next
    assume "?B \<or> ?C"
    then show ?A
    proof
      assume ?B
      then show ?A using pn [of a] b by (intro exI [of _ a]) simp
    next
      assume ?C
      then obtain x where x: "unat a + 4096 \<le> unat x" "unat x < b"
        "va_pn (virtual_memory_lookup m pt x) = int j" by blast
      then show ?A using m [of x] b by (intro exI [of _ x]) auto
    qed
  qed
  then show "pis ! j = (if ?A then freed (pageinfo s ! j) else pageinfo s ! j)"
    using r j i by (auto simp: released_def nth_list_update)
qed

lemma released_unmapped:
  fixes a :: addr
  assumes un: "\<And>x. unat a \<le> unat x \<Longrightarrow> unat x < unat a + 4096 \<Longrightarrow>
      virtual_memory_lookup (pmem s) pt x = unmapped"
    and b: "unat a + 4096 \<le> b" and r: "released pt (unat a + 4096) b s m' pis"
  shows "released pt (unat a) b s m' pis"
  unfolding released_def
proof (intro conjI allI impI)
  let ?L = "virtual_memory_lookup (pmem s) pt"
  show "virtual_memory_lookup m' pt x = (if unat a \<le> unat x \<and> unat x < b then unmapped else ?L x)"
    if "unat x < 0x400000" for x
    using r un [of x] that by (auto simp: released_def)
  show "length pis = length (pageinfo s)" using r by (simp add: released_def)
  fix j assume j: "j < length pis"
  have "(\<exists>x. unat a \<le> unat x \<and> unat x < b \<and> va_pn (?L x) = int j) \<longleftrightarrow>
    (\<exists>x. unat a + 4096 \<le> unat x \<and> unat x < b \<and> va_pn (?L x) = int j)" (is "?A \<longleftrightarrow> ?C")
  proof
    assume ?A
    then obtain x where x: "unat a \<le> unat x" "unat x < b" "va_pn (?L x) = int j" by blast
    then have "\<not> unat x < unat a + 4096" using un [of x] by (auto simp: unmapped_def)
    then show ?C using x by (intro exI [of _ x]) simp
  next
    assume ?C
    then obtain x where "unat a + 4096 \<le> unat x" "unat x < b" "va_pn (?L x) = int j" by blast
    then show ?A by (intro exI [of _ x]) auto
  qed
  then show "pis ! j = (if ?A then freed (pageinfo s ! j) else pageinfo s ! j)"
    using r j by (auto simp: released_def)
qed

text \<open>All the addresses of a page are mapped alike.\<close>

lemma same_page:
  assumes ok: "tables_ok m pt t1 t2 ts" "backed m pt" and a: "aligned a" "unat a + 4096 \<le> 0x400000"
    and x: "unat a \<le> unat x" "unat x < unat a + 4096"
  shows "va_pn (virtual_memory_lookup m pt x) = va_pn (virtual_memory_lookup m pt a)"
    "virtual_memory_lookup m pt a = unmapped \<Longrightarrow> virtual_memory_lookup m pt x = unmapped"
proof -
  have d: "unat x div 4096 = unat a div 4096" using a(1) x by (auto simp: aligned_iff elim!: dvdE)
  have lt: "unat x < 0x400000" "unat a < 0x400000" using x a(2) by simp_all
  show "va_pn (virtual_memory_lookup m pt x) = va_pn (virtual_memory_lookup m pt a)"
    by (rule same_page_pn(1) [OF ok(1) lt d])
  show "virtual_memory_lookup m pt x = unmapped" if "virtual_memory_lookup m pt a = unmapped"
    using same_page_pn(2) [OF ok(1) lt d that] ok(2) lt by (auto simp: backed_def page_backed_def)
qed

text \<open>Releasing a page that is mapped: it is unmapped and its physical page is free.\<close>

lemma release_mapped_step:
  assumes ok: "tables_ok (pmem s) pt t1 t2 ts" "backed (pmem s) pt" "p_pagetable (processes s ! p) = pt"
    and a: "aligned a" "unat a + 4096 \<le> 0x400000"
    and pn: "va_pn (virtual_memory_lookup (pmem s) pt a) = int i"
  obtains m where
    "\<And>n. release_pages (Suc n) p a s = release_pages n p (a + PAGESIZE) ((upd_page i freed s)\<lparr>pmem := m\<rparr>)"
    "tables_ok m pt t1 t2 ts" "backed m pt"
    "\<And>x. unat x < 0x400000 \<Longrightarrow> virtual_memory_lookup m pt x =
       (if unat a \<le> unat x \<and> unat x < unat a + 4096 then unmapped else virtual_memory_lookup (pmem s) pt x)"
proof -
  let ?u = "upd_page i freed s"
  obtain m where m: "virtual_memory_map pt a 0 PAGESIZE 0 ?u = Inr (0, ?u\<lparr>pmem := m\<rparr>)"
    "tables_ok m pt t1 t2 ts"
    "\<And>x. unat x < 0x400000 \<Longrightarrow> virtual_memory_lookup m pt x =
       (if unat a \<le> unat x \<and> unat x < unat a + 4096 then unmapped else virtual_memory_lookup (pmem s) pt x)"
    using unmap_runs [of ?u pt t1 t2 ts a] ok(1) a by auto
  have "release_pages (Suc n) p a s = release_pages n p (a + PAGESIZE) (?u\<lparr>pmem := m\<rparr>)" for n
    using pn ok(3) m(1)
    by (simp add: Let_def bindK_def freed_def [abs_def, symmetric] del: upd_page_simps)
  moreover have "backed m pt" using ok(2) by (auto simp: backed_def m(3) page_backed_def)
  ultimately show thesis using m(2,3) that by blast
qed

lemma release_pages_runs:
  assumes "tables_ok (pmem s) pt t1 t2 ts" "backed (pmem s) pt" "p_pagetable (processes s ! p) = pt"
    and "aligned a" "unat a + 4096 * n \<le> 0x400000" "length (pageinfo s) = NPAGES"
  shows "\<exists>m pis. release_pages n p a s = Inr ((), s\<lparr>pmem := m, pageinfo := pis\<rparr>) \<and>
    tables_ok m pt t1 t2 ts \<and> released pt (unat a) (unat a + 4096 * n) s m pis"
  using assms
proof (induction n arbitrary: a s)
  case 0
  have "s = s\<lparr>pmem := pmem s, pageinfo := pageinfo s\<rparr>" by simp
  then show ?case using 0 by (intro exI [of _ "pmem s"] exI [of _ "pageinfo s"]) (auto simp: released_def)
next
  case (Suc n)
  let ?L = "virtual_memory_lookup (pmem s) pt" and ?b = "unat a + 4096 * Suc n"
  note ok = Suc.prems(1,2)
  have a2: "unat a + 4096 \<le> 0x400000" using Suc.prems(5) by simp
  then have ua: "unat (a + PAGESIZE) = unat a + 4096" by (simp add: PAGESIZE_def to_nat)
  have al: "aligned (a + PAGESIZE)" using Suc.prems(4) ua by (simp add: aligned_iff)
  have bnd: "unat (a + PAGESIZE) + 4096 * n = ?b" "?b \<le> 0x400000" using Suc.prems(5) ua by simp_all
  note IH = Suc.IH [where a = "a + PAGESIZE", OF _ _ _ al, unfolded bnd(1), unfolded ua]
  note same = same_page [OF ok Suc.prems(4) a2]
  have pb: "page_backed (?L a)" using Suc.prems(2) a2 by (simp add: backed_def)
  show ?case
  proof (cases "va_pn (?L a) \<ge> 0")
    case True
    define i where "i = nat (va_pn (?L a))"
    have i: "i < length (pageinfo s)" "va_pn (?L a) = int i"
      using pb Suc.prems(6) True by (auto simp: page_backed_def unmapped_def i_def)
    obtain m where m: "release_pages (Suc n) p a s = release_pages n p (a + PAGESIZE) ((upd_page i freed s)\<lparr>pmem := m\<rparr>)"
      "tables_ok m pt t1 t2 ts" "backed m pt"
      "\<And>x. unat x < 0x400000 \<Longrightarrow> virtual_memory_lookup m pt x =
         (if unat a \<le> unat x \<and> unat x < unat a + 4096 then unmapped else ?L x)"
      by (rule release_mapped_step [OF ok Suc.prems(3,4) a2 i(2)]) blast
    let ?w = "(upd_page i freed s)\<lparr>pmem := m\<rparr>"
    obtain m' pis where r: "release_pages n p (a + PAGESIZE) ?w = Inr ((), ?w\<lparr>pmem := m', pageinfo := pis\<rparr>)"
      "tables_ok m' pt t1 t2 ts" "released pt (unat a + 4096) ?b ?w m' pis"
      using IH [of ?w] m(2,3) Suc.prems(3,6) bnd(2) by auto
    have "?w\<lparr>pmem := m', pageinfo := pis\<rparr> = s\<lparr>pmem := m', pageinfo := pis\<rparr>" by (simp add: upd_page_def)
    moreover have "released pt (unat a) ?b s m' pis"
      using released_mapped [OF m(4) _ i(1) _ bnd(2) r(3)] same(1) i(2) by simp
    ultimately show ?thesis using m(1) r(1,2) by auto
  next
    case False
    then have um: "?L a = unmapped" using pb by (auto simp: page_backed_def)
    obtain m' pis where r: "release_pages n p (a + PAGESIZE) s = Inr ((), s\<lparr>pmem := m', pageinfo := pis\<rparr>)"
      "tables_ok m' pt t1 t2 ts" "released pt (unat a + 4096) ?b s m' pis"
      using IH [OF Suc.prems(1-3)] bnd(2) Suc.prems(6) by blast
    have "released pt (unat a) ?b s m' pis"
      by (rule released_unmapped [OF same(2) [OF _ _ um] _ r(3)]) auto
    then show ?thesis using False Suc.prems(3) r(1,2) by (auto simp: Let_def)
  qed
qed

lemma ROUNDUP_nat:
  assumes "unat a < 0x300000"
  shows "unat (ROUNDUP a PAGESIZE) = 4096 * ((unat a + 4095) div 4096)" "aligned (ROUNDUP a PAGESIZE)"
proof -
  have u: "unat (a + PAGESIZE - 1) = unat a + 4095"
  proof -
    have "a + PAGESIZE - 1 = a + 4095" by (simp add: PAGESIZE_def)
    then show ?thesis using assms by (simp only:) (simp add: to_nat)
  qed
  have "unat (ROUNDDOWN (a + PAGESIZE - 1) PAGESIZE) = (unat a + 4095) - (unat a + 4095) mod 4096"
    unfolding ROUNDDOWN_def by (subst unat_sub64) (simp_all add: unat_mod u, simp_all add: PAGESIZE_def)
  then show "unat (ROUNDUP a PAGESIZE) = 4096 * ((unat a + 4095) div 4096)"
    by (simp add: ROUNDUP_def minus_mod_eq_mult_div)
  then show "aligned (ROUNDUP a PAGESIZE)" by (simp add: aligned_iff)
qed

text \<open>The number of pages between two page boundaries, as the loop of \<^verbatim>\<open>sbrk\<close> counts them.\<close>

definition pages_between :: "addr \<Rightarrow> addr \<Rightarrow> nat" where
  "pages_between a b = (if a < b then unat ((b - a) div PAGESIZE) else 0)"

lemma pages_between_end:
  assumes "aligned a" "aligned b"
  shows "unat a + 4096 * pages_between a b = (if a < b then unat b else unat a)"
proof (cases "a < b")
  case True
  have "unat ((b - a) div PAGESIZE) = (unat b - unat a) div 4096"
    using True by (subst unat_div, subst unat_sub64) (simp_all add: word_less_nat_alt PAGESIZE_def)
  moreover have "4096 dvd unat b - unat a" using assms by (simp add: aligned_iff)
  ultimately show ?thesis using True by (simp add: pages_between_def word_less_nat_alt)
qed (simp add: pages_between_def)

lemma sbrk_shrink:
  assumes p: "p < length (processes s)" "break_ok (processes s ! p)" "p_pagetable (processes s ! p) = pt"
    and vm: "tables_ok (pmem s) pt t1 t2 ts" "backed (pmem s) pt" "length (pageinfo s) = NPAGES"
    and nb: "nb = program_break (processes s ! p) + d" "original_break (processes s ! p) \<le> nb"
      "unat nb < break_limit" "sint d < 0"
  shows "\<exists>m pis. sbrk p d s = Inr (0, (upd_proc p (\<lambda>pr. pr\<lparr>program_break := nb\<rparr>) s)\<lparr>pmem := m, pageinfo := pis\<rparr>) \<and>
      tables_ok m pt t1 t2 ts \<and>
      released pt (4096 * ((unat nb + 4095) div 4096))
              (4096 * ((unat (program_break (processes s ! p)) + 4095) div 4096)) s m pis"
proof -
  let ?u = "upd_proc p (\<lambda>pr. pr\<lparr>program_break := nb\<rparr>) s"
  let ?old = "program_break (processes s ! p)"
  let ?a = "ROUNDUP nb PAGESIZE" and ?top = "ROUNDUP ?old PAGESIZE"
  let ?n = "pages_between ?a ?top"
  have lim: "unat nb < 0x300000" "unat ?old < 0x300000"
    using nb(3) p(2) by (auto simp: break_limit_def break_ok_def)
  note A = ROUNDUP_nat [OF lim(1)] and B = ROUNDUP_nat [OF lim(2)]
  note n = pages_between_end [OF A(2) B(2)]
  have "(x + 4095) div 4096 \<le> 1024" if "x < 0x300000" for x :: nat
    using that div_le_mono [of "x + 4095" "1024 * 4096" 4096] by simp
  from this [OF lim(1)] this [OF lim(2)] have "unat ?a + 4096 * ?n \<le> 0x400000"
    unfolding n by (simp add: A(1) B(1))
  then have "\<exists>m pis. release_pages ?n p ?a ?u = Inr ((), ?u\<lparr>pmem := m, pageinfo := pis\<rparr>) \<and>
      tables_ok m pt t1 t2 ts \<and> released pt (unat ?a) (unat ?a + 4096 * ?n) ?u m pis"
    using vm p A(2) by (intro release_pages_runs) simp_all
  then obtain m pis where r: "release_pages ?n p ?a ?u = Inr ((), ?u\<lparr>pmem := m, pageinfo := pis\<rparr>)"
    "tables_ok m pt t1 t2 ts" "released pt (unat ?a) (unat ?a + 4096 * ?n) ?u m pis" by blast
  have "sbrk p d s = Inr (0, ?u\<lparr>pmem := m, pageinfo := pis\<rparr>)"
    using nb(2-4) r(1) unfolding sbrk_def Let_def pages_between_def [symmetric] nb(1) [symmetric]
    by (simp add: limit_word not_less not_le ret_def)
  moreover have "released pt (unat ?a) (unat ?top) s m pis"
    using r(3) released_none [of "unat ?top" "unat ?a"]
    by (cases "?a < ?top") (simp_all add: n word_less_nat_alt)
  ultimately show ?thesis using r(2) A(1) B(1) by auto
qed

section \<open>Properties of the break\<close>

text \<open>
  C8. A system call that moves the break up by \<open>d\<close> or down returns 0 exactly when the new break
  stays between the heap's start and the last page below \<^verbatim>\<open>MEMSIZE_VIRTUAL\<close>; on failure
  nothing changes; on success the break moves, and when it moved down every page between the
  rounded-up new and old breaks is unmapped, the physical pages that backed them are free in
  \<^verbatim>\<open>pageinfo\<close>, and no other mapping below 4 MB and no other page's entry changes.
\<close>

theorem sbrk_effect:
  assumes p: "p < length (processes s)" "break_ok (processes s ! p)" "p_pagetable (processes s ! p) = pt"
    and vm: "tables_ok (pmem s) pt t1 t2 ts" "backed (pmem s) pt" "length (pageinfo s) = NPAGES"
    and nb: "nb = program_break (processes s ! p) + d"
  shows "if original_break (processes s ! p) \<le> nb \<and> unat nb < break_limit
    then \<exists>m pis. sbrk p d s = Inr (0, (upd_proc p (\<lambda>pr. pr\<lparr>program_break := nb\<rparr>) s)\<lparr>pmem := m, pageinfo := pis\<rparr>) \<and>
      tables_ok m pt t1 t2 ts \<and>
      (if 0 \<le> sint d then m = pmem s \<and> pis = pageinfo s
       else released pt (4096 * ((unat nb + 4095) div 4096))
              (4096 * ((unat (program_break (processes s ! p)) + 4095) div 4096)) s m pis)
    else sbrk p d s = Inr (- 1, s)"
proof (cases "original_break (processes s ! p) \<le> nb \<and> unat nb < break_limit")
  case False
  then show ?thesis by (auto simp: sbrk_def Let_def limit_word not_le nb)
next
  case True
  let ?u = "upd_proc p (\<lambda>pr. pr\<lparr>program_break := nb\<rparr>) s"
  show ?thesis
  proof (cases "0 \<le> sint d")
    case nonneg: True
    have "?u = ?u\<lparr>pmem := pmem s, pageinfo := pageinfo s\<rparr>" by (simp add: upd_proc_def)
    moreover have "sbrk p d s = Inr (0, ?u)"
      using sbrk_grow [OF nonneg, of p s] True by (simp add: nb upd_proc_def)
    ultimately show ?thesis using True nonneg vm(1) by auto
  next
    case neg: False
    then show ?thesis using sbrk_shrink [OF p vm nb] True by simp
  qed
qed

end
