(* ===== verification/Heap_Info.thy ===== *)
theory Heap_Info
  imports Heap_Defrag "HOL-Library.Multiset"
begin

text \<open>
  \<^verbatim>\<open>heap_info\<close> of \<^verbatim>\<open>malloc.c\<close> and the two sorts behind it. The sorts take their parallel
  arrays as lists updated by index (the C arrays are separate allocations, so no two of them
  share memory); \<open>sort_descending\<close> reads the arrays from memory, sorts and writes them back.
\<close>

section \<open>Merge sort\<close>

function merge_loop :: "u64 list \<Rightarrow> addr list \<Rightarrow> nat \<Rightarrow> nat \<Rightarrow> nat \<Rightarrow> nat \<Rightarrow> nat \<Rightarrow>
    u64 list \<Rightarrow> addr list \<Rightarrow> nat \<times> nat \<times> nat \<times> u64 list \<times> addr list" where
  "merge_loop sizes ptrs mid hi i j k ts tp =
     (if i < mid \<and> j < hi
      then if sint (sizes ! i) \<ge> sint (sizes ! j)
           then merge_loop sizes ptrs mid hi (i + 1) j (k + 1) (ts[k := sizes ! i]) (tp[k := ptrs ! i])
           else merge_loop sizes ptrs mid hi i (j + 1) (k + 1) (ts[k := sizes ! j]) (tp[k := ptrs ! j])
      else (i, j, k, ts, tp))"
  by pat_completeness auto

termination by (relation "measure (\<lambda>(sizes, ptrs, mid, hi, i, j, k, ts, tp). (mid - i) + (hi - j))") auto

function copy_run :: "u64 list \<Rightarrow> addr list \<Rightarrow> nat \<Rightarrow> nat \<Rightarrow> nat \<Rightarrow>
    u64 list \<Rightarrow> addr list \<Rightarrow> nat \<times> u64 list \<times> addr list" where
  "copy_run sizes ptrs stop i k ts tp =
     (if i < stop then copy_run sizes ptrs stop (i + 1) (k + 1) (ts[k := sizes ! i]) (tp[k := ptrs ! i])
      else (k, ts, tp))"
  by pat_completeness auto

termination by (relation "measure (\<lambda>(sizes, ptrs, stop, i, k, ts, tp). stop - i)") auto

declare merge_loop.simps [simp del] copy_run.simps [simp del]

type_synonym arrays = "u64 list \<times> addr list \<times> u64 list \<times> addr list"

definition merge :: "nat \<Rightarrow> nat \<Rightarrow> nat \<Rightarrow> arrays \<Rightarrow> arrays" where
  "merge lo mid hi arrs =
     (let (sizes, ptrs, ts, tp) = arrs;
          (i, j, k, ts, tp) = merge_loop sizes ptrs mid hi lo mid lo ts tp;
          (k, ts, tp) = copy_run sizes ptrs mid i k ts tp;
          (k, ts, tp) = copy_run sizes ptrs hi j k ts tp
      in (fold (\<lambda>x a. a[x := ts ! x]) [lo..<hi] sizes, fold (\<lambda>x a. a[x := tp ! x]) [lo..<hi] ptrs, ts, tp))"

function merge_sort_descending :: "nat \<Rightarrow> nat \<Rightarrow> arrays \<Rightarrow> arrays" where
  "merge_sort_descending lo hi arrs =
     (if hi - lo \<le> 1 then arrs
      else let mid = lo + (hi - lo) div 2;
               arrs = merge_sort_descending lo mid arrs;
               arrs = merge_sort_descending mid hi arrs
           in merge lo mid hi arrs)"
  by pat_completeness auto

termination by (relation "measure (\<lambda>(lo, hi, arrs). hi - lo)") auto

declare merge_sort_descending.simps [simp del]

section \<open>Selection sort, when there is no memory for the merge\<close>

definition max_index :: "u64 list \<Rightarrow> nat \<Rightarrow> nat \<Rightarrow> nat" where
  "max_index sizes n i = fold (\<lambda>j mx. if sint (sizes ! j) > sint (sizes ! mx) then j else mx) [i + 1..<n] i"

definition swap :: "'a list \<Rightarrow> nat \<Rightarrow> nat \<Rightarrow> 'a list" where
  "swap xs i j = xs[i := xs ! j, j := xs ! i]"

definition selection_step :: "nat \<Rightarrow> nat \<Rightarrow> u64 list \<times> addr list \<Rightarrow> u64 list \<times> addr list" where
  "selection_step n i arrs =
     (let (sizes, ptrs) = arrs; mx = max_index sizes n i
      in if mx \<noteq> i then (swap sizes i mx, swap ptrs i mx) else (sizes, ptrs))"

definition selection_sort :: "nat \<Rightarrow> u64 list \<times> addr list \<Rightarrow> u64 list \<times> addr list" where
  "selection_sort n arrs = fold (selection_step n) [0..<n] arrs"

section \<open>Arrays in memory\<close>

definition load64s :: "mem \<Rightarrow> addr \<Rightarrow> nat \<Rightarrow> u64 list" where
  "load64s m p n = map (\<lambda>i. read64 m (p + 8 * of_nat i)) [0..<n]"

fun store64s :: "mem \<Rightarrow> addr \<Rightarrow> u64 list \<Rightarrow> mem" where
  "store64s m p [] = m"
| "store64s m p (x # xs) = store64s (write64 m p x) (p + 8) xs"

definition sort_descending :: "'os sbrk_call \<Rightarrow> 'os heap \<Rightarrow> addr \<Rightarrow> addr \<Rightarrow> nat \<Rightarrow> 'os heap option" where
  "sort_descending sbrk s sizes ptrs n = do {
     (tmp_sizes, s) \<leftarrow> malloc sbrk s (8 * of_nat n);
     (tmp_ptrs, s) \<leftarrow> malloc sbrk s (8 * of_nat n);
     let s = (if tmp_sizes \<noteq> NULL \<and> tmp_ptrs \<noteq> NULL then
                let m = set_state (umem s) (header_of tmp_sizes) BLOCK_INTERNAL;
                    m = set_state m (header_of tmp_ptrs) BLOCK_INTERNAL;
                    (a, b, c, d) = merge_sort_descending 0 n
                      (load64s m sizes n, load64s m ptrs n, load64s m tmp_sizes n, load64s m tmp_ptrs n);
                    m = store64s (store64s (store64s (store64s m sizes a) ptrs b) tmp_sizes c) tmp_ptrs d
                in s\<lparr>umem := m\<rparr>
              else
                let (a, b) = selection_sort n (load64s (umem s) sizes n, load64s (umem s) ptrs n)
                in s\<lparr>umem := store64s (store64s (umem s) sizes a) ptrs b\<rparr>);
     Some (free (free s tmp_sizes) tmp_ptrs) }"

section \<open>heap_info\<close>

record heap_info_struct =
  num_allocs :: int
  size_array :: addr
  ptr_array :: addr
  free_space :: int
  largest_free_chunk :: int

definition zero_info :: heap_info_struct where
  "zero_info = \<lparr>num_allocs = 0, size_array = NULL, ptr_array = NULL, free_space = 0, largest_free_chunk = 0\<rparr>"

partial_function (option) count_used :: "mem \<Rightarrow> addr \<Rightarrow> addr \<Rightarrow> nat \<Rightarrow> nat option" where
  "count_used m heap_end cur n =
     (if cur < heap_end
      then count_used m heap_end (cur + ucast (h_size m cur)) (if h_state m cur = BLOCK_USED then n + 1 else n)
      else Some n)"

text \<open>The second pass: fills the arrays and totals the free blocks (\<^verbatim>\<open>int\<close> reads of sizes).\<close>

partial_function (option) info_walk ::
  "mem \<Rightarrow> addr \<Rightarrow> addr \<Rightarrow> addr \<Rightarrow> addr \<Rightarrow> nat \<Rightarrow> int \<Rightarrow> int \<Rightarrow> (mem \<times> nat \<times> int \<times> int) option" where
  "info_walk m heap_end cur sizes ptrs index space largest =
     (if cur < heap_end
      then let next = cur + ucast (h_size m cur)
           in if h_state m cur = BLOCK_USED
              then let v = ucast (h_size m cur) - sizeof_header - ucast (h_slop m cur);
                       m' = write64 m (sizes + 8 * of_nat index) v;
                       m' = write64 m' (ptrs + 8 * of_nat index) (payload_of cur)
                   in info_walk m' heap_end (cur + ucast (h_size m' cur)) sizes ptrs (index + 1) space largest
              else if h_state m cur = BLOCK_FREE
              then info_walk m heap_end next sizes ptrs index (space + sint (h_size m cur))
                     (if sint (h_size m cur) > largest then sint (h_size m cur) else largest)
              else info_walk m heap_end next sizes ptrs index space largest
      else Some (m, index, space, largest))"

text \<open>
  The arrays for \<open>n\<close> live allocations: \<open>None\<close> inside the result when either allocation
  fails, after which both are freed.
\<close>

definition alloc_arrays :: "'os sbrk_call \<Rightarrow> 'os heap \<Rightarrow> nat \<Rightarrow> ((addr \<times> addr) option \<times> 'os heap) option" where
  "alloc_arrays sbrk s n =
     (if n > 0 then do {
        (sa, s) \<leftarrow> malloc sbrk s (8 * of_nat n);
        (pa, s) \<leftarrow> malloc sbrk s (8 * of_nat n);
        if sa = NULL \<or> pa = NULL then Some (None, free (free s sa) pa)
        else Some (Some (sa, pa),
               s\<lparr>umem := set_state (set_state (umem s) (header_of sa) BLOCK_INTERNAL) (header_of pa) BLOCK_INTERNAL\<rparr>) }
      else Some (Some (NULL, NULL), s))"

text \<open>\<open>None\<close> also stands for the failed assertion on \<^verbatim>\<open>index\<close>, which ends the process.\<close>

definition heap_info :: "'os sbrk_call \<Rightarrow> 'os heap \<Rightarrow> (int \<times> heap_info_struct \<times> 'os heap) option" where
  "heap_info sbrk s =
     (if \<not> initialized s then Some (- 1, zero_info, s)
      else do {
        n \<leftarrow> count_used (umem s) (last_valid_address s) (managed_memory_start s) 0;
        (arrs, s) \<leftarrow> alloc_arrays sbrk s n;
        case arrs of
          None \<Rightarrow> Some (- 1, zero_info, s)
        | Some (sa, pa) \<Rightarrow> do {
            (m, index, space, largest) \<leftarrow>
              info_walk (umem s) (last_valid_address s) (managed_memory_start s) sa pa 0 0 0;
            if index \<noteq> n then None
            else do {
              s \<leftarrow> (if n > 0 then sort_descending sbrk (s\<lparr>umem := m\<rparr>) sa pa n else Some (s\<lparr>umem := m\<rparr>));
              Some (0, \<lparr>num_allocs = int n, size_array = sa, ptr_array = pa,
                        free_space = space, largest_free_chunk = largest\<rparr>, s) } } })"

end
