(* ===== verification/Heap_Sort.thy ===== *)
theory Heap_Sort
  imports Heap_Info
begin

text \<open>
  Both sorts of \<open>Heap_Info\<close> put the sizes in descending order and carry each pointer along with
  its size: on the list of (size, pointer) pairs they are sorted permutations.
\<close>

type_synonym pair = "u64 \<times> addr"

definition desc :: "pair list \<Rightarrow> bool" where
  "desc w \<longleftrightarrow> sorted_wrt (\<lambda>a b. sint (fst a) \<ge> sint (fst b)) w"

definition seg :: "'a list \<Rightarrow> nat \<Rightarrow> nat \<Rightarrow> 'a list" where
  "seg xs a b = take (b - a) (drop a xs)"

lemma seg_length [simp]: "b \<le> length xs \<Longrightarrow> length (seg xs a b) = b - a"
  by (simp add: seg_def)

lemma seg_Cons: "a < b \<Longrightarrow> b \<le> length xs \<Longrightarrow> seg xs a b = xs ! a # seg xs (a + 1) b"
  by (simp add: seg_def Cons_nth_drop_Suc [symmetric] take_Cons')

lemma seg_empty [simp]: "b \<le> a \<Longrightarrow> seg xs a b = []"
  by (simp add: seg_def)

lemma seg_split: "a \<le> m \<Longrightarrow> m \<le> b \<Longrightarrow> seg xs a b = seg xs a m @ seg xs m b"
proof -
  assume "a \<le> m" "m \<le> b"
  then have "b - a = (m - a) + (b - m)" "drop m xs = drop (m - a) (drop a xs)" by simp_all
  then show ?thesis by (simp only: seg_def take_add)
qed

lemma take_update_Suc: "k < length xs \<Longrightarrow> take (Suc k) (xs[k := v]) = take k xs @ [v]"
  by (simp add: take_Suc_conv_app_nth)

fun mergel :: "pair list \<Rightarrow> pair list \<Rightarrow> pair list" where
  "mergel (x # xs) (y # ys) =
     (if sint (fst x) \<ge> sint (fst y) then x # mergel xs (y # ys) else y # mergel (x # xs) ys)"
| "mergel [] ys = ys"
| "mergel xs [] = xs"

lemma mergel_Nil2 [simp]: "mergel xs [] = xs"
  by (cases xs) auto

lemma mergel_mset [simp]: "mset (mergel xs ys) = mset xs + mset ys"
  by (induction xs ys rule: mergel.induct) auto

lemma mergel_set [simp]: "set (mergel xs ys) = set xs \<union> set ys"
  by (induction xs ys rule: mergel.induct) auto

lemma mergel_length [simp]: "length (mergel xs ys) = length xs + length ys"
  by (induction xs ys rule: mergel.induct) auto

lemma mergel_desc: "desc xs \<Longrightarrow> desc ys \<Longrightarrow> desc (mergel xs ys)"
  by (induction xs ys rule: mergel.induct) (force simp: desc_def)+

section \<open>The loops of the merge\<close>

lemma zip_update: "zip (xs[k := a]) (ys[k := b]) = (zip xs ys)[k := (a, b)]"
  by (simp add: update_zip)

lemma copy_run_spec:
  assumes "stop \<le> n" "length sizes = n" "length ptrs = n" "length ts = length tp" "k + (stop - i) \<le> length ts"
    and "copy_run sizes ptrs stop i k ts tp = (k', ts', tp')"
  shows "k' = k + (stop - i) \<and> length ts' = length ts \<and> length tp' = length tp \<and>
    zip ts' tp' = take k (zip ts tp) @ seg (zip sizes ptrs) i stop @ drop k' (zip ts tp)"
  using assms
proof (induction sizes ptrs stop i k ts tp rule: copy_run.induct)
  case (1 sizes ptrs stop i k ts tp)
  show ?case
  proof (cases "i < stop")
    case False
    with 1 show ?thesis by (simp add: copy_run.simps [of sizes])
  next
    case True
    let ?ts = "ts[k := sizes ! i]" and ?tp = "tp[k := ptrs ! i]"
    have run: "copy_run sizes ptrs stop (i + 1) (k + 1) ?ts ?tp = (k', ts', tp')"
      using 1(7) True by (simp add: copy_run.simps [of sizes _ _ i])
    have IH: "k' = (k + 1) + (stop - (i + 1)) \<and> length ts' = length ?ts \<and> length tp' = length ?tp \<and>
      zip ts' tp' = take (k + 1) (zip ?ts ?tp) @ seg (zip sizes ptrs) (i + 1) stop @ drop k' (zip ?ts ?tp)"
      by (rule 1(1) [OF True 1(2-4) _ _ run]) (use 1 True in simp_all)
    have k: "k < length (zip ts tp)" "k < k'" using 1(6) True IH \<open>length ts = length tp\<close> by auto
    have z: "zip ?ts ?tp = (zip ts tp)[k := zip sizes ptrs ! i]" using 1(2-4) True by (simp add: zip_update)
    have t: "take (k + 1) (zip ?ts ?tp) = take k (zip ts tp) @ [zip sizes ptrs ! i]"
      unfolding z using k(1) take_update_Suc [of k "zip ts tp"] by simp
    have d: "drop k' (zip ?ts ?tp) = drop k' (zip ts tp)" unfolding z using k(2) by simp
    have sl: "seg (zip sizes ptrs) i stop = zip sizes ptrs ! i # seg (zip sizes ptrs) (i + 1) stop"
      using True 1(2-4) by (intro seg_Cons) simp_all
    show ?thesis using IH True unfolding t d sl by simp
  qed
qed

text \<open>
  What the merging loop keeps: the two runs still to be read (\<open>is\<close> up to \<open>mid\<close> and \<open>js\<close> up to
  \<open>hi\<close>) and the pairs written so far are together the merge of where it started.
\<close>

definition merged :: "pair list \<Rightarrow> nat \<Rightarrow> nat \<Rightarrow> nat \<Rightarrow> nat \<times> nat \<times> nat \<Rightarrow> pair list \<Rightarrow>
    nat \<times> nat \<times> nat \<times> u64 list \<times> addr list \<Rightarrow> bool" where
  "merged z n mid hi start out r \<longleftrightarrow> (case start of (i, j, k) \<Rightarrow> case r of (i', j', k', ts', tp') \<Rightarrow>
     i' \<le> mid \<and> j' \<le> hi \<and> (i' = mid \<or> j' = hi) \<and> length ts' = n \<and> length tp' = n \<and>
     k \<le> k' \<and> k' + (mid - i') + (hi - j') = k + (mid - i) + (hi - j) \<and>
     take k' (zip ts' tp') @ seg z i' mid @ seg z j' hi = out @ mergel (seg z i mid) (seg z j hi))"

lemma merged_left:
  assumes "i < mid" "j < hi" "mid \<le> length z" "hi \<le> length z" "sint (fst (z ! i)) \<ge> sint (fst (z ! j))"
    and "merged z n mid hi (i + 1, j, k + 1) (out @ [z ! i]) r"
  shows "merged z n mid hi (i, j, k) out r"
proof -
  have "seg z i mid = z ! i # seg z (i + 1) mid" "seg z j hi = z ! j # seg z (j + 1) hi"
    using assms(1-4) by (intro seg_Cons; simp)+
  then have "mergel (seg z i mid) (seg z j hi) = z ! i # mergel (seg z (i + 1) mid) (seg z j hi)"
    using assms(5) by simp
  then show ?thesis using assms(1,2,6) by (auto simp: merged_def)
qed

lemma merged_right:
  assumes "i < mid" "j < hi" "mid \<le> length z" "hi \<le> length z" "\<not> sint (fst (z ! i)) \<ge> sint (fst (z ! j))"
    and "merged z n mid hi (i, j + 1, k + 1) (out @ [z ! j]) r"
  shows "merged z n mid hi (i, j, k) out r"
proof -
  have s: "seg z i mid = z ! i # seg z (i + 1) mid" "seg z j hi = z ! j # seg z (j + 1) hi"
    using assms(1-4) by (intro seg_Cons; simp)+
  have "mergel (seg z i mid) (seg z j hi) = z ! j # mergel (seg z i mid) (seg z (j + 1) hi)"
    using assms(5) by (subst s(1), subst s(2), subst mergel.simps) (simp add: s(1))
  then show ?thesis using assms(1,2,6) by (auto simp: merged_def)
qed

lemma merge_loop_merged:
  assumes "mid \<le> n" "hi \<le> n" "length sizes = n" "length ptrs = n" "length ts = n" "length tp = n"
    and "k + (mid - i) + (hi - j) \<le> n" "i \<le> mid" "j \<le> hi"
  shows "merged (zip sizes ptrs) n mid hi (i, j, k) (take k (zip ts tp))
    (merge_loop sizes ptrs mid hi i j k ts tp)"
  using assms
proof (induction sizes ptrs mid hi i j k ts tp rule: merge_loop.induct)
  case (1 sizes ptrs mid hi i j k ts tp)
  let ?z = "zip sizes ptrs"
  show ?case
  proof (cases "i < mid \<and> j < hi")
    case False
    then have "merge_loop sizes ptrs mid hi i j k ts tp = (i, j, k, ts, tp)"
      by (subst merge_loop.simps) (rule if_not_P)
    then show ?thesis using False 1(3-11) by (auto simp: merged_def)
  next
    case True
    have k: "k < length (zip ts tp)" using 1(7-11) True by auto
    have ln: "i < length ?z" "j < length ?z" "mid \<le> length ?z" "hi \<le> length ?z" using 1(3-6) True by auto
    have f: "fst (?z ! i) = sizes ! i" "fst (?z ! j) = sizes ! j" using ln by simp_all
    have t: "take (k + 1) (zip (ts[k := sizes ! x]) (tp[k := ptrs ! x])) = take k (zip ts tp) @ [?z ! x]"
      if "x < length ?z" for x
      using take_update_Suc [OF k, of "?z ! x"] that by (simp add: zip_update)
    have n1: "k + 1 + (mid - (i + 1)) + (hi - j) \<le> n" and n2: "k + 1 + (mid - i) + (hi - (j + 1)) \<le> n"
      using 1(9) True by linarith+
    show ?thesis
    proof (cases "sint (sizes ! i) \<ge> sint (sizes ! j)")
      case ge: True
      let ?ts = "ts[k := sizes ! i]" and ?tp = "tp[k := ptrs ! i]"
      have run: "merge_loop sizes ptrs mid hi i j k ts tp = merge_loop sizes ptrs mid hi (i + 1) j (k + 1) ?ts ?tp"
        using True ge by (simp add: merge_loop.simps [of sizes _ _ _ i])
      have "merged ?z n mid hi (i + 1, j, k + 1) (take (k + 1) (zip ?ts ?tp))
          (merge_loop sizes ptrs mid hi (i + 1) j (k + 1) ?ts ?tp)"
        by (rule 1(1) [OF True ge 1(3-6) _ _ n1 _ 1(11)]) (use 1(7,8) True in simp_all)
      then show ?thesis
        unfolding run t [OF ln(1)] by (rule merged_left [rotated 5]) (use True ge f ln in simp_all)
    next
      case lt: False
      let ?ts = "ts[k := sizes ! j]" and ?tp = "tp[k := ptrs ! j]"
      have run: "merge_loop sizes ptrs mid hi i j k ts tp = merge_loop sizes ptrs mid hi i (j + 1) (k + 1) ?ts ?tp"
        using True lt by (simp add: merge_loop.simps [of sizes _ _ _ i])
      have "merged ?z n mid hi (i, j + 1, k + 1) (take (k + 1) (zip ?ts ?tp))
          (merge_loop sizes ptrs mid hi i (j + 1) (k + 1) ?ts ?tp)"
        by (rule 1(2) [OF True lt 1(3-6) _ _ n2 1(10)]) (use 1(7,8) True in simp_all)
      then show ?thesis
        unfolding run t [OF ln(2)] by (rule merged_right [rotated 5]) (use True lt f ln in simp_all)
    qed
  qed
qed

lemma merge_loop_spec:
  assumes "mid \<le> n" "hi \<le> n" "length sizes = n" "length ptrs = n" "length ts = n" "length tp = n"
    and "k + (mid - i) + (hi - j) \<le> n" "i \<le> mid" "j \<le> hi"
    and "merge_loop sizes ptrs mid hi i j k ts tp = (i', j', k', ts', tp')"
  shows "i' \<le> mid \<and> j' \<le> hi \<and> (i' = mid \<or> j' = hi) \<and> length ts' = n \<and> length tp' = n \<and>
    k \<le> k' \<and> k' + (mid - i') + (hi - j') = k + (mid - i) + (hi - j) \<and>
    take k' (zip ts' tp') @ seg (zip sizes ptrs) i' mid @ seg (zip sizes ptrs) j' hi =
      take k (zip ts tp) @ mergel (seg (zip sizes ptrs) i mid) (seg (zip sizes ptrs) j hi)"
  by (rule merge_loop_merged [OF assms(1-9), unfolded merged_def assms(10) prod.case])

lemma copy_back:
  assumes "lo \<le> hi" "hi \<le> length xs" "length ts = length xs"
  shows "fold (\<lambda>x a. a[x := ts ! x]) [lo..<hi] xs = take lo xs @ seg ts lo hi @ drop hi xs"
  using assms
proof (induction hi)
  case (Suc hi)
  show ?case
  proof (cases "lo = Suc hi")
    case False
    then have "lo \<le> hi" using Suc.prems by simp
    then have IH: "fold (\<lambda>x a. a[x := ts ! x]) [lo..<hi] xs = take lo xs @ seg ts lo hi @ drop hi xs"
      using Suc by simp
    have "seg ts lo (Suc hi) = seg ts lo hi @ [ts ! hi]"
      using seg_split [of lo hi "Suc hi" ts] \<open>lo \<le> hi\<close> Suc.prems seg_Cons [of hi "Suc hi" ts] by simp
    moreover have "drop hi xs = xs ! hi # drop (Suc hi) xs"
      using Suc.prems by (simp add: Cons_nth_drop_Suc)
    ultimately show ?thesis using IH \<open>lo \<le> hi\<close> Suc.prems by (simp add: list_update_append)
  qed (use Suc in simp)
qed simp

lemma zip_seg: "length xs = length ys \<Longrightarrow> zip (seg xs a b) (seg ys a b) = seg (zip xs ys) a b"
  by (simp add: seg_def take_zip drop_zip)

definition arr_ok :: "nat \<Rightarrow> arrays \<Rightarrow> bool" where
  "arr_ok n arrs \<longleftrightarrow> (case arrs of (s, p, ts, tp) \<Rightarrow> length s = n \<and> length p = n \<and> length ts = n \<and> length tp = n)"

definition pairs :: "arrays \<Rightarrow> pair list" where
  "pairs arrs = (case arrs of (s, p, ts, tp) \<Rightarrow> zip s p)"

lemma merge_spec:
  assumes "lo \<le> mid" "mid \<le> hi" "hi \<le> n" "arr_ok n arrs"
  shows "arr_ok n (merge lo mid hi arrs)"
    "pairs (merge lo mid hi arrs) = take lo (pairs arrs) @
       mergel (seg (pairs arrs) lo mid) (seg (pairs arrs) mid hi) @ drop hi (pairs arrs)"
proof -
  obtain s p ts tp where a: "arrs = (s, p, ts, tp)" "length s = n" "length p = n" "length ts = n" "length tp = n"
    using assms(4) by (cases arrs) (auto simp: arr_ok_def)
  let ?z = "zip s p"
  obtain i j k ts1 tp1 where l: "merge_loop s p mid hi lo mid lo ts tp = (i, j, k, ts1, tp1)" by (cases "merge_loop s p mid hi lo mid lo ts tp") auto
  have "i \<le> mid \<and> j \<le> hi \<and> (i = mid \<or> j = hi) \<and> length ts1 = n \<and> length tp1 = n \<and>
    lo \<le> k \<and> k + (mid - i) + (hi - j) = lo + (mid - lo) + (hi - mid) \<and>
    take k (zip ts1 tp1) @ seg ?z i mid @ seg ?z j hi =
      take lo (zip ts tp) @ mergel (seg ?z lo mid) (seg ?z mid hi)"
    by (rule merge_loop_spec [OF _ _ a(2-5) _ _ _ l]) (use assms in simp_all)
  then have L: "length ts1 = n" "length tp1 = n" "k + (mid - i) + (hi - j) = hi"
    "take k (zip ts1 tp1) @ seg ?z i mid @ seg ?z j hi =
      take lo (zip ts tp) @ mergel (seg ?z lo mid) (seg ?z mid hi)" using assms by auto
  obtain k2 ts2 tp2 where c2: "copy_run s p mid i k ts1 tp1 = (k2, ts2, tp2)" by (cases "copy_run s p mid i k ts1 tp1") auto
  have C2: "k2 = k + (mid - i) \<and> length ts2 = length ts1 \<and> length tp2 = length tp1 \<and>
    zip ts2 tp2 = take k (zip ts1 tp1) @ seg ?z i mid @ drop k2 (zip ts1 tp1)"
    by (rule copy_run_spec [OF _ a(2,3) _ _ c2]) (use assms L in simp_all)
  obtain k3 ts3 tp3 where c3: "copy_run s p hi j k2 ts2 tp2 = (k3, ts3, tp3)" by (cases "copy_run s p hi j k2 ts2 tp2") auto
  have C3: "k3 = k2 + (hi - j) \<and> length ts3 = length ts2 \<and> length tp3 = length tp2 \<and>
    zip ts3 tp3 = take k2 (zip ts2 tp2) @ seg ?z j hi @ drop k3 (zip ts2 tp2)"
    by (rule copy_run_spec [OF _ a(2,3) _ _ c3]) (use assms L C2 in simp_all)
  have len: "length ts3 = n" "length tp3 = n" using C2 C3 L by auto
  have mg: "merge lo mid hi arrs = (take lo s @ seg ts3 lo hi @ drop hi s, take lo p @ seg tp3 lo hi @ drop hi p, ts3, tp3)"
    using assms a(2,3) len copy_back [of lo hi s ts3] copy_back [of lo hi p tp3]
    by (simp add: merge_def a(1) l c2 c3)
  have "k3 = hi" using C2 C3 L by simp
  have "take hi (zip ts3 tp3) = take lo (zip ts tp) @ mergel (seg ?z lo mid) (seg ?z mid hi)"
  proof -
    have "take k2 (zip ts2 tp2) = take k (zip ts1 tp1) @ seg ?z i mid"
      using C2 assms L by (simp add: a min_absorb2)
    then have "take hi (zip ts3 tp3) = take k (zip ts1 tp1) @ seg ?z i mid @ seg ?z j hi"
      using C3 C2 \<open>k3 = hi\<close> assms L by (simp add: a min_absorb2)
    then show ?thesis using L(4) by simp
  qed
  then have sl: "seg (zip ts3 tp3) lo hi = mergel (seg ?z lo mid) (seg ?z mid hi)"
    using assms a by (simp add: seg_def drop_take [symmetric])
  show "arr_ok n (merge lo mid hi arrs)" unfolding mg using assms(1-3) a(2-5) len by (simp add: arr_ok_def)
  show "pairs (merge lo mid hi arrs) = take lo (pairs arrs) @
       mergel (seg (pairs arrs) lo mid) (seg (pairs arrs) mid hi) @ drop hi (pairs arrs)"
    unfolding mg using assms(1-3) a(2-5) len by (simp add: a(1) pairs_def zip_append zip_seg sl take_zip drop_zip)
qed

lemma merge_sort_spec:
  assumes "lo \<le> hi" "hi \<le> n" "arr_ok n arrs"
  shows "arr_ok n (merge_sort_descending lo hi arrs) \<and>
    (\<exists>w. pairs (merge_sort_descending lo hi arrs) = take lo (pairs arrs) @ w @ drop hi (pairs arrs) \<and>
      mset w = mset (seg (pairs arrs) lo hi) \<and> desc w)"
  using assms
proof (induction lo hi arrs rule: merge_sort_descending.induct)
  case (1 lo hi arrs)
  have ln: "length (pairs a) = n" if "arr_ok n a" for a using that by (cases a) (auto simp: arr_ok_def pairs_def)
  show ?case
  proof (cases "hi - lo \<le> 1")
    case True
    have "length (seg (pairs arrs) lo hi) \<le> 1" using True 1(4) ln [OF 1(5)] by simp
    then have "desc (seg (pairs arrs) lo hi)"
      by (cases "seg (pairs arrs) lo hi") (auto simp: desc_def)
    moreover have "pairs arrs = take lo (pairs arrs) @ seg (pairs arrs) lo hi @ drop hi (pairs arrs)"
      using 1(3,4) ln [OF 1(5)] by (simp add: seg_def) (metis append_take_drop_id drop_drop le_add_diff_inverse2)
    ultimately show ?thesis using True 1(5) by (subst (1 2) merge_sort_descending.simps) (auto intro!: exI)
  next
    case False
    define mid where "mid = lo + (hi - lo) div 2"
    have m: "lo \<le> mid" "mid \<le> hi" using False by (auto simp: mid_def)
    let ?z = "pairs arrs"
    define a1 where "a1 = merge_sort_descending lo mid arrs"
    define a2 where "a2 = merge_sort_descending mid hi a1"
    obtain w1 where w1: "arr_ok n a1" "pairs a1 = take lo ?z @ w1 @ drop mid ?z" "mset w1 = mset (seg ?z lo mid)" "desc w1"
      using 1(1) [OF False mid_def] m 1(4,5) unfolding a1_def by auto
    obtain w2 where w2: "arr_ok n a2" "pairs a2 = take mid (pairs a1) @ w2 @ drop hi (pairs a1)"
      "mset w2 = mset (seg (pairs a1) mid hi)" "desc w2"
      using 1(2) [OF False mid_def a1_def m(2) 1(4) w1(1)] unfolding a2_def by auto
    have l1: "length w1 = mid - lo" using arg_cong [OF w1(3), of size] m 1(4) ln [OF 1(5)] by simp
    have l2: "length w2 = hi - mid" using arg_cong [OF w2(3), of size] m 1(4) ln [OF w1(1)] by simp
    have s1: "seg (pairs a1) mid hi = seg ?z mid hi" "drop hi (pairs a1) = drop hi ?z"
      "take mid (pairs a1) = take lo ?z @ w1"
      using w1(2) l1 m 1(4) ln [OF 1(5)] by (simp_all add: seg_def)
    have p2: "pairs a2 = take lo ?z @ w1 @ w2 @ drop hi ?z" using w2(2) s1 by simp
    have s2: "seg (pairs a2) lo mid = w1" "seg (pairs a2) mid hi = w2"
      "take lo (pairs a2) = take lo ?z" "drop hi (pairs a2) = drop hi ?z"
      using l1 l2 m 1(4) ln [OF 1(5)] by (simp_all add: p2 seg_def)
    have ms: "merge_sort_descending lo hi arrs = merge lo mid hi a2"
      using False by (subst merge_sort_descending.simps) (simp add: mid_def a1_def a2_def Let_def)
    have "mset (mergel w1 w2) = mset (seg ?z lo hi)"
      using w1(3) w2(3) s1(1) seg_split [OF m, of ?z] by simp
    moreover have "pairs (merge lo mid hi a2) = take lo ?z @ mergel w1 w2 @ drop hi ?z"
      using merge_spec(2) [OF m 1(4) w2(1)] unfolding s2 .
    ultimately show ?thesis
      using merge_spec(1) [OF m 1(4) w2(1)] mergel_desc [OF w1(4) w2(4)] unfolding ms by blast
  qed
qed

section \<open>The fallback\<close>

lemma max_index_fold:
  assumes "mx < n" "a \<le> n"
  shows "let r = fold (\<lambda>j mx. if sint (sizes ! j) > sint (sizes ! mx) then j else mx) [a..<n] mx in
    (r = mx \<or> a \<le> r) \<and> r < n \<and> sint (sizes ! mx) \<le> sint (sizes ! r) \<and>
    (\<forall>j. a \<le> j \<and> j < n \<longrightarrow> sint (sizes ! j) \<le> sint (sizes ! r))"
  using assms
proof (induction "n - a" arbitrary: a mx)
  case 0
  then show ?case by simp
next
  case (Suc d)
  then have lt: "a < n" by simp
  let ?mx = "if sint (sizes ! a) > sint (sizes ! mx) then a else mx"
  let ?r = "fold (\<lambda>j mx. if sint (sizes ! j) > sint (sizes ! mx) then j else mx) [a + 1..<n] ?mx"
  have IH: "let r = ?r in (r = ?mx \<or> a + 1 \<le> r) \<and> r < n \<and> sint (sizes ! ?mx) \<le> sint (sizes ! r) \<and>
    (\<forall>j. a + 1 \<le> j \<and> j < n \<longrightarrow> sint (sizes ! j) \<le> sint (sizes ! r))"
    by (rule Suc.hyps(1)) (use Suc lt in auto)
  have "sint (sizes ! a) \<le> sint (sizes ! ?mx)" "sint (sizes ! mx) \<le> sint (sizes ! ?mx)" by auto
  moreover have j: "j = a \<or> a + 1 \<le> j" if "a \<le> j" for j using that by auto
  moreover have "fold (\<lambda>j mx. if sint (sizes ! j) > sint (sizes ! mx) then j else mx) [a..<n] mx = ?r"
    using lt by (simp add: upt_conv_Cons)
  moreover have "sint (sizes ! a) \<le> sint (sizes ! ?r)" "sint (sizes ! mx) \<le> sint (sizes ! ?r)"
    using calculation(1,2) IH unfolding Let_def by linarith+
  moreover have "?r = mx \<or> a \<le> ?r" "?r < n"
    using IH unfolding Let_def by (auto split: if_splits)
  moreover have "sint (sizes ! j) \<le> sint (sizes ! ?r)" if "a \<le> j" "j < n" for j
    using j [OF that(1)] that(2) IH calculation(5) unfolding Let_def by blast
  ultimately show ?case unfolding Let_def by simp
qed

lemma max_index_spec:
  assumes "i < n"
  shows "i \<le> max_index sizes n i" "max_index sizes n i < n"
    "i \<le> j \<Longrightarrow> j < n \<Longrightarrow> sint (sizes ! j) \<le> sint (sizes ! max_index sizes n i)"
proof -
  note M = max_index_fold [of i n "i + 1" sizes, unfolded Let_def, folded max_index_def]
  show "i \<le> max_index sizes n i" "max_index sizes n i < n" using M assms by auto
  show "sint (sizes ! j) \<le> sint (sizes ! max_index sizes n i)" if "i \<le> j" "j < n"
    using M assms that by (cases "j = i") auto
qed

lemma swap_zip: "zip (swap xs i j) (swap ys i j) = swap (zip xs ys) i j" if "length xs = length ys" "i < length xs" "j < length xs"
  using that by (simp add: swap_def zip_update)

lemma swap_mset: "i < length xs \<Longrightarrow> j < length xs \<Longrightarrow> mset (swap xs i j) = mset xs"
  by (simp add: swap_def mset_swap)

lemma swap_nth:
  "i < length xs \<Longrightarrow> j < length xs \<Longrightarrow> k < length xs \<Longrightarrow>
   swap xs i j ! k = (if k = j then xs ! i else if k = i then xs ! j else xs ! k)"
  by (auto simp: swap_def nth_list_update)

text \<open>After \<open>i\<close> steps the first \<open>i\<close> sizes are in order and none of the others is larger.\<close>

definition sel_inv :: "nat \<Rightarrow> nat \<Rightarrow> u64 list \<Rightarrow> bool" where
  "sel_inv n i sizes \<longleftrightarrow> length sizes = n \<and>
     (\<forall>x y. x < y \<and> x < i \<and> y < n \<longrightarrow> sint (sizes ! y) \<le> sint (sizes ! x))"

lemma selection_step_spec:
  assumes "i < n" "sel_inv n i s" "length p = n" "selection_step n i (s, p) = (s', p')"
  shows "sel_inv n (i + 1) s' \<and> length p' = n \<and> mset (zip s' p') = mset (zip s p)"
proof -
  let ?mx = "max_index s n i"
  note M = max_index_spec [where sizes = s, OF assms(1)]
  have len: "length s = n" using assms(2) by (simp add: sel_inv_def)
  have r: "s' = swap s i ?mx \<and> p' = swap p i ?mx"
    using assms(4) by (auto simp: selection_step_def Let_def swap_def split: if_splits)
  have nth: "s' ! k = (if k = ?mx then s ! i else if k = i then s ! ?mx else s ! k)" if "k < n" for k
    using swap_nth [of i s ?mx k] r len assms(1) M(2) that by simp
  have "sel_inv n (i + 1) s'"
    unfolding sel_inv_def
  proof (intro conjI allI impI)
    show "length s' = n" using r len by (simp add: swap_def)
    fix x y assume xy: "x < y \<and> x < i + 1 \<and> y < n"
    have old: "sint (s ! b) \<le> sint (s ! a)" if "a < b" "a < i" "b < n" for a b
      using assms(2) that by (auto simp: sel_inv_def)
    show "sint (s' ! y) \<le> sint (s' ! x)"
    proof (cases "x = i")
      case True
      then show ?thesis using xy M(3) [of y] M(3) [of i] assms(1) nth [of x] nth [of y] by auto
    next
      case False
      then show ?thesis using xy old [of x y] old [of x i] old [of x ?mx] M(1,2) assms(1) nth [of x] nth [of y] by auto
    qed
  qed
  moreover have "mset (zip s' p') = mset (zip s p)"
  proof -
    have "zip s' p' = swap (zip s p) i ?mx" using r swap_zip [of s p i ?mx] len assms(1,3) M(2) by simp
    then show ?thesis using len assms(1,3) M(2) by (simp add: swap_mset)
  qed
  ultimately show ?thesis using r assms(3) by (simp add: swap_def)
qed

lemma selection_sort_spec:
  assumes "length s = n" "length p = n" "selection_sort n (s, p) = (s', p')"
  shows "length s' = n \<and> length p' = n \<and> mset (zip s' p') = mset (zip s p) \<and> desc (zip s' p')"
proof -
  have "case fold (selection_step n) [0..<i] (s, p) of (s', p') \<Rightarrow>
      sel_inv n i s' \<and> length p' = n \<and> mset (zip s' p') = mset (zip s p)" if "i \<le> n" for i
    using that
  proof (induction i)
    case 0
    then show ?case using assms by (simp add: sel_inv_def)
  next
    case (Suc i)
    obtain a b where ab: "fold (selection_step n) [0..<i] (s, p) = (a, b)" by fastforce
    obtain c d where cd: "selection_step n i (a, b) = (c, d)" by fastforce
    show ?case using Suc selection_step_spec [OF _ _ _ cd] ab cd by simp
  qed
  from this [of n] have "sel_inv n n s'" "length p' = n" "mset (zip s' p') = mset (zip s p)"
    using assms(3) by (auto simp: selection_sort_def)
  then show ?thesis by (auto simp: sel_inv_def desc_def sorted_wrt_iff_nth_less)
qed

section \<open>Property\<close>

lemma merge_sort_sorts:
  assumes "arr_ok n (sizes, ptrs, ts, tp)" "merge_sort_descending 0 n (sizes, ptrs, ts, tp) = (s, p, ts', tp')"
  shows "arr_ok n (s, p, ts', tp')" "mset (zip s p) = mset (zip sizes ptrs)" "desc (zip s p)"
  using merge_sort_spec [of 0 n n "(sizes, ptrs, ts, tp)"] assms by (auto simp: arr_ok_def pairs_def seg_def)

section \<open>The contract of both sorts\<close>

text \<open>
  What \<^verbatim>\<open>heap_info\<close> relies on: \<open>sorts n xs ys xs' ys'\<close> turns two parallel arrays of length \<open>n\<close> into a
  descending permutation of their pairs.
\<close>

locale pair_sort =
  fixes sorts :: "nat \<Rightarrow> u64 list \<Rightarrow> addr list \<Rightarrow> u64 list \<Rightarrow> addr list \<Rightarrow> bool"
  assumes sorts_pairs: "sorts n xs ys xs' ys' \<Longrightarrow> length xs = n \<Longrightarrow> length ys = n \<Longrightarrow>
    length xs' = n \<and> length ys' = n \<and> mset (zip xs' ys') = mset (zip xs ys) \<and> desc (zip xs' ys')"

definition merge_sorts :: "nat \<Rightarrow> u64 list \<Rightarrow> addr list \<Rightarrow> u64 list \<Rightarrow> addr list \<Rightarrow> bool" where
  "merge_sorts n xs ys xs' ys' \<longleftrightarrow> (\<exists>ts tp ts' tp'. length ts = n \<and> length tp = n \<and>
     merge_sort_descending 0 n (xs, ys, ts, tp) = (xs', ys', ts', tp'))"

definition selection_sorts :: "nat \<Rightarrow> u64 list \<Rightarrow> addr list \<Rightarrow> u64 list \<Rightarrow> addr list \<Rightarrow> bool" where
  "selection_sorts n xs ys xs' ys' \<longleftrightarrow> selection_sort n (xs, ys) = (xs', ys')"

interpretation merging: pair_sort merge_sorts
proof
  fix n xs ys xs' ys' assume "merge_sorts n xs ys xs' ys'" "length xs = n" "length ys = n"
  then obtain ts tp ts' tp' where m: "merge_sort_descending 0 n (xs, ys, ts, tp) = (xs', ys', ts', tp')"
    "arr_ok n (xs, ys, ts, tp)" by (auto simp: merge_sorts_def arr_ok_def)
  from merge_sort_sorts [OF m(2,1)]
  show "length xs' = n \<and> length ys' = n \<and> mset (zip xs' ys') = mset (zip xs ys) \<and> desc (zip xs' ys')"
    by (simp add: arr_ok_def)
qed

interpretation selecting: pair_sort selection_sorts
proof
  fix n xs ys xs' ys' assume "selection_sorts n xs ys xs' ys'" "length xs = n" "length ys = n"
  then show "length xs' = n \<and> length ys' = n \<and> mset (zip xs' ys') = mset (zip xs ys) \<and> desc (zip xs' ys')"
    unfolding selection_sorts_def by (intro selection_sort_spec)
qed

text \<open>
  C28. Both ways in which \<^verbatim>\<open>sort_descending\<close> orders its arrays, the merge sort over scratch
  arrays and the in-place selection sort it falls back on, end with the sizes in descending
  order and the (size, pointer) pairs a permutation of those they started with.
\<close>

theorem sorts_descending:
  assumes "length sizes = n" "length ptrs = n" "length ts = n" "length tp = n"
  shows "(case merge_sort_descending 0 n (sizes, ptrs, ts, tp) of (s, p, _, _) \<Rightarrow>
      length s = n \<and> length p = n \<and> mset (zip s p) = mset (zip sizes ptrs) \<and> desc (zip s p)) \<and>
    (case selection_sort n (sizes, ptrs) of (s, p) \<Rightarrow>
      length s = n \<and> length p = n \<and> mset (zip s p) = mset (zip sizes ptrs) \<and> desc (zip s p))"
proof -
  obtain s p ts' tp' where m: "merge_sort_descending 0 n (sizes, ptrs, ts, tp) = (s, p, ts', tp')" by (metis prod_cases4)
  obtain s' p' where c: "selection_sort n (sizes, ptrs) = (s', p')" by (metis surj_pair)
  have "merge_sorts n sizes ptrs s p" unfolding merge_sorts_def using m assms(3,4) by blast
  moreover have "selection_sorts n sizes ptrs s' p'" unfolding selection_sorts_def by (rule c)
  ultimately show ?thesis
    using merging.sorts_pairs [OF _ assms(1,2)] selecting.sorts_pairs [OF _ assms(1,2)] by (simp only: m c prod.case)
qed

theorem sorts_descending_witness:
  "case merge_sort_descending 0 3 ([5, 9, 7], [1, 2, 3], [0, 0, 0], [0, 0, 0]) of
     (s, p, _, _) \<Rightarrow> mset (zip s p) = {#(5, 1), (9, 2), (7, 3)#} \<and> desc (zip s p)"
  using sorts_descending [of "[5, 9, 7]" 3 "[1, 2, 3]" "[0, 0, 0]" "[0, 0, 0]"]
  by (simp add: add_mset_commute split: prod.splits)

end
