(* ===== verification/Heap_Props.thy ===== *)
theory Heap_Props
  imports Brk_Shrink Heap_Sort
begin

text \<open>
  The allocator over the kernel's \<^verbatim>\<open>sbrk\<close> system call: the lemmas of the contract
  \<open>break_provider\<close>, through its interpretation \<open>kb\<close>, as statements about the two programs
  together. \<open>uheap_ok s bs\<close> says that the process's heap is well formed and consists of the
  blocks \<open>bs\<close>, laid out from \<open>ubase s\<close>.
\<close>

abbreviation uheap_ok :: "kstate heap \<Rightarrow> blk list \<Rightarrow> bool" where
  "uheap_ok \<equiv> heap_ok cur_break user_ok"

abbreviation ubase :: "kstate heap \<Rightarrow> nat" where
  "ubase \<equiv> heap_base cur_break"

section \<open>A concrete process\<close>

text \<open>Process 1 with its break at 0x122000, and a page table of fresh tables at 0x50000.\<close>

definition sample_state :: kstate where
  "sample_state = (boot_state sample_image (\<lambda>n p. 0xFF) (fresh_tables 0x50000 (\<lambda>a. 0)))
     \<lparr>kernel_pagetable := 0x50000, current := 1,
      processes := (replicate NPROC zero_proc)[1 := zero_proc\<lparr>p_pid := 1, p_state := P_RUNNABLE,
        original_break := 0x120000, program_break := 0x122000, p_pagetable := 0x50000\<rparr>]\<rparr>"

definition sample_heap :: "kstate heap" where
  "sample_heap = \<lparr>umem = \<lambda>a. 0, initialized = False, managed_memory_start = 0,
     last_valid_address = 0, os = sample_state\<rparr>"

lemma sample_proc:
  "current sample_state = 1" "length (processes sample_state) = 16"
  "original_break (processes sample_state ! 1) = 0x120000"
  "program_break (processes sample_state ! 1) = 0x122000"
  "p_pagetable (processes sample_state ! 1) = 0x50000"
  by (simp_all add: sample_state_def NPROC_def)

lemma sample_ok: "user_ok sample_state" "cur_break sample_state = 0x122000"
  using sample_proc by (simp_all add: user_ok_def cur_proc_def cur_break_def break_ok_def break_limit_def)

lemma sample_heap_ok: "uheap_ok sample_heap []" "ubase sample_heap = 0x122000"
  using sample_ok by (simp_all add: sample_heap_def heap_ok_def heap_base_def)

lemma sample_tables:
  "tables_ok (pmem sample_state) 0x50000 0x51000 0x52000 (0x53000, 0x54000)"
  "virtual_memory_lookup (pmem sample_state) 0x50000 x = unmapped" if "unat x < 0x400000"
proof -
  have m: "pmem sample_state = fresh_tables 0x50000 (\<lambda>a. 0)" by (simp add: sample_state_def boot_state_def)
  have k: "aligned 0x50000" "(0x50000 :: u64) \<noteq> 0" "unat (0x50000 :: u64) + 5 * 4096 \<le> 0x200000"
    by (simp_all add: aligned_def)
  show ok: "tables_ok (pmem sample_state) 0x50000 0x51000 0x52000 (0x53000, 0x54000)"
    using fresh_tables_ok [OF k] by (simp add: m PAGESIZE_def)
  have "unat x div 4096 < 1024" using that by auto
  from fresh_tables_empty [OF k this] show "virtual_memory_lookup (pmem sample_state) 0x50000 x = unmapped"
    unfolding lookup_low [OF ok that] by (simp add: m PAGESIZE_def vam_of_def unmapped_def)
qed

theorem sbrk_effect_witness:
  "\<exists>m pis. sbrk 1 (- 0x1800) sample_state =
     Inr (0, (upd_proc 1 (\<lambda>pr. pr\<lparr>program_break := 0x120800\<rparr>) sample_state)\<lparr>pmem := m, pageinfo := pis\<rparr>)"
proof -
  have b: "backed (pmem sample_state) 0x50000"
    using sample_tables(2) by (simp add: backed_def page_backed_def)
  have t: "tables_ok (pmem sample_state) 0x50000 0x51000 0x52000 (0x53000, 0x54000)"
    using sample_tables(1) [of 0] by simp
  have l: "length (pageinfo sample_state) = NPAGES" by (simp add: sample_state_def boot_state_def)
  have p: "1 < length (processes sample_state)" "break_ok (processes sample_state ! 1)"
    using sample_proc by (simp_all add: break_ok_def break_limit_def)
  have nb: "(0x120800 :: u64) = program_break (processes sample_state ! 1) + (- 0x1800)"
    using sample_proc by simp
  show ?thesis
    using sbrk_effect [OF p sample_proc(5) t b l nb] sample_proc by (auto simp: break_limit_def)
qed

section \<open>malloc\<close>

text \<open>
  C3. \<^verbatim>\<open>malloc\<close> of a size of at most \<open>2 ^ 63 - 16\<close> always returns (its walk over the heap
  terminates, the system call does not fail), leaves a well-formed heap in which every block in
  use is still in place and every byte of those blocks is unchanged, and gives either NULL or an
  8-aligned pointer to a block in use with room for the request whose bytes belonged to no block
  in use.
\<close>

theorem malloc_correct:
  assumes ok: "uheap_ok s bs" and sz: "unat sz + 16 \<le> 2 ^ 63"
  shows "\<exists>p s' bs'. malloc user_sbrk s sz = Some (p, s') \<and> uheap_ok s' bs' \<and> ubase s' = ubase s \<and>
    (\<forall>q b. blk_at (ubase s) bs q b \<and> in_use b \<longrightarrow> blk_at (ubase s) bs' q b) \<and>
    (\<forall>x \<in> busy (ubase s) bs. umem s' (of_nat x) = umem s (of_nat x)) \<and>
    (p = NULL \<or> 8 dvd unat p \<and>
       (\<exists>n sl. blk_at (ubase s) bs' (unat p) (Used n sl) \<and> unat sz + 8 + sl \<le> n \<and>
          {unat p - 8..<unat p + (n - 8)} \<inter> busy (ubase s) bs = {}))"
proof -
  obtain res bs' where sp: "spec_malloc break_limit (ubase s) bs (unat sz) = (res, bs')" by fastforce
  obtain s' where m: "malloc user_sbrk s sz = Some (case res of None \<Rightarrow> NULL | Some p \<Rightarrow> of_nat p, s')"
    and ok': "uheap_ok s' bs'" and b: "ubase s' = ubase s"
    and fr: "\<And>x. x \<in> busy (ubase s) bs \<Longrightarrow> umem s' (of_nat x) = umem s (of_nat x)"
    using kb.malloc_result [OF ok sz sp] by blast
  have keep: "\<forall>q b. blk_at (ubase s) bs q b \<and> in_use b \<longrightarrow> blk_at (ubase s) bs' q b"
    using spec_malloc_keeps [of "ubase s" bs _ _ break_limit "unat sz"] sp by simp
  show ?thesis
  proof (cases res)
    case None
    then show ?thesis using m ok' b fr keep by auto
  next
    case (Some p)
    obtain n sl where f: "blk_at (ubase s) bs' p (Used n sl)" "unat sz + 8 + sl \<le> n"
      "{p - 8..<p + (n - 8)} \<inter> busy (ubase s) bs = {}" "8 dvd p - ubase s" "ubase s + 8 \<le> p"
      using spec_malloc_fresh [OF sp [unfolded Some] kb.heap_ok_layout(2) [OF ok]] by blast
    have "p < 2 ^ 31" using kb.blk_at_ptr(2) [OF ok'] f(1) b by auto
    then have u: "unat (of_nat p :: u64) = p" by (intro unat_of_nat64) simp
    have "8 dvd ubase s" using ok by (simp add: heap_ok_def)
    then have "8 dvd p" using f(4,5) by (metis dvd_diffD1 dvd_diffD le_add1 le_trans)
    then show ?thesis using m ok' b fr keep f Some u by auto
  qed
qed

theorem malloc_correct_witness:
  "\<exists>p s' bs'. malloc user_sbrk sample_heap 12 = Some (p, s') \<and> uheap_ok s' bs'"
  using malloc_correct [OF sample_heap_ok(1), of 12] by auto

text \<open>
  C25. When \<^verbatim>\<open>malloc\<close> returns NULL: exactly when the size is 0, or no free block holds the
  rounded size and its header and the kernel refuses to move the break that far. So a request
  that the free list or the break can serve is never refused.
\<close>

theorem malloc_null_iff:
  assumes ok: "uheap_ok s bs" and sz: "unat sz + 16 \<le> 2 ^ 63"
  shows "\<exists>p s'. malloc user_sbrk s sz = Some (p, s') \<and>
    (p = NULL \<longleftrightarrow> sz = 0 \<or>
       (\<forall>n. Free n \<in> set bs \<longrightarrow> n < round8 (unat sz) + 8) \<and>
       break_limit \<le> ubase s + bsizes bs + (round8 (unat sz) + 8))"
proof -
  obtain res bs' where sp: "spec_malloc break_limit (ubase s) bs (unat sz) = (res, bs')" by fastforce
  obtain s' where m: "malloc user_sbrk s sz = Some (case res of None \<Rightarrow> NULL | Some p \<Rightarrow> of_nat p, s')"
    and ok': "uheap_ok s' bs'" and b: "ubase s' = ubase s"
    using kb.malloc_result [OF ok sz sp] by blast
  have "of_nat p \<noteq> NULL" if r: "res = Some p" for p
  proof -
    obtain n sl where "blk_at (ubase s) bs' p (Used n sl)"
      using spec_malloc_fresh [OF sp [unfolded r] kb.heap_ok_layout(2) [OF ok]] by blast
    then show ?thesis using kb.blk_at_ptr(1) [OF ok'] b by auto
  qed
  then have "(case res of None \<Rightarrow> NULL | Some p \<Rightarrow> of_nat p) = NULL \<longleftrightarrow> res = None"
    by (auto split: option.splits)
  moreover have "res = None \<longleftrightarrow> sz = 0 \<or>
       (\<forall>n. Free n \<in> set bs \<longrightarrow> n < round8 (unat sz) + 8) \<and>
       break_limit \<le> ubase s + bsizes bs + (round8 (unat sz) + 8)"
    using sp spec_fit_None [of "round8 (unat sz) + 8" bs]
    by (auto simp: spec_malloc_def Let_def unat_eq_0 split: option.splits if_splits)
  ultimately show ?thesis using m by (intro exI conjI) simp_all
qed

theorem malloc_null_iff_witness:
  "\<exists>p s'. malloc user_sbrk sample_heap 0x200000 = Some (p, s') \<and> p = NULL"
  using malloc_null_iff [OF sample_heap_ok(1), of "0x200000"] sample_heap_ok(2)
  by (auto simp: break_limit_def round8_def)

text \<open>
  A free block taken whole forgets the rounding: when the first free block that fits leaves
  a remainder too small to split off, the new block's slop is that remainder only, so the size
  that \<^verbatim>\<open>heap_info\<close> and \<^verbatim>\<open>realloc\<close> read back (\<open>size - header - slop\<close>) is the request
  rounded up to 8, not the request.
\<close>

theorem malloc_whole_block_size:
  assumes ok: "uheap_ok s bs" and sz: "sz \<noteq> 0" "unat sz + 16 \<le> 2 ^ 63"
    and fit: "spec_fit (round8 (unat sz) + 8) bs = Some (pre, n, post)" "n < round8 (unat sz) + 24"
  shows "\<exists>p s'. malloc user_sbrk s sz = Some (p, s') \<and>
    unat (ucast (h_size (umem s') (header_of p)) - sizeof_header - ucast (h_slop (umem s') (header_of p)) :: u64)
      = round8 (unat sz)"
proof -
  from spec_fit_Some [OF fit(1)] have n: "round8 (unat sz) + 8 \<le> n" and bs: "bs = pre @ Free n # post" by auto
  let ?p = "ubase s + bsizes pre + 8" and ?sl = "n - (round8 (unat sz) + 8)"
  let ?bs = "pre @ Used n ?sl # post"
  have sp: "spec_malloc break_limit (ubase s) bs (unat sz) = (Some ?p, ?bs)"
    using fit sz(1) n by (simp add: spec_malloc_def Let_def spec_place_def unat_eq_0)
  obtain s' where m: "malloc user_sbrk s sz = Some (of_nat ?p, s')"
    and ok': "uheap_ok s' ?bs" and b: "ubase s' = ubase s"
    using kb.malloc_result [OF ok sz(2) sp] by auto
  have "blk_at (ubase s') ?bs ?p (Used n ?sl)" by (simp add: b)
  from kb.old_usable [OF ok' this] m n show ?thesis by auto
qed

text \<open>A heap with one free block, from a first allocation that was freed again.\<close>

lemma sample_freed:
  obtains s where "uheap_ok s [Free 16]" "ubase s = 0x122000"
proof -
  have sp: "spec_malloc break_limit (ubase sample_heap) [] (unat (7 :: u64)) = (Some 0x122008, [Used 16 1])"
    using sample_heap_ok by (simp add: spec_malloc_def round8_def break_limit_def)
  obtain s1 where "uheap_ok s1 [Used 16 1]" "ubase s1 = 0x122000"
    using kb.malloc_result [OF sample_heap_ok(1) _ sp] sample_heap_ok(2) by auto
  then have "uheap_ok (free s1 (of_nat 0x122008)) [Free 16]" "ubase (free s1 (of_nat 0x122008)) = 0x122000"
    using kb.free_refines(1,3) [of s1 "[Used 16 1]" "0x122008" "Used 16 1"] by simp_all
  then show thesis by (rule that)
qed

theorem malloc_whole_block_size_witness:
  "\<exists>s p s'. malloc user_sbrk s 7 = Some (p, s') \<and>
    unat (ucast (h_size (umem s') (header_of p)) - sizeof_header - ucast (h_slop (umem s') (header_of p)) :: u64) = 8"
proof -
  obtain s where s: "uheap_ok s [Free 16]" by (rule sample_freed)
  show ?thesis
    using malloc_whole_block_size [OF s, of 7 "[]" 16 "[]"] by (auto simp: round8_def)
qed

text \<open>
  The largest size of all wraps in \<^verbatim>\<open>round_up\<close>: on a heap that was never used and
  whose break can move by 8 bytes, \<^verbatim>\<open>malloc(SIZE_MAX)\<close> does not fail but returns a pointer
  to a block of 8 bytes, its header, with no payload at all.
\<close>

theorem malloc_size_max_wraps:
  assumes ok: "uheap_ok s []" and i: "\<not> initialized s" and lim: "ubase s + 8 < break_limit"
  shows "\<exists>s'. malloc user_sbrk s (- 1) = Some (cur_break (os s) + 8, s') \<and>
    h_size (umem s') (header_of (cur_break (os s) + 8)) = 8"
proof -
  have k: "user_ok (os s)" and b: "ubase s = unat (cur_break (os s))"
    using ok i by (auto simp: heap_ok_def heap_base_def)
  obtain k1 where k1: "user_sbrk (os s) 0 = Some (cur_break (os s), k1)" "user_ok k1" "cur_break k1 = cur_break (os s)"
    using kb.grow_ok [OF k, of 0] kb.brk_below [OF k] by auto
  obtain k2 where k2: "user_sbrk k1 8 = Some (cur_break (os s), k2)"
    using kb.grow_ok [OF k1(2), of 8] lim b k1(3) by auto
  have sizes: "round_up (- 1) ALIGN = 0" by (simp add: round_up_def ALIGN_def)
  have nm: "cur_break (os s) \<noteq> - 1" by (rule kb.brk_not_minus1 [OF k])
  have fit: "find_fit m a n a = Some None" for m a n by (simp add: find_fit.simps)
  show ?thesis
    using i k1(1) k2 nm
    by (simp add: malloc_def init_def sizes sizeof_header_def fit payload_of_def header_of_def
        set_size_def h_size_def Let_def)
qed

theorem malloc_size_max_wraps_witness: "\<exists>s'. malloc user_sbrk sample_heap (- 1) = Some (0x122008, s')"
proof -
  have i: "\<not> initialized sample_heap" and o: "cur_break (os sample_heap) = 0x122000"
    using sample_ok(2) by (simp_all add: sample_heap_def)
  have l: "ubase sample_heap + 8 < break_limit" using sample_heap_ok(2) by (simp add: break_limit_def)
  show ?thesis using malloc_size_max_wraps [OF sample_heap_ok(1) i l] o by auto
qed

section \<open>free, calloc, realloc, defrag\<close>

text \<open>
  C26. \<^verbatim>\<open>free\<close> of a live block turns exactly that block into a free block of the same size
  and changes one byte of memory, the state byte of its header.
\<close>

theorem free_correct:
  assumes "uheap_ok s (pre @ b # post)" and p: "p = ubase s + bsizes pre + 8"
  shows "uheap_ok (free s (of_nat p)) (pre @ Free (bsize b) # post) \<and>
    ubase (free s (of_nat p)) = ubase s \<and>
    (\<forall>x < 2 ^ 64. x \<noteq> p - 8 \<longrightarrow> umem (free s (of_nat p)) (of_nat x) = umem s (of_nat x))"
proof -
  have b: "blk_at (ubase s) (pre @ b # post) p b" by (simp add: p)
  have "list_all wf_blk pre" using kb.heap_ok_layout(2) [OF assms(1)] by simp
  then have "set_blk free_blk p (ubase s) (pre @ b # post) = pre @ Free (bsize b) # post"
    using set_blk_split [of pre free_blk "ubase s" b post] by (simp add: p)
  then show ?thesis using kb.free_refines [OF assms(1) b] by simp
qed

theorem free_correct_witness:
  "\<exists>s s' p. uheap_ok s [Used 16 1] \<and> s' = free s p \<and> uheap_ok s' [Free 16]"
proof -
  have sp: "spec_malloc break_limit (ubase sample_heap) [] (unat (7 :: u64)) = (Some 0x122008, [Used 16 1])"
    using sample_heap_ok by (simp add: spec_malloc_def round8_def break_limit_def)
  obtain s1 where s1: "uheap_ok s1 [Used 16 1]" "ubase s1 = 0x122000"
    using kb.malloc_result [OF sample_heap_ok(1) _ sp] sample_heap_ok(2) by auto
  show ?thesis using free_correct [of s1 "[]" "Used 16 1" "[]" "0x122008"] s1 by auto
qed

text \<open>
  C27. \<^verbatim>\<open>calloc\<close> whose product overflows 64 bits gives NULL and changes nothing; otherwise
  it behaves as \<^verbatim>\<open>malloc\<close> of the product, and all bytes of the memory it hands out are 0.
\<close>

theorem calloc_correct:
  assumes ok: "uheap_ok s bs"
  shows "(2 ^ 64 \<le> unat num * unat sz \<longrightarrow> calloc user_sbrk s num sz = Some (NULL, s)) \<and>
    (unat num * unat sz + 16 \<le> 2 ^ 63 \<longrightarrow> (\<exists>p s'. calloc user_sbrk s num sz = Some (p, s') \<and>
       alloc_post cur_break user_ok s bs
         (spec_malloc break_limit (ubase s) bs (unat num * unat sz)) (p, s') \<and>
       (p \<noteq> NULL \<longrightarrow> (\<forall>i < unat num * unat sz. umem s' (p + of_nat i) = 0))))"
  using kb.calloc_overflow [of num sz s] kb.calloc_refines [OF ok, of num sz] by auto

theorem calloc_correct_witness:
  "calloc user_sbrk sample_heap 0x100000000 0x100000000 = Some (NULL, sample_heap) \<and>
   (\<exists>p s'. calloc user_sbrk sample_heap 3 5 = Some (p, s'))"
proof -
  have "2 ^ 64 \<le> unat (0x100000000 :: u64) * unat (0x100000000 :: u64)" by simp
  moreover have "unat (3 :: u64) * unat (5 :: u64) + 16 \<le> 2 ^ 63" by simp
  ultimately show ?thesis
    using calloc_correct [OF sample_heap_ok(1), of "0x100000000" "0x100000000"]
      calloc_correct [OF sample_heap_ok(1), of 3 5] by blast
qed

text \<open>
  C13. \<^verbatim>\<open>realloc\<close> of a live block to a non-zero size returns; when there is no memory it
  gives NULL and the block stays; otherwise the new block starts with the old contents up to the
  smaller of the two sizes, the old block is free, and no byte of any other live block changed.
\<close>

theorem realloc_correct:
  assumes ok: "uheap_ok s bs" and b: "blk_at (ubase s) bs p (Used n sl)"
    and sz: "sz \<noteq> 0" "unat sz + 16 \<le> 2 ^ 63"
  shows "\<exists>q s'. realloc user_sbrk s (of_nat p) sz = Some (q, s') \<and> ubase s' = ubase s \<and>
    (\<forall>x \<in> busy (ubase s) bs - {p - 8}. umem s' (of_nat x) = umem s (of_nat x)) \<and>
    (case spec_malloc break_limit (ubase s) bs (unat sz) of
       (None, _) \<Rightarrow> q = NULL \<and> uheap_ok s' bs
     | (Some r, bs') \<Rightarrow> q = of_nat r \<and> uheap_ok s' (set_blk free_blk p (ubase s) bs') \<and>
         (\<forall>i < min (n - 8 - sl) (unat sz). umem s' (of_nat (r + i)) = umem s (of_nat (p + i))))"
proof -
  obtain q s' where r: "realloc user_sbrk s (of_nat p) sz = Some (q, s')"
    "realloc_post cur_break user_ok s bs p (min (n - 8 - sl) (unat sz))
       (spec_malloc break_limit (ubase s) bs (unat sz)) (q, s')"
    using kb.realloc_refines [OF ok b sz] by auto
  moreover have "bs' = bs" if "spec_malloc break_limit (ubase s) bs (unat sz) = (None, bs')" for bs'
    using that by (auto simp: spec_malloc_def Let_def split: option.splits if_splits)
  ultimately show ?thesis
    by (cases "spec_malloc break_limit (ubase s) bs (unat sz)") (auto simp: realloc_post_def split: option.splits)
qed

theorem realloc_correct_witness:
  "\<exists>s q s'. realloc user_sbrk s 0x122008 20 = Some (q, s') \<and> (\<forall>i < 7. umem s' (of_nat (0x122018 + i)) = umem s (of_nat (0x122008 + i)))"
proof -
  have sp: "spec_malloc break_limit (ubase sample_heap) [] (unat (7 :: u64)) = (Some 0x122008, [Used 16 1])"
    using sample_heap_ok by (simp add: spec_malloc_def round8_def break_limit_def)
  obtain s1 where s1: "uheap_ok s1 [Used 16 1]" "ubase s1 = 0x122000"
    using kb.malloc_result [OF sample_heap_ok(1) _ sp] sample_heap_ok(2) by auto
  have "spec_malloc break_limit 0x122000 [Used 16 1] (unat (20 :: u64)) = (Some 0x122018, [Used 16 1, Used 32 4])"
    by (simp add: spec_malloc_def round8_def break_limit_def)
  then show ?thesis
    using realloc_correct [OF s1(1), of "0x122008" 16 1 20] s1(2) by auto
qed

text \<open>
  C15. \<^verbatim>\<open>defrag\<close> returns on every well-formed heap; afterwards no two neighbouring blocks
  are free, the blocks in use are the same, at the same addresses and with the same bytes, and
  the heap's total size and the free bytes in it are what they were.
\<close>

theorem defrag_correct:
  assumes "uheap_ok s bs" "initialized s"
  shows "\<exists>s' bs'. defrag s = Some s' \<and> uheap_ok s' bs' \<and> ubase s' = ubase s \<and>
    no_adjacent_free bs' \<and> filter in_use bs' = filter in_use bs \<and>
    (\<forall>q b. in_use b \<longrightarrow> blk_at (ubase s) bs' q b = blk_at (ubase s) bs q b) \<and>
    bsizes bs' = bsizes bs \<and> free_total bs' = free_total bs \<and>
    (\<forall>x \<in> busy (ubase s) bs. umem s' (of_nat x) = umem s (of_nat x))"
proof -
  obtain s' where "defrag s = Some s'" "uheap_ok s' (spec_defrag bs)" "ubase s' = ubase s"
    "\<forall>x \<in> busy (ubase s) bs. umem s' (of_nat x) = umem s (of_nat x)"
    using kb.defrag_refines [OF assms] by blast
  then show ?thesis
    using no_adjacent_spec_defrag in_use_spec_defrag blk_at_spec_defrag bsizes_spec_defrag free_total_spec_defrag
    by (intro exI [of _ s'] exI [of _ "spec_defrag bs"]) simp
qed

theorem defrag_correct_witness: "\<exists>s s'. initialized (s :: kstate heap) \<and> defrag s = Some s'"
proof -
  obtain s where s: "uheap_ok s [Free 16]" by (rule sample_freed)
  then have "initialized s" by (auto simp: heap_ok_def split: if_splits)
  with defrag_correct [OF s] show ?thesis by blast
qed

end
