(* ===== verification/Programs.thy ===== *)
theory Programs
  imports Heap_Info X86
begin

text \<open>
  The user programs \<^verbatim>\<open>uspace/p-test.c\<close>, \<^verbatim>\<open>p-allocator.c\<close>, \<^verbatim>\<open>p-alloctests.c\<close> and
  \<^verbatim>\<open>p-malloc.c\<close>, and the \<^verbatim>\<open>p-test.c\<close> of \<^verbatim>\<open>c/final\<close>, over the allocator's state and the \<^verbatim>\<open>sbrk\<close> call. A program ends by passing
  or by a failed assertion, whose source line is kept. \<open>None\<close> is a program that never ends.
\<close>

datatype 'os verdict = Passed "'os heap" | Failed nat "'os heap"

section \<open>p-test.c\<close>

text \<open>\<open>n\<close> rounds of the loop that reuses a freed block.\<close>

fun p_test_rounds :: "'os sbrk_call \<Rightarrow> nat \<Rightarrow> addr \<Rightarrow> 'os heap \<Rightarrow> 'os verdict option" where
  "p_test_rounds sbrk 0 heap_top s = Some (Passed s)"
| "p_test_rounds sbrk (Suc n) heap_top s = do {
     (ptr, s) \<leftarrow> malloc sbrk s 7;
     if ptr = NULL then Some (Failed 29 s)
     else do {
       (top, k) \<leftarrow> sbrk (os s) 0;
       let s = s\<lparr>os := k\<rparr>;
       if top \<noteq> heap_top then Some (Failed 32 s)
       else p_test_rounds sbrk n heap_top
              (free (s\<lparr>umem := snd (memset (umem s) ptr (of_char CHR ''A'') 7)\<rparr>) ptr) } }"

definition p_test :: "'os sbrk_call \<Rightarrow> 'os heap \<Rightarrow> 'os verdict option" where
  "p_test sbrk s = do {
     (ptr, s) \<leftarrow> malloc sbrk s 7;
     if ptr = NULL then Some (Failed 22 s)
     else do {
       (heap_top, k) \<leftarrow> sbrk (os s) 0;
       p_test_rounds sbrk 99999 heap_top (free (s\<lparr>os := k\<rparr>) ptr) } }"

section \<open>p-allocator.c\<close>

partial_function (option) p_allocator_loop ::
  "'os sbrk_call \<Rightarrow> u8 \<Rightarrow> addr \<Rightarrow> addr \<Rightarrow> 'os heap \<Rightarrow> 'os verdict option" where
  "p_allocator_loop sbrk p stack_bottom heap_top s =
     (if heap_top + PAGESIZE < stack_bottom
      then do {
        (r, k) \<leftarrow> sbrk (os s) PAGESIZE;
        if r = - 1 then Some (Passed (s\<lparr>os := k\<rparr>))
        else p_allocator_loop sbrk p stack_bottom (r + PAGESIZE) (s\<lparr>os := k, umem := (umem s)(heap_top := p)\<rparr>) }
      else Some (Passed s))"

text \<open>\<open>end_addr\<close> and \<open>rsp\<close> are the linker's end of the program and its stack pointer.\<close>

definition p_allocator :: "'os sbrk_call \<Rightarrow> u8 \<Rightarrow> addr \<Rightarrow> addr \<Rightarrow> 'os heap \<Rightarrow> 'os verdict option" where
  "p_allocator sbrk p end_addr rsp s =
     p_allocator_loop sbrk p (ROUNDDOWN (rsp - 1) PAGESIZE) (ROUNDUP end_addr PAGESIZE) s"

section \<open>p-alloctests.c\<close>

definition store_ints :: "addr \<Rightarrow> nat \<Rightarrow> mem \<Rightarrow> mem" where
  "store_ints a n m = fold (\<lambda>i m. write32 m (a + 4 * of_nat i) (of_nat i)) [0..<n] m"

definition strictly_descending :: "u64 list \<Rightarrow> bool" where
  "strictly_descending xs \<longleftrightarrow> (\<forall>i \<in> {1..<length xs}. sint (xs ! i) < sint (xs ! (i - 1)))"

text \<open>The assertions, up to the frees of the two arrays; a failed \<^verbatim>\<open>heap_info\<close> only prints.\<close>

definition p_alloctests_checks :: "'os sbrk_call \<Rightarrow> 'os heap \<Rightarrow> 'os verdict option" where
  "p_alloctests_checks sbrk s = do {
     (array, s) \<leftarrow> malloc sbrk s (4 * 10);
     let s = s\<lparr>umem := store_ints array 10 (umem s)\<rparr>;
     (array, s) \<leftarrow> realloc sbrk s array (4 * 20);
     if \<exists>i \<in> {0..<10}. read32 (umem s) (array + 4 * of_nat i) \<noteq> of_nat i then Some (Failed 25 s)
     else do {
       (array2, s) \<leftarrow> calloc sbrk s 30 4;
       if \<exists>i \<in> {0..<30}. read32 (umem s) (array2 + 4 * of_nat i) \<noteq> 0 then Some (Failed 33 s)
       else do {
         (r, info, s) \<leftarrow> heap_info sbrk s;
         if r = 0 \<and> \<not> strictly_descending (load64s (umem s) (size_array info) (nat (num_allocs info)))
         then Some (Failed 40 s)
         else Some (Passed (free (free s array) array2)) } } }"

text \<open>
  The final loop: pages until \<^verbatim>\<open>malloc\<close> fails; the result is their number and the time spent,
  by the \<open>n\<close>-th readings of the cycle counter.
\<close>

partial_function (option) p_alloctests_pages ::
  "'os sbrk_call \<Rightarrow> (nat \<Rightarrow> u32 \<times> u32) \<Rightarrow> u32 \<Rightarrow> nat \<Rightarrow> u64 \<Rightarrow> 'os heap \<Rightarrow> (nat \<times> u64 \<times> 'os heap) option" where
  "p_alloctests_pages sbrk tsc p pages time s = do {
     (ptr, s) \<leftarrow> malloc sbrk s PAGESIZE;
     let time = time + (case_prod rdtsc (tsc (2 * pages + 1)) - case_prod rdtsc (tsc (2 * pages)));
     if ptr = NULL then Some (pages, time, s)
     else p_alloctests_pages sbrk tsc p (pages + 1) time (s\<lparr>umem := write32 (umem s) ptr p\<rparr>) }"

text \<open>
  The program: the average that it prints divides by the number of pages, which traps at line 65
  when there are none. What follows is an endless \<^verbatim>\<open>yield\<close>.
\<close>

definition p_alloctests ::
  "'os sbrk_call \<Rightarrow> (nat \<Rightarrow> u32 \<times> u32) \<Rightarrow> u32 \<Rightarrow> 'os heap \<Rightarrow> 'os verdict option" where
  "p_alloctests sbrk tsc p s = do {
     v \<leftarrow> p_alloctests_checks sbrk s;
     case v of
       Failed line s \<Rightarrow> Some (Failed line s)
     | Passed s \<Rightarrow> do {
         (pages, time, s) \<leftarrow> p_alloctests_pages sbrk tsc p 0 0 s;
         Some (if pages = 0 then Failed 65 s else Passed s) } }"

section \<open>p-malloc.c\<close>

text \<open>One round of the loop before its \<^verbatim>\<open>yield\<close>; \<open>False\<close> when the memory is exhausted.\<close>

definition p_malloc_round ::
  "'os sbrk_call \<Rightarrow> int \<Rightarrow> rand_state \<Rightarrow> 'os heap \<Rightarrow> (bool \<times> rand_state \<times> 'os heap) option" where
  "p_malloc_round sbrk p rs s =
     (let (r, rs) = rand rs
      in if sint r mod 100 < p
         then do {
           (ptr, s) \<leftarrow> malloc sbrk s PAGESIZE;
           if ptr = NULL then Some (False, rs, s)
           else Some (True, rs, s\<lparr>umem := write32 (umem s) ptr (word_of_int p)\<rparr>) }
         else Some (True, rs, s))"

text \<open>The loop until the memory is exhausted; what follows is an endless \<^verbatim>\<open>yield\<close>.\<close>

partial_function (option) p_malloc_fill ::
  "'os sbrk_call \<Rightarrow> int \<Rightarrow> rand_state \<Rightarrow> 'os heap \<Rightarrow> (rand_state \<times> 'os heap) option" where
  "p_malloc_fill sbrk p rs s = do {
     (more, rs, s) \<leftarrow> p_malloc_round sbrk p rs s;
     if more then p_malloc_fill sbrk p rs s else Some (rs, s) }"

definition p_malloc :: "'os sbrk_call \<Rightarrow> int \<Rightarrow> 'os heap \<Rightarrow> (rand_state \<times> 'os heap) option" where
  "p_malloc sbrk p s = p_malloc_fill sbrk p \<lparr>rand_seed_set = False, rand_seed = 0\<rparr> s"

section \<open>p-test.c of the other variant\<close>

text \<open>
  The variant \<^verbatim>\<open>c/final\<close> has another \<^verbatim>\<open>p-test.c\<close>: it allocates, checks and frees zeroed arrays of all
  sizes \<open>i\<close> by \<open>j\<close>, and merges the free blocks after each row.
\<close>

fun calloc_row :: "'os sbrk_call \<Rightarrow> nat \<Rightarrow> nat list \<Rightarrow> 'os heap \<Rightarrow> 'os verdict option" where
  "calloc_row sbrk i [] s = Some (Passed s)"
| "calloc_row sbrk i (j # js) s = do {
     (ptr, s) \<leftarrow> calloc sbrk s (of_nat i) (of_nat j);
     if ptr = NULL then Some (Failed 25 s)
     else if \<exists>k \<in> {0..<i * j}. umem s (ptr + of_nat k) \<noteq> 0 then Some (Failed 28 s)
     else calloc_row sbrk i js (free s ptr) }"

fun calloc_rows :: "'os sbrk_call \<Rightarrow> nat list \<Rightarrow> 'os heap \<Rightarrow> 'os verdict option" where
  "calloc_rows sbrk [] s = Some (Passed s)"
| "calloc_rows sbrk (i # is) s = do {
     v \<leftarrow> calloc_row sbrk i [1..<64] s;
     case v of
       Failed line s \<Rightarrow> Some (Failed line s)
     | Passed s \<Rightarrow> do { s \<leftarrow> defrag s; calloc_rows sbrk is s } }"

definition p_test_calloc :: "'os sbrk_call \<Rightarrow> 'os heap \<Rightarrow> 'os verdict option" where
  "p_test_calloc sbrk s = calloc_rows sbrk [1..<64] s"

end
