(* ===== verification/Program_Props.thy ===== *)
theory Program_Props
  imports Heap_Props Programs
begin

text \<open>
  User programs run to their end: the programs of \<open>Programs\<close> on the allocator of \<open>Malloc\<close> and the
  system call of \<open>Brk\<close>, composed as in a process.
\<close>

section \<open>The break of a heap\<close>

lemma break_of_heap:
  assumes "uheap_ok s bs" "initialized s"
  shows "cur_break (os s) = of_nat (ubase s + bsizes bs)"
proof -
  have "unat (cur_break (os s)) = ubase s + bsizes bs"
    using assms by (simp add: heap_ok_def heap_base_def)
  from arg_cong [OF this, of "of_nat :: nat \<Rightarrow> u64"] show ?thesis by simp
qed

text \<open>\<^verbatim>\<open>sbrk(0)\<close> gives the end of the heap and leaves the heap alone.\<close>

lemma sbrk_0_end:
  assumes "uheap_ok s bs" "initialized s"
  obtains k where "user_sbrk (os s) 0 = Some (of_nat (ubase s + bsizes bs), k)" "uheap_ok (s\<lparr>os := k\<rparr>) bs"
    "ubase (s\<lparr>os := k\<rparr>) = ubase s"
proof -
  have ok: "user_ok (os s)" using assms by (simp add: heap_ok_def)
  obtain k where k: "user_sbrk (os s) 0 = Some (cur_break (os s), k)" "user_ok k" "cur_break k = cur_break (os s)"
    using kb.grow_ok [OF ok, of 0] kb.brk_below [OF ok] by auto
  show thesis
    using that [of k] k assms break_of_heap [OF assms] by (auto simp: heap_ok_def heap_base_def)
qed

section \<open>p-test\<close>

lemma malloc_7_reuses:
  assumes "uheap_ok s [Free 16]"
  obtains s1 where "malloc user_sbrk s 7 = Some (of_nat (ubase s + 8), s1)" "uheap_ok s1 [Used 16 0]" "ubase s1 = ubase s"
proof -
  have "spec_malloc break_limit (ubase s) [Free 16] (unat (7 :: u64)) = (Some (ubase s + 8), [Used 16 0])"
    by (simp add: spec_malloc_def round8_def spec_place_def)
  from kb.malloc_result [OF assms _ this] that show thesis by auto
qed

lemma free_16:
  assumes "uheap_ok s [Used 16 sl]"
  shows "uheap_ok (free s (of_nat (ubase s + 8))) [Free 16]" "ubase (free s (of_nat (ubase s + 8))) = ubase s"
  using kb.free_refines(1,3) [OF assms, of "ubase s + 8" "Used 16 sl"] by simp_all

lemma fill_16:
  assumes "uheap_ok s [Used 16 sl]"
  shows "uheap_ok (s\<lparr>umem := snd (memset (umem s) (of_nat (ubase s + 8)) c 7)\<rparr>) [Used 16 sl]"
proof (rule kb.write_payload [OF assms, of "ubase s + 8" "Used 16 sl"])
  fix x :: nat assume x: "x < 2 ^ 64" "x < ubase s + 8 \<or> ubase s + 8 + (bsize (Used 16 sl) - 8) \<le> x"
  have "ubase s + 16 < 2 ^ 31" using kb.heap_ok_layout(3) [OF assms] by simp
  then have "(of_nat x :: u64) \<notin> region (of_nat (ubase s + 8)) 7"
    using x region_of_nat [of "ubase s + 8" 7 x] by auto
  then show "snd (memset (umem s) (of_nat (ubase s + 8)) c 7) (of_nat x) = umem s (of_nat x)"
    by (simp add: memset_apply)
qed simp

lemma p_test_rounds_pass:
  assumes "uheap_ok s [Free 16]"
  shows "\<exists>s'. p_test_rounds user_sbrk n (of_nat (ubase s + 16)) s = Some (Passed s')"
  using assms
proof (induction n arbitrary: s)
  case (Suc n)
  let ?p = "of_nat (ubase s + 8) :: u64"
  obtain s1 where 1: "malloc user_sbrk s 7 = Some (?p, s1)" "uheap_ok s1 [Used 16 0]" "ubase s1 = ubase s"
    using malloc_7_reuses [OF Suc.prems] by blast
  have b: "blk_at (ubase s1) [Used 16 0] (ubase s1 + 8) (Used 16 0)" by simp
  have i: "initialized s1" by (rule kb.heap_ok_initialized [OF 1(2) b])
  obtain k where k: "user_sbrk (os s1) 0 = Some (of_nat (ubase s + 16), k)" "uheap_ok (s1\<lparr>os := k\<rparr>) [Used 16 0]"
    "ubase (s1\<lparr>os := k\<rparr>) = ubase s"
    using sbrk_0_end [OF 1(2) i] 1(3) by auto
  let ?t = "free (s1\<lparr>os := k, umem := snd (memset (umem s1) ?p (of_char CHR ''A'') 7)\<rparr>) ?p"
  have t: "uheap_ok ?t [Free 16]" "ubase ?t = ubase s"
    using free_16 [OF fill_16 [OF k(2), of "of_char CHR ''A''"]] k(3) by simp_all
  have "?p \<noteq> NULL" using kb.blk_at_ptr(1) [OF 1(2) b] 1(3) by simp
  then show ?case using Suc.IH [OF t(1)] t(2) 1(1) k(1) by simp
qed simp

text \<open>
  C24. The test program passes: a process whose heap is empty, whose break is aligned as
  \<open>uheap_ok\<close> says and has 16 bytes left below the kernel's limit, runs \<^verbatim>\<open>p-test\<close> to the end. All
  of its 99,999 further allocations of 7 bytes succeed by taking the freed block again, so that
  \<^verbatim>\<open>sbrk(0)\<close> never moves.
\<close>

theorem p_test_passes:
  assumes "uheap_ok s []" "ubase s + 16 < break_limit"
  shows "\<exists>s'. p_test user_sbrk s = Some (Passed s')"
proof -
  let ?p = "of_nat (ubase s + 8) :: u64"
  have "spec_malloc break_limit (ubase s) [] (unat (7 :: u64)) = (Some (ubase s + 8), [Used 16 1])"
    using assms(2) by (simp add: spec_malloc_def round8_def)
  from kb.malloc_result [OF assms(1) _ this] obtain s1
    where 1: "malloc user_sbrk s 7 = Some (?p, s1)" "uheap_ok s1 [Used 16 1]" "ubase s1 = ubase s" by auto
  have b: "blk_at (ubase s1) [Used 16 1] (ubase s1 + 8) (Used 16 1)" by simp
  obtain k where k: "user_sbrk (os s1) 0 = Some (of_nat (ubase s + 16), k)" "uheap_ok (s1\<lparr>os := k\<rparr>) [Used 16 1]"
    "ubase (s1\<lparr>os := k\<rparr>) = ubase s"
    using sbrk_0_end [OF 1(2) kb.heap_ok_initialized [OF 1(2) b]] 1(3) by auto
  obtain s' where "p_test_rounds user_sbrk 99999 (of_nat (ubase s + 16)) (free (s1\<lparr>os := k\<rparr>) ?p) = Some (Passed s')"
    using p_test_rounds_pass [of "free (s1\<lparr>os := k\<rparr>) ?p" 99999] free_16 [OF k(2)] k(3) by auto
  moreover have "?p \<noteq> NULL" using kb.blk_at_ptr(1) [OF 1(2) b] 1(3) by simp
  ultimately show ?thesis using 1(1) k(1) by (simp add: p_test_def del: p_test_rounds.simps)
qed

theorem p_test_passes_witness: "\<exists>s'. p_test user_sbrk sample_heap = Some (Passed s')"
  by (rule p_test_passes) (simp_all add: sample_heap_ok break_limit_def)

section \<open>p-allocator\<close>

lemma p_allocator_loop_ends:
  assumes "user_ok (os s)"
  shows "\<exists>s' n. p_allocator_loop user_sbrk p stack_bottom heap_top s = Some (Passed s') \<and>
    unat (cur_break (os s')) = unat (cur_break (os s)) + 4096 * n \<and>
    (stack_bottom \<le> (if n = 0 then heap_top else cur_break (os s')) + PAGESIZE \<or>
     break_limit \<le> unat (cur_break (os s')) + 4096)"
  using assms
proof (induction "break_limit - unat (cur_break (os s))" arbitrary: s heap_top rule: less_induct)
  case less
  have lim: "unat (cur_break (os s)) < break_limit" by (rule kb.brk_below [OF less.prems])
  show ?case
  proof (cases "heap_top + PAGESIZE < stack_bottom")
    case False
    then have "p_allocator_loop user_sbrk p stack_bottom heap_top s = Some (Passed s)"
      by (subst p_allocator_loop.simps) simp
    then show ?thesis using False by (intro exI [of _ s] exI [of _ 0]) (simp add: not_less)
  next
    case top: True
    show ?thesis
    proof (cases "unat (cur_break (os s)) + 4096 < break_limit")
      case False
      then obtain k where k: "user_sbrk (os s) PAGESIZE = Some (- 1, k)" "cur_break k = cur_break (os s)"
        using kb.grow_fail [OF less.prems, of PAGESIZE] by (auto simp: PAGESIZE_def)
      then have "p_allocator_loop user_sbrk p stack_bottom heap_top s = Some (Passed (s\<lparr>os := k\<rparr>))"
        using top by (subst p_allocator_loop.simps) simp
      then show ?thesis using False k(2) by (intro exI [of _ "s\<lparr>os := k\<rparr>"] exI [of _ 0]) simp
    next
      case True
      then obtain k where k: "user_sbrk (os s) PAGESIZE = Some (cur_break (os s), k)" "user_ok k"
        "cur_break k = cur_break (os s) + PAGESIZE"
        using kb.grow_ok [OF less.prems, of PAGESIZE] by (auto simp: PAGESIZE_def)
      have b: "unat (cur_break k) = unat (cur_break (os s)) + 4096"
        using k(3) True by (simp add: PAGESIZE_def break_limit_def unat_add64)
      have "unat (- 1 :: u64) = 2 ^ 64 - 1" by (simp add: unsigned_minus_1_eq_mask mask_eq_exp_minus_1)
      then have ne: "cur_break (os s) \<noteq> - 1" using lim by (auto simp: break_limit_def)
      let ?s = "s\<lparr>os := k, umem := (umem s)(heap_top := p)\<rparr>"
      have step: "p_allocator_loop user_sbrk p stack_bottom heap_top s =
          p_allocator_loop user_sbrk p stack_bottom (cur_break k) ?s"
        using top k(1,3) ne by (subst p_allocator_loop.simps) simp
      have os: "os ?s = k" by simp
      have smaller: "break_limit - unat (cur_break (os ?s)) < break_limit - unat (cur_break (os s))"
        using b lim by simp
      obtain s' n where s': "p_allocator_loop user_sbrk p stack_bottom (cur_break k) ?s = Some (Passed s')"
        "unat (cur_break (os s')) = unat (cur_break k) + 4096 * n"
        "stack_bottom \<le> (if n = 0 then cur_break k else cur_break (os s')) + PAGESIZE \<or>
         break_limit \<le> unat (cur_break (os s')) + 4096"
        using less.hyps [OF smaller, of "cur_break k", unfolded os, OF k(2)] by blast
      have "n = 0 \<Longrightarrow> cur_break (os s') = cur_break k" using s'(2) by (simp add: word_eq_unatI)
      then show ?thesis using step s' b by (intro exI [of _ s'] exI [of _ "Suc n"]) (auto split: if_splits)
    qed
  qed
qed

text \<open>
  \<^verbatim>\<open>p-allocator\<close> ends and passes, having grown its heap by whole pages until the next one would
  reach the stack or the kernel's limit on the break.
\<close>

theorem p_allocator_passes:
  assumes "user_ok (os s)"
  shows "\<exists>s' n. p_allocator user_sbrk p end_addr rsp s = Some (Passed s') \<and>
    unat (cur_break (os s')) = unat (cur_break (os s)) + 4096 * n \<and>
    (ROUNDDOWN (rsp - 1) PAGESIZE \<le> (if n = 0 then ROUNDUP end_addr PAGESIZE else cur_break (os s')) + PAGESIZE \<or>
     break_limit \<le> unat (cur_break (os s')) + 4096)"
  unfolding p_allocator_def by (rule p_allocator_loop_ends [OF assms])

theorem p_allocator_passes_witness:
  "\<exists>s'. p_allocator user_sbrk 1 0x121234 0x300000 sample_heap = Some (Passed s')"
proof -
  have "user_ok (os sample_heap)" using sample_heap_ok(1) by (simp add: heap_ok_def)
  from p_allocator_passes [OF this] show ?thesis by blast
qed

end
