(* ===== verification/Boot.thy ===== *)
theory Boot
  imports X86 Elf
begin

text \<open>
  \<^verbatim>\<open>kernel/boot.c\<close>: the boot loader, which reads the kernel from the first IDE disk by
  programmed I/O. Memory is physical: the boot page table maps it to itself. A loop on a device
  or on the kernel's magic number may never end, so the result is an option; \<^verbatim>\<open>boot\<close> ends with
  the jump to the kernel, whose address is its result.
\<close>

definition SECTORSIZE :: u64 where "SECTORSIZE = 512"
definition ELFHDR :: addr where "ELFHDR = 0x10000"

section \<open>Sectors\<close>

partial_function (option) boot_waitdisk :: "machine \<Rightarrow> machine option" where
  "boot_waitdisk s =
     (if fst (inb 0x1F7 s) AND 0xC0 \<noteq> 0x40 then boot_waitdisk (snd (inb 0x1F7 s))
      else Some (snd (inb 0x1F7 s)))"

text \<open>The six writes that ask the disk for one sector.\<close>

definition request_sector :: "u32 \<Rightarrow> machine \<Rightarrow> machine" where
  "request_sector src_sect s =
     (let s = outb 0x1F2 1 s;
          s = outb 0x1F3 (ucast src_sect) s;
          s = outb 0x1F4 (ucast (drop_bit 8 src_sect)) s;
          s = outb 0x1F5 (ucast (drop_bit 16 src_sect)) s;
          s = outb 0x1F6 (ucast (drop_bit 24 src_sect OR 0xE0)) s
      in outb 0x1F7 0x20 s)"

definition boot_readsect :: "addr \<Rightarrow> u32 \<Rightarrow> machine \<Rightarrow> machine option" where
  "boot_readsect dst src_sect s =
     do { s \<leftarrow> boot_waitdisk s;
          s \<leftarrow> boot_waitdisk (request_sector src_sect s);
          Some (insl 0x1F0 dst (unat (SECTORSIZE div 4)) s) }"

section \<open>Segments\<close>

partial_function (option) read_sectors :: "addr \<Rightarrow> u32 \<Rightarrow> addr \<Rightarrow> machine \<Rightarrow> machine option" where
  "read_sectors ptr src_sect end_ptr s =
     (if ptr < end_ptr
      then do { s \<leftarrow> boot_readsect ptr src_sect s;
                read_sectors (ptr + SECTORSIZE) (src_sect + 1) end_ptr s }
      else Some s)"

fun clear_bytes :: "nat \<Rightarrow> addr \<Rightarrow> mem \<Rightarrow> mem" where
  "clear_bytes 0 a m = m"
| "clear_bytes (Suc n) a m = clear_bytes n (a + 1) (m(a := 0))"

text \<open>The loop that clears \<open>[end_ptr, memsz)\<close> runs once per byte.\<close>

definition boot_readseg :: "addr \<Rightarrow> u32 \<Rightarrow> u64 \<Rightarrow> u64 \<Rightarrow> machine \<Rightarrow> machine option" where
  "boot_readseg ptr src_sect filesz memsz s =
     (let end_ptr = ptr + filesz;
          memsz = memsz + ptr;
          ptr = ptr AND NOT (SECTORSIZE - 1)
      in do { s \<leftarrow> read_sectors ptr src_sect end_ptr s;
              Some (s\<lparr>pmem := clear_bytes (if end_ptr < memsz then unat (memsz - end_ptr) else 0) end_ptr (pmem s)\<rparr>) })"

section \<open>boot\<close>

fun boot_segments :: "nat \<Rightarrow> addr \<Rightarrow> machine \<Rightarrow> machine option" where
  "boot_segments 0 ph s = Some s"
| "boot_segments (Suc n) ph s =
     (let h = read_elf_program (pmem s) ph
      in do { s \<leftarrow> boot_readseg (p_va h) (ucast (p_offset h div SECTORSIZE + 1)) (p_filesz h) (p_memsz h) s;
              boot_segments n (ph + sizeof_elf_program) s })"

definition boot :: "machine \<Rightarrow> (addr \<times> machine) option" where
  "boot s =
     do { s \<leftarrow> boot_readseg ELFHDR 1 PAGESIZE PAGESIZE s;
          if e_magic (read_elf_header (pmem s) ELFHDR) \<noteq> ELF_MAGIC then None
          else do {
            let eh = read_elf_header (pmem s) ELFHDR;
            s \<leftarrow> boot_segments (unat (e_phnum eh)) (ELFHDR + e_phoff eh) s;
            Some (e_entry (read_elf_header (pmem s) ELFHDR), s) } }"

end
