(* ===== verification/Boot_Props.thy ===== *)
theory Boot_Props
  imports Boot Clib
begin

text \<open>
  What the functions of the boot loader leave in memory: \<^verbatim>\<open>boot_readseg\<close> puts the bytes the data port
  delivers for the sectors it asks for at the addresses of the segment, and zeros after them.
\<close>

section \<open>The data port\<close>

text \<open>The disk is busy for as long as it likes, but not for ever.\<close>

definition disk_answers :: "machine \<Rightarrow> bool" where
  "disk_answers s \<longleftrightarrow> (\<forall>n. \<exists>k \<ge> n. (ucast (io_in s k 0x1F7) :: u8) AND 0xC0 = 0x40)"

text \<open>Byte \<open>i\<close> of everything the data port ever delivers, four to a read.\<close>

definition disk_byte :: "machine \<Rightarrow> nat \<Rightarrow> u8" where
  "disk_byte s i = ucast (drop_bit (8 * (i mod 4)) (io_in s (i div 4) 0x1F0))"

text \<open>From \<open>s\<close> to \<open>t\<close>: \<open>n\<close> reads of the data port, and the port writes \<open>os\<close>.\<close>

definition transfers :: "machine \<Rightarrow> nat \<Rightarrow> (u16 \<times> u32) list \<Rightarrow> machine \<Rightarrow> bool" where
  "transfers s n os t \<longleftrightarrow> io_in t = io_in s \<and> io_reads t 0x1F0 = io_reads s 0x1F0 + n \<and> io_outs t = io_outs s @ os"

lemma transfers_trans: "transfers s n os t \<Longrightarrow> transfers t k os' u \<Longrightarrow> transfers s (n + k) (os @ os') u"
  by (simp add: transfers_def)

lemma disk_byte_move:
  assumes "transfers s n os t"
  shows "disk_byte t (4 * io_reads t 0x1F0 + j) = disk_byte s (4 * io_reads s 0x1F0 + (4 * n + j))"
proof -
  have "4 * io_reads t 0x1F0 + j = 4 * io_reads s 0x1F0 + (4 * n + j)" "io_in t = io_in s"
    using assms by (simp_all add: transfers_def distrib_left)
  then show ?thesis by (simp only: disk_byte_def)
qed

lemma transfers_answers: "transfers s n os t \<Longrightarrow> disk_answers t \<longleftrightarrow> disk_answers s"
  by (simp add: transfers_def disk_answers_def)

text \<open>The bytes from \<open>a\<close> on are those of the data port, and nothing else changed.\<close>

definition delivered :: "machine \<Rightarrow> addr \<Rightarrow> nat \<Rightarrow> machine \<Rightarrow> bool" where
  "delivered s a n t \<longleftrightarrow>
     (\<forall>i < n. pmem t (a + of_nat i) = disk_byte s (4 * io_reads s 0x1F0 + i)) \<and>
     (\<forall>b. b \<notin> region a n \<longrightarrow> pmem t b = pmem s b)"

lemma delivered_0 [simp]: "delivered s a 0 t \<longleftrightarrow> pmem t = pmem s"
  by (auto simp: delivered_def)

lemma offset_in_region: "i < 2 ^ 64 \<Longrightarrow> a + of_nat i \<in> region a n \<longleftrightarrow> i < n"
  by (simp add: region_def unat_of_nat64)

lemma region_image: "n \<le> 2 ^ 64 \<Longrightarrow> b \<in> region a n \<longleftrightarrow> (\<exists>i < n. b = a + of_nat i)"
proof -
  have "b = a + of_nat (unat (b - a))" by simp
  then show "n \<le> 2 ^ 64 \<Longrightarrow> b \<in> region a n \<longleftrightarrow> (\<exists>i < n. b = a + of_nat i)"
    by (auto simp: region_def unat_of_nat64)
qed

lemma of_nat_inj64: "i < 2 ^ 64 \<Longrightarrow> j < 2 ^ 64 \<Longrightarrow> (of_nat i :: u64) = of_nat j \<longleftrightarrow> i = j"
  by (metis unat_of_nat64)

lemma region_shift:
  assumes "i < k" "k + n \<le> 2 ^ 64" "0 < n" shows "a + of_nat i \<notin> region (a + of_nat k) n"
proof
  assume "a + of_nat i \<in> region (a + of_nat k) n"
  then obtain j where j: "j < n" "a + of_nat i = a + of_nat k + of_nat j"
    using assms(2) by (auto simp: region_image)
  then have "(of_nat i :: u64) = of_nat (k + j)" by (simp add: add.assoc)
  then show False using assms j(1) by (simp only: of_nat_inj64)
qed

lemma region_append:
  assumes "n + k \<le> 2 ^ 64" "b \<in> region (a + of_nat n) k" shows "b \<in> region a (n + k)"
proof -
  obtain j where "j < k" "b = a + of_nat n + of_nat j" using assms by (auto simp: region_image)
  then show ?thesis unfolding region_image [OF assms(1)] by (intro exI [of _ "n + j"]) (simp add: add.assoc)
qed

text \<open>Two deliveries one after the other.\<close>

lemma delivered_append:
  assumes "delivered s a (4 * n) t" "transfers s n os t" "delivered t (a + of_nat (4 * n)) k u" "4 * n + k \<le> 2 ^ 64"
  shows "delivered s a (4 * n + k) u"
proof -
  have "pmem u (a + of_nat i) = disk_byte s (4 * io_reads s 0x1F0 + i)" if i: "i < 4 * n + k" for i
  proof (cases "i < 4 * n")
    case True
    then have "a + of_nat i \<notin> region (a + of_nat (4 * n)) k" using assms(4) i
      by (cases "k = 0") (simp, rule region_shift, simp_all)
    then show ?thesis using True assms(1,3) by (simp add: delivered_def)
  next
    case False
    define j where "j = i - 4 * n"
    then have j: "i = 4 * n + j" "j < k" using i False by simp_all
    then have "pmem u (a + of_nat i) = disk_byte t (4 * io_reads t 0x1F0 + j)"
      using assms(3) by (simp add: delivered_def add.assoc)
    then show ?thesis by (simp only: disk_byte_move [OF assms(2)] j(1))
  qed
  moreover have "pmem u b = pmem s b" if b: "b \<notin> region a (4 * n + k)" for b
  proof -
    have "b \<notin> region a (4 * n)" using b region_subset [of b a "4 * n" "4 * n + k"] by auto
    moreover have "b \<notin> region (a + of_nat (4 * n)) k" using b region_append assms(4) by blast
    ultimately show ?thesis using assms(1,3) by (simp add: delivered_def)
  qed
  ultimately show ?thesis by (simp add: delivered_def)
qed

section \<open>Words\<close>

lemma write_le_at:
  "i < n \<Longrightarrow> n < 2 ^ 64 \<Longrightarrow> write_le n m a v (a + of_nat i) = ucast (drop_bit (8 * i) v)"
proof (induction n arbitrary: m a v i)
  case (Suc n)
  show ?case
  proof (cases i)
    case 0
    then show ?thesis using Suc.prems region_start_notin [of n a] by (simp add: write_le_other)
  next
    case (Suc j)
    then have "a + of_nat i = a + 1 + of_nat j" by simp
    moreover have "write_le n m' (a + 1) (drop_bit 8 v) (a + 1 + of_nat j) = ucast (drop_bit 8 (drop_bit (8 * j) v))" for m'
      using Suc.IH [of j m' "a + 1" "drop_bit 8 v"] Suc.prems Suc by (simp add: add.commute)
    ultimately show ?thesis by (simp only: write_le.simps) (simp add: Suc)
  qed
qed simp

lemma insl_delivers:
  "4 * n \<le> 2 ^ 64 \<Longrightarrow> transfers s n [] (insl 0x1F0 a n s) \<and> delivered s a (4 * n) (insl 0x1F0 a n s)"
proof (induction n arbitrary: a s)
  case 0
  then show ?case by (simp add: transfers_def)
next
  case (Suc n)
  let ?d = "io_in s (io_reads s 0x1F0) 0x1F0"
  let ?t = "s\<lparr>io_reads := (io_reads s)(0x1F0 := io_reads s 0x1F0 + 1), pmem := write32 (pmem s) a ?d\<rparr>"
  have t: "transfers s 1 [] ?t" by (simp add: transfers_def)
  have "write32 (pmem s) a ?d (a + of_nat i) = ucast (drop_bit (8 * i) ?d)" if "i < 4" for i
    using that by (simp add: write32_def write_le_at)
  then have "delivered s a (4 * 1) ?t" by (simp add: delivered_def write32_other disk_byte_def)
  moreover have IH: "transfers ?t n [] (insl 0x1F0 (a + 4) n ?t)" "delivered ?t (a + 4) (4 * n) (insl 0x1F0 (a + 4) n ?t)"
    using Suc by simp_all
  moreover have "insl 0x1F0 a (Suc n) s = insl 0x1F0 (a + 4) n ?t" by (simp add: inl_def Let_def)
  ultimately show ?case using transfers_trans [OF t IH(1)] delivered_append [OF _ t, of a "4 * n"] Suc.prems by simp
qed

section \<open>Sectors\<close>

lemma waitdisk_ends:
  assumes "disk_answers s"
  shows "\<exists>t. boot_waitdisk s = Some t \<and> transfers s 0 [] t \<and> pmem t = pmem s"
proof -
  obtain k where "k \<ge> io_reads s 0x1F7" "(ucast (io_in s k 0x1F7) :: u8) AND 0xC0 = 0x40"
    using assms by (auto simp: disk_answers_def)
  then show ?thesis
  proof (induction "k - io_reads s 0x1F7" arbitrary: s)
    case 0
    then have "k = io_reads s 0x1F7" by simp
    then show ?case using 0 by (subst boot_waitdisk.simps) (simp add: inb_def inl_def transfers_def)
  next
    case (Suc x)
    let ?t = "snd (inb 0x1F7 s)"
    have t: "io_in ?t = io_in s" "io_reads ?t 0x1F7 = io_reads s 0x1F7 + 1" "transfers s 0 [] ?t" "pmem ?t = pmem s"
      by (simp_all add: inb_def inl_def transfers_def)
    have "x = k - io_reads ?t 0x1F7" "io_reads ?t 0x1F7 \<le> k"
      using Suc.hyps(2) t(2) by linarith+
    then obtain u where "boot_waitdisk ?t = Some u" "transfers ?t 0 [] u" "pmem u = pmem ?t"
      using Suc.hyps(1) [of ?t] Suc.prems(2) t(1) by auto
    then show ?case using transfers_trans [OF t(3), of 0 "[]" u] t(3,4) by (subst boot_waitdisk.simps) auto
  qed
qed

text \<open>The port writes that ask for sector \<open>q\<close>.\<close>

definition sector_request :: "u32 \<Rightarrow> (u16 \<times> u32) list" where
  "sector_request q = [(0x1F2, 1), (0x1F3, q AND 0xFF), (0x1F4, drop_bit 8 q AND 0xFF),
     (0x1F5, drop_bit 16 q AND 0xFF), (0x1F6, (drop_bit 24 q OR 0xE0) AND 0xFF), (0x1F7, 0x20)]"

lemma ucast_byte: "ucast (ucast (x :: u32) :: u8) = x AND 0xFF"
proof -
  have "x AND 0xFF = take_bit 8 x" by (simp add: take_bit_eq_mask mask_eq_exp_minus_1)
  then show ?thesis by (auto intro!: bit_word_eqI simp: bit_ucast_iff bit_take_bit_iff dest: bit_imp_le_length)
qed

lemma request_transfers: "transfers s 0 (sector_request q) (request_sector q s)" "pmem (request_sector q s) = pmem s"
  by (simp_all add: request_sector_def transfers_def outb_def outl_def sector_request_def ucast_byte Let_def)

lemma readsect_delivers:
  assumes "disk_answers s"
  shows "\<exists>t. boot_readsect a q s = Some t \<and> transfers s 128 (sector_request q) t \<and> delivered s a 512 t"
proof -
  obtain s1 where 1: "boot_waitdisk s = Some s1" "transfers s 0 [] s1" "pmem s1 = pmem s"
    using waitdisk_ends [OF assms] by blast
  let ?s2 = "request_sector q s1"
  have 2: "transfers s 0 (sector_request q) ?s2" using transfers_trans [OF 1(2) request_transfers(1)] by simp
  obtain s3 where 3: "boot_waitdisk ?s2 = Some s3" "transfers ?s2 0 [] s3" "pmem s3 = pmem ?s2"
    using waitdisk_ends [of ?s2] assms transfers_answers [OF 2] by blast
  have t: "transfers s 0 (sector_request q) s3" using transfers_trans [OF 2 3(2)] by simp
  have i: "transfers s3 128 [] (insl 0x1F0 a 128 s3)" "delivered s3 a 512 (insl 0x1F0 a 128 s3)"
    using insl_delivers [of 128 s3 a] by simp_all
  have "delivered s a (4 * 0) s3" using 1(3) 3(3) by (simp add: request_transfers)
  from delivered_append [OF this t, of 512 "insl 0x1F0 a 128 s3"] i(2)
  have "delivered s a 512 (insl 0x1F0 a 128 s3)" by simp
  moreover have "unat (SECTORSIZE div 4) = 128" by (simp add: SECTORSIZE_def)
  ultimately show ?thesis using 1(1) 3(1) transfers_trans [OF t i(1)] by (simp add: boot_readsect_def)
qed

section \<open>Segments\<close>

definition sector_requests :: "u32 \<Rightarrow> nat \<Rightarrow> (u16 \<times> u32) list" where
  "sector_requests q n = concat (map (\<lambda>i. sector_request (q + of_nat i)) [0..<n])"

lemma sector_requests_Suc: "sector_requests q (Suc n) = sector_request q @ sector_requests (q + 1) n"
  by (simp add: sector_requests_def map_upt_Suc add.assoc del: upt_Suc)

lemma read_sectors_deliver:
  assumes "disk_answers s" "unat end_ptr \<le> unat a + 512 * n" "unat a + 512 * n < unat end_ptr + 512"
    "unat a + 512 * n < 2 ^ 64"
  shows "\<exists>t. read_sectors a q end_ptr s = Some t \<and> transfers s (128 * n) (sector_requests q n) t \<and>
    delivered s a (512 * n) t"
  using assms
proof (induction n arbitrary: a q s)
  case 0
  then have "\<not> a < end_ptr" by (simp add: word_less_nat_alt)
  then show ?case by (subst read_sectors.simps) (simp add: transfers_def sector_requests_def)
next
  case (Suc n)
  obtain t where t: "boot_readsect a q s = Some t" "transfers s 128 (sector_request q) t" "delivered s a 512 t"
    using readsect_delivers [OF Suc.prems(1)] by blast
  have a: "unat (a + 512) = unat a + 512" using Suc.prems(4) by (subst unat_add64) simp_all
  have "disk_answers t" using Suc.prems(1) transfers_answers [OF t(2)] by simp
  then obtain u where u: "read_sectors (a + 512) (q + 1) end_ptr t = Some u"
    "transfers t (128 * n) (sector_requests (q + 1) n) u" "delivered t (a + 512) (512 * n) u"
    using Suc.IH [of t "a + 512" "q + 1"] Suc.prems(2-4) a by auto
  have "a < end_ptr" using Suc.prems(3) by (simp add: word_less_nat_alt)
  moreover have "delivered s a (512 * Suc n) u"
    using delivered_append [of s a 128 t, OF _ t(2), of "512 * n" u] t(3) u(3) Suc.prems(4) by simp
  moreover have "transfers s (128 * Suc n) (sector_requests q (Suc n)) u"
    using transfers_trans [OF t(2) u(2)] by (simp add: sector_requests_Suc)
  ultimately show ?case using t(1) u(1) by (subst read_sectors.simps) (simp add: SECTORSIZE_def)
qed

lemma clear_bytes_apply: "n < 2 ^ 64 \<Longrightarrow> clear_bytes n a m b = (if b \<in> region a n then 0 else m b)"
proof (induction n arbitrary: a m)
  case (Suc n)
  then show ?case by (simp add: region_Suc)
qed simp

lemma sector_start: "unat (a AND NOT (SECTORSIZE - 1)) = unat a - unat a mod 512"
proof -
  have m: "(511 :: u64) = mask 9" by (simp add: mask_eq_exp_minus_1)
  have "NOT a AND (a AND k) = 0" "a AND NOT (a AND k) = a AND NOT k" for k
    by (rule bit_word_eqI; simp add: bit_simps; blast)+
  from disjunctive_diff_eq_and_not [OF this(1)] this(2) have "a AND NOT 511 = a - (a AND 511)" by simp
  moreover have "unat (a AND 511) = unat a mod 512"
    by (simp only: m flip: take_bit_eq_mask) (simp only: unsigned_take_bit_eq, simp add: take_bit_eq_mod)
  ultimately show ?thesis using unat_sub64 [of "a AND 511" a] by (simp add: SECTORSIZE_def)
qed

text \<open>The offset of a segment in its first sector, and the number of sectors that cover it.\<close>

definition sector_offset :: "addr \<Rightarrow> nat" where "sector_offset va = unat va mod 512"

definition sectors :: "addr \<Rightarrow> u64 \<Rightarrow> nat" where
  "sectors va filesz = (sector_offset va + unat filesz + 511) div 512"

definition loaded :: "(nat \<Rightarrow> u8) \<Rightarrow> addr \<Rightarrow> u64 \<Rightarrow> u64 \<Rightarrow> mem \<Rightarrow> bool" where
  "loaded bytes va filesz memsz m \<longleftrightarrow>
     (\<forall>i < unat filesz. m (va + of_nat i) = bytes (sector_offset va + i)) \<and>
     (\<forall>i. unat filesz \<le> i \<and> i < unat memsz \<longrightarrow> m (va + of_nat i) = 0)"

text \<open>The first address that loading a segment writes, and the first one after.\<close>

definition seg_start :: "addr \<Rightarrow> nat" where "seg_start va = unat va - sector_offset va"

definition seg_end :: "addr \<Rightarrow> u64 \<Rightarrow> u64 \<Rightarrow> nat" where
  "seg_end va filesz memsz = max (seg_start va + 512 * sectors va filesz) (unat va + unat memsz)"

text \<open>
  Provided that the disk is not busy for ever and the addresses do not wrap, \<^verbatim>\<open>boot_readseg\<close> returns; it
  has asked for consecutive sectors from \<open>q\<close> on, as many as cover the segment's bytes, rounded down
  to the sector its address lies in; the segment is loaded with what the disk delivered for them; and
  memory outside the sectors and the segment is unchanged.
\<close>

lemma readseg_loads:
  assumes "disk_answers s" "unat va + unat filesz + 512 \<le> 2 ^ 64" "unat va + unat memsz < 2 ^ 64"
  obtains t where "boot_readseg va q filesz memsz s = Some t"
    "transfers s (128 * sectors va filesz) (sector_requests q (sectors va filesz)) t"
    "loaded (\<lambda>i. disk_byte s (4 * io_reads s 0x1F0 + i)) va filesz memsz (pmem t)"
    "\<And>b. unat b < seg_start va \<or> seg_end va filesz memsz \<le> unat b \<Longrightarrow> pmem t b = pmem s b"
proof -
  define off n where "off = sector_offset va" and "n = sectors va filesz"
  let ?p = "va AND NOT (SECTORSIZE - 1)" and ?e = "va + filesz" and ?c = "unat memsz - unat filesz"
  have p: "unat ?p = unat va - off" "off \<le> unat va" "off < 512" by (simp_all add: sector_start off_def sector_offset_def)
  have e: "unat ?e = unat va + unat filesz" using assms(2) by (simp add: unat_add64)
  have m: "unat (memsz + va) = unat va + unat memsz" using assms(3) by (simp add: unat_add64 add.commute)
  have n: "unat filesz + off \<le> 512 * n" "512 * n < unat filesz + off + 512" by (simp_all add: n_def sectors_def off_def)
  have w: "unat ?e \<le> unat ?p + 512 * n" "unat ?p + 512 * n < unat ?e + 512" "unat ?p + 512 * n < 2 ^ 64"
    using p e n assms(2) by linarith+
  obtain t where t: "read_sectors ?p q ?e s = Some t" "transfers s (128 * n) (sector_requests q n) t"
    "delivered s ?p (512 * n) t"
    using read_sectors_deliver [OF assms(1) w, of q] by blast
  let ?k = "if ?e < memsz + va then unat (memsz + va - ?e) else 0"
  have k: "?k = ?c" using m e unat_sub64 [of ?e "memsz + va"] by (simp add: word_less_nat_alt)
  let ?u = "t\<lparr>pmem := clear_bytes ?c ?e (pmem t)\<rparr>"
  have u: "boot_readseg va q filesz memsz s = Some ?u" using t(1) k by (simp add: boot_readseg_def Let_def)
  have "?c < 2 ^ 64" using assms(3) by simp
  then have c: "pmem ?u b = (if b \<in> region ?e ?c then 0 else pmem t b)" for b by (simp add: clear_bytes_apply)
  have r: "b \<in> region ?e ?c \<longleftrightarrow> unat va + unat filesz \<le> unat b \<and> unat b < unat va + unat memsz" for b
    using region_no_wrap [of ?e ?c b] e assms(2,3) by auto
  have a: "unat (va + of_nat i) = unat va + i" if "unat va + i < 2 ^ 64" for i
    using that by (subst unat_add64) (simp_all add: unat_of_nat64)
  have "pmem ?u (va + of_nat i) = disk_byte s (4 * io_reads s 0x1F0 + (off + i))" if i: "i < unat filesz" for i
  proof -
    have "?p + of_nat (off + i) = va + of_nat i"
      using p i assms(2) by (intro word_eq_unatI) (simp add: a unat_add64 unat_of_nat64)
    moreover have "pmem t (?p + of_nat (off + i)) = disk_byte s (4 * io_reads s 0x1F0 + (off + i))"
      using t(3) i n(1) by (simp add: delivered_def del: of_nat_add)
    ultimately show ?thesis unfolding c using i assms(2) by (simp add: r a del: of_nat_add)
  qed
  moreover have "pmem ?u (va + of_nat i) = 0" if "unat filesz \<le> i" "i < unat memsz" for i
    unfolding c using that assms(3) by (simp add: r a)
  ultimately have l: "loaded (\<lambda>i. disk_byte s (4 * io_reads s 0x1F0 + i)) va filesz memsz (pmem ?u)"
    by (simp add: loaded_def off_def)
  have "pmem ?u b = pmem s b" if b: "unat b < seg_start va \<or> seg_end va filesz memsz \<le> unat b" for b
  proof -
    have "b \<notin> region ?p (512 * n)"
      using region_no_wrap [of ?p "512 * n" b] b p n(2) assms(2) by (auto simp: seg_start_def seg_end_def off_def n_def)
    then show ?thesis unfolding c using t(3) b p(2) by (auto simp: r delivered_def seg_start_def seg_end_def off_def)
  qed
  moreover have "transfers s (128 * n) (sector_requests q n) ?u" using t(2) by (simp add: transfers_def)
  ultimately show thesis using that [OF u] l by (simp add: n_def)
qed

end
