(* ===== verification/Boot_Kernel.thy ===== *)
theory Boot_Kernel
  imports Boot_Props
begin

text \<open>
  The boot loader on a whole kernel image: what \<^verbatim>\<open>boot\<close> asks the disk for, in which order, and
  what it leaves in memory, over the contents of the disk. A disk maps a sector number and an
  offset in the sector to a byte; the kernel image starts at sector 1.
\<close>

type_synonym ide_disk = "u32 \<Rightarrow> nat \<Rightarrow> u8"

section \<open>The image on the disk\<close>

text \<open>Byte \<open>i\<close> of the kernel image, and of a run of sectors from \<open>q\<close> on.\<close>

definition disk_from :: "ide_disk \<Rightarrow> u32 \<Rightarrow> nat \<Rightarrow> u8" where
  "disk_from d q i = d (q + of_nat (i div 512)) (i mod 512)"

definition image_byte :: "ide_disk \<Rightarrow> nat \<Rightarrow> u8" where "image_byte d = disk_from d 1"

text \<open>The headers, as they stand once the first page of the image is at \<^const>\<open>ELFHDR\<close>.\<close>

definition image_mem :: "ide_disk \<Rightarrow> mem" where "image_mem d a = image_byte d (unat (a - ELFHDR))"

definition image_header :: "ide_disk \<Rightarrow> elf_header" where
  "image_header d = read_elf_header (image_mem d) ELFHDR"

fun program_headers :: "mem \<Rightarrow> nat \<Rightarrow> addr \<Rightarrow> elf_program list" where
  "program_headers m 0 ph = []"
| "program_headers m (Suc n) ph = read_elf_program m ph # program_headers m n (ph + sizeof_elf_program)"

definition image_programs :: "ide_disk \<Rightarrow> elf_program list" where
  "image_programs d = program_headers (image_mem d) (unat (e_phnum (image_header d))) (ELFHDR + e_phoff (image_header d))"

section \<open>The sectors that are read\<close>

definition start_sector :: "elf_program \<Rightarrow> u32" where
  "start_sector p = ucast (p_offset p div SECTORSIZE + 1)"

definition sector_run :: "u32 \<Rightarrow> nat \<Rightarrow> u32 list" where
  "sector_run q n = map (\<lambda>i. q + of_nat i) [0..<n]"

definition segment_plan :: "elf_program \<Rightarrow> u32 list" where
  "segment_plan p = sector_run (start_sector p) (sectors (p_va p) (p_filesz p))"

definition boot_plan :: "ide_disk \<Rightarrow> u32 list" where
  "boot_plan d = sector_run 1 8 @ concat (map segment_plan (image_programs d))"

definition requests :: "u32 list \<Rightarrow> (u16 \<times> u32) list" where
  "requests qs = concat (map sector_request qs)"

text \<open>The data port delivers the sectors \<open>qs\<close> of the disk, one after the other.\<close>

definition serves :: "ide_disk \<Rightarrow> u32 list \<Rightarrow> machine \<Rightarrow> bool" where
  "serves d qs s \<longleftrightarrow>
     (\<forall>i < 512 * length qs. disk_byte s (4 * io_reads s 0x1F0 + i) = d (qs ! (i div 512)) (i mod 512))"

lemma length_sector_run [simp]: "length (sector_run q n) = n"
  by (simp add: sector_run_def)

lemma requests_run: "requests (sector_run q n) = sector_requests q n"
  by (simp add: requests_def sector_run_def sector_requests_def comp_def)

lemma requests_append [simp]: "requests (as @ bs) = requests as @ requests bs"
  by (simp add: requests_def)

lemma serves_append:
  assumes "serves d (as @ bs) s"
  shows "serves d as s" "transfers s (128 * length as) os t \<Longrightarrow> serves d bs t"
proof -
  have s: "disk_byte s (4 * io_reads s 0x1F0 + i) = d ((as @ bs) ! (i div 512)) (i mod 512)"
    if "i < 512 * (length as + length bs)" for i
    using assms that by (simp add: serves_def)
  show "serves d as s"
    unfolding serves_def
  proof (intro allI impI)
    fix i assume i: "i < 512 * length as"
    then have "i div 512 < length as" by (simp add: div_less_iff_less_mult mult.commute)
    then show "disk_byte s (4 * io_reads s 0x1F0 + i) = d (as ! (i div 512)) (i mod 512)"
      using s [of i] i by (simp add: nth_append)
  qed
  assume t: "transfers s (128 * length as) os t"
  have "disk_byte t (4 * io_reads t 0x1F0 + i) = d (bs ! (i div 512)) (i mod 512)" if "i < 512 * length bs" for i
  proof -
    have "(512 * length as + i) div 512 = length as + i div 512" "(512 * length as + i) mod 512 = i mod 512" by simp_all
    then have "d ((as @ bs) ! ((512 * length as + i) div 512)) ((512 * length as + i) mod 512) = d (bs ! (i div 512)) (i mod 512)"
      by (simp only: nth_append_length_plus)
    moreover have "4 * (128 * length as) + i = 512 * length as + i" by simp
    ultimately show ?thesis using s [of "512 * length as + i"] that by (simp only: disk_byte_move [OF t]) simp
  qed
  then show "serves d bs t" by (simp add: serves_def)
qed

lemma serves_run_iff:
  "serves d (sector_run q n) s \<longleftrightarrow> (\<forall>i < 512 * n. disk_byte s (4 * io_reads s 0x1F0 + i) = disk_from d q i)"
proof -
  have "sector_run q n ! (i div 512) = q + of_nat (i div 512)" if "i < 512 * n" for i
    using that by (simp add: sector_run_def div_less_iff_less_mult mult.commute)
  then show ?thesis by (simp add: serves_def disk_from_def)
qed

lemma serves_run:
  "serves d (sector_run q n) s \<Longrightarrow> i < 512 * n \<Longrightarrow> disk_byte s (4 * io_reads s 0x1F0 + i) = disk_from d q i"
  by (simp add: serves_run_iff)

section \<open>Headers\<close>

text \<open>Reading a header depends on its bytes only.\<close>

definition header_page :: "mem \<Rightarrow> mem \<Rightarrow> bool" where
  "header_page m m' \<longleftrightarrow> (\<forall>b \<in> region ELFHDR 4096. m b = m' b)"

lemma header_region:
  assumes "header_page m m'" "unat ELFHDR \<le> unat a" "unat a + n \<le> unat ELFHDR + 4096" "b \<in> region a n"
  shows "m b = m' b"
proof -
  have "b \<in> region ELFHDR 4096"
    using assms(2-4) by (simp add: region_no_wrap ELFHDR_def)
  then show ?thesis using assms(1) by (simp add: header_page_def)
qed

lemma header_reads:
  assumes "header_page m m'" "unat ELFHDR \<le> unat a"
  shows "unat a + 2 \<le> unat ELFHDR + 4096 \<Longrightarrow> read16 m a = read16 m' a"
    "unat a + 4 \<le> unat ELFHDR + 4096 \<Longrightarrow> read32 m a = read32 m' a"
    "unat a + 8 \<le> unat ELFHDR + 4096 \<Longrightarrow> read64 m a = read64 m' a"
    "unat a + 1 \<le> unat ELFHDR + 4096 \<Longrightarrow> m a = m' a"
proof -
  note h = header_region [OF assms]
  show "unat a + 2 \<le> unat ELFHDR + 4096 \<Longrightarrow> read16 m a = read16 m' a"
    unfolding read16_def by (rule read_le_cong, rule h) simp_all
  show "unat a + 4 \<le> unat ELFHDR + 4096 \<Longrightarrow> read32 m a = read32 m' a" by (rule read32_cong, rule h)
  show "unat a + 8 \<le> unat ELFHDR + 4096 \<Longrightarrow> read64 m a = read64 m' a" by (rule read64_cong, rule h)
  show "unat a + 1 \<le> unat ELFHDR + 4096 \<Longrightarrow> m a = m' a" by (rule h [of 1]) (simp_all add: region_def)
qed

lemma elf_header_cong:
  assumes "header_page m m'" shows "read_elf_header m ELFHDR = read_elf_header m' ELFHDR"
proof -
  note h = header_reads [OF assms, unfolded ELFHDR_def]
  have "m (0x10004 + of_nat i) = m' (0x10004 + of_nat i)" if "i < 12" for i
    using that by (intro h(4)) (simp_all add: unat_add64 unat_of_nat64)
  then show ?thesis
    by (simp add: read_elf_header_def ELFHDR_def h(1-3) del: upt_Suc)
qed

lemma elf_program_cong:
  assumes "header_page m m'" "unat ELFHDR \<le> unat a" "unat a + 56 \<le> unat ELFHDR + 4096"
  shows "read_elf_program m a = read_elf_program m' a"
proof -
  have a: "unat (a + k) = unat a + unat k" if "unat k \<le> 48" for k
    using that assms(3) by (subst unat_add64) (simp_all add: ELFHDR_def)
  have l: "unat ELFHDR \<le> unat (a + k)" "unat (a + k) + 8 \<le> unat ELFHDR + 4096" "unat (a + k) + 4 \<le> unat ELFHDR + 4096"
    if "unat k \<le> 48" for k
    using a [OF that] that assms(2,3) by linarith+
  have r: "read32 m (a + k) = read32 m' (a + k)" "read64 m (a + k) = read64 m' (a + k)" if "unat k \<le> 48" for k
    using header_reads(2,3) [OF assms(1) l(1) [OF that]] l(2,3) [OF that] by simp_all
  have "read32 m a = read32 m' a" using r(1) [of 0] by simp
  then show ?thesis by (simp add: read_elf_program_def r)
qed

section \<open>Segments\<close>

text \<open>The memory of a segment: its bytes of the image, and zeros after them.\<close>

definition segment_loaded :: "ide_disk \<Rightarrow> mem \<Rightarrow> elf_program \<Rightarrow> bool" where
  "segment_loaded d m p \<longleftrightarrow>
     (\<forall>i < unat (p_filesz p). m (p_va p + of_nat i) = image_byte d (unat (p_offset p) + i)) \<and>
     (\<forall>i. unat (p_filesz p) \<le> i \<and> i < unat (p_memsz p) \<longrightarrow> m (p_va p + of_nat i) = 0)"

text \<open>
  The loader reads whole sectors, so a segment must lie in its sector as it does in the image; it must
  not wrap, and its sectors must leave the page of headers alone.
\<close>

definition segment_fits :: "elf_program \<Rightarrow> bool" where
  "segment_fits p \<longleftrightarrow>
     sector_offset (p_offset p) = sector_offset (p_va p) \<and>
     unat (p_va p) + unat (p_filesz p) + 512 \<le> 2 ^ 64 \<and> unat (p_va p) + unat (p_memsz p) < 2 ^ 64 \<and>
     unat ELFHDR + 4096 \<le> seg_start (p_va p)"

text \<open>An address that loading \<open>p\<close> does not write.\<close>

definition untouched :: "elf_program \<Rightarrow> addr \<Rightarrow> bool" where
  "untouched p b \<longleftrightarrow> unat b < seg_start (p_va p) \<or> seg_end (p_va p) (p_filesz p) (p_memsz p) \<le> unat b"

text \<open>What loading \<open>q\<close> writes leaves the memory of \<open>p\<close> alone.\<close>

definition spares :: "elf_program \<Rightarrow> elf_program \<Rightarrow> bool" where
  "spares q p \<longleftrightarrow>
     seg_end (p_va q) (p_filesz q) (p_memsz q) \<le> unat (p_va p) \<or>
     unat (p_va p) + max (unat (p_filesz p)) (unat (p_memsz p)) \<le> seg_start (p_va q)"

fun segments_fit :: "elf_program list \<Rightarrow> bool" where
  "segments_fit [] \<longleftrightarrow> True"
| "segments_fit (p # ps) \<longleftrightarrow> segment_fits p \<and> (\<forall>q \<in> set ps. spares q p) \<and> segments_fit ps"

lemma headers_untouched: "segments_fit ps \<Longrightarrow> b \<in> region ELFHDR 4096 \<Longrightarrow> \<forall>p \<in> set ps. untouched p b"
  by (induction ps) (auto simp: segment_fits_def untouched_def region_no_wrap ELFHDR_def)

lemma spares_untouched:
  "spares q p \<Longrightarrow> unat (p_va p) \<le> unat b \<Longrightarrow> unat b < unat (p_va p) + max (unat (p_filesz p)) (unat (p_memsz p)) \<Longrightarrow>
   untouched q b"
  by (auto simp: spares_def untouched_def)

lemma disk_from_segment:
  assumes "sector_offset (p_offset p) = sector_offset (p_va p)"
  shows "disk_from d (start_sector p) (sector_offset (p_va p) + i) = image_byte d (unat (p_offset p) + i)"
proof -
  define k where "k = unat (p_offset p)"
  have "unat (p_offset p div 512 + 1) = k div 512 + 1"
    using unat_u64_less [of "p_offset p"] by (subst unat_add64) (simp_all add: k_def unat_div)
  then have "start_sector p = of_nat (k div 512 + 1)"
    unfolding start_sector_def SECTORSIZE_def by (metis of_nat_unat)
  moreover have "(k + i) div 512 = k div 512 + (k mod 512 + i) div 512"
  proof -
    have "k + i = (k mod 512 + i) + (k div 512) * 512" using div_mult_mod_eq [of k 512] by linarith
    then show ?thesis by (metis div_mult_self1 add.commute zero_neq_numeral)
  qed
  moreover have "sector_offset (p_va p) = k mod 512" using assms by (simp add: sector_offset_def k_def)
  ultimately show ?thesis
    by (simp add: disk_from_def image_byte_def k_def [symmetric] mod_add_left_eq add.assoc)
qed

lemma segment_read:
  assumes "disk_answers s" "segment_fits p" "serves d (segment_plan p) s"
  obtains t where "boot_readseg (p_va p) (start_sector p) (p_filesz p) (p_memsz p) s = Some t"
    "transfers s (128 * length (segment_plan p)) (requests (segment_plan p)) t" "segment_loaded d (pmem t) p"
    "\<And>b. untouched p b \<Longrightarrow> pmem t b = pmem s b"
proof -
  let ?n = "sectors (p_va p) (p_filesz p)"
  have p: "unat (p_va p) + unat (p_filesz p) + 512 \<le> 2 ^ 64" "unat (p_va p) + unat (p_memsz p) < 2 ^ 64"
    "sector_offset (p_offset p) = sector_offset (p_va p)"
    using assms(2) by (simp_all add: segment_fits_def)
  from readseg_loads [OF assms(1) p(1,2), of "start_sector p"] obtain t where
    t: "boot_readseg (p_va p) (start_sector p) (p_filesz p) (p_memsz p) s = Some t"
    "transfers s (128 * ?n) (sector_requests (start_sector p) ?n) t"
    "loaded (\<lambda>i. disk_byte s (4 * io_reads s 0x1F0 + i)) (p_va p) (p_filesz p) (p_memsz p) (pmem t)"
    and f: "\<And>b. untouched p b \<Longrightarrow> pmem t b = pmem s b"
    by (auto simp: untouched_def)
  have "disk_byte s (4 * io_reads s 0x1F0 + (sector_offset (p_va p) + i)) = image_byte d (unat (p_offset p) + i)"
    if i: "i < unat (p_filesz p)" for i
  proof -
    have "sector_offset (p_va p) + i < 512 * ?n" using i by (simp add: sectors_def)
    then show ?thesis
      using serves_run assms(3) unfolding segment_plan_def disk_from_segment [OF p(3), symmetric] by blast
  qed
  then have "segment_loaded d (pmem t) p" using t(3) by (simp add: loaded_def segment_loaded_def)
  then show thesis using that [OF t(1) _ _ f] t(2) by (simp add: segment_plan_def requests_run)
qed

text \<open>A loaded segment stays loaded when a later one that spares it is read.\<close>

lemma segment_loaded_keep:
  assumes "segment_loaded d m p" "segment_fits p" "\<And>b. unat (p_va p) \<le> unat b \<Longrightarrow>
    unat b < unat (p_va p) + max (unat (p_filesz p)) (unat (p_memsz p)) \<Longrightarrow> m' b = m b"
  shows "segment_loaded d m' p"
proof -
  have "m' (p_va p + of_nat i) = m (p_va p + of_nat i)" if i: "i < max (unat (p_filesz p)) (unat (p_memsz p))" for i
  proof (rule assms(3))
    have "unat (p_va p + of_nat i) = unat (p_va p) + i"
      using i assms(2) by (subst unat_add64) (auto simp: segment_fits_def unat_of_nat64 less_max_iff_disj)
    then show "unat (p_va p) \<le> unat (p_va p + of_nat i)"
      "unat (p_va p + of_nat i) < unat (p_va p) + max (unat (p_filesz p)) (unat (p_memsz p))" using i by simp_all
  qed
  then show ?thesis using assms(1) by (simp add: segment_loaded_def)
qed

lemma segments_read:
  assumes "disk_answers s" "header_page (pmem s) m" "program_headers m n ph = ps" "segments_fit ps"
    "unat ELFHDR \<le> unat ph" "unat ph + 56 * n \<le> unat ELFHDR + 4096" "serves d (concat (map segment_plan ps)) s"
  shows "\<exists>t. boot_segments n ph s = Some t \<and> (\<forall>p \<in> set ps. segment_loaded d (pmem t) p) \<and>
    transfers s (128 * length (concat (map segment_plan ps))) (requests (concat (map segment_plan ps))) t \<and>
    (\<forall>b. (\<forall>p \<in> set ps. untouched p b) \<longrightarrow>
       pmem t b = pmem s b)"
  using assms
proof (induction n arbitrary: s ph ps)
  case 0
  then show ?case by (auto simp: transfers_def requests_def)
next
  case (Suc n)
  let ?p = "read_elf_program m ph" and ?ps = "program_headers m n (ph + sizeof_elf_program)"
  have ps: "ps = ?p # ?ps" using Suc.prems(3) by simp
  have fits: "segment_fits ?p" "segments_fit ?ps" "\<forall>q \<in> set ?ps. spares q ?p" using Suc.prems(4) ps by simp_all
  have v: "serves d (segment_plan ?p @ concat (map segment_plan ?ps)) s" using Suc.prems(7) ps by simp
  have h: "read_elf_program (pmem s) ph = ?p" using elf_program_cong [OF Suc.prems(2,5)] Suc.prems(6) by simp
  obtain t where t: "boot_readseg (p_va ?p) (start_sector ?p) (p_filesz ?p) (p_memsz ?p) s = Some t"
    "transfers s (128 * length (segment_plan ?p)) (requests (segment_plan ?p)) t" "segment_loaded d (pmem t) ?p"
    and f: "\<And>b. untouched ?p b \<Longrightarrow> pmem t b = pmem s b"
    using segment_read [OF Suc.prems(1) fits(1) serves_append(1) [OF v]] by blast
  have "header_page (pmem t) m"
    using Suc.prems(2) headers_untouched [OF Suc.prems(4)] f ps by (simp add: header_page_def)
  moreover have "disk_answers t" using Suc.prems(1) transfers_answers [OF t(2)] by simp
  moreover have "unat (ph + sizeof_elf_program) = unat ph + 56"
    using Suc.prems(6) by (subst unat_add64) (simp_all add: sizeof_elf_program_def ELFHDR_def)
  ultimately obtain u where u: "boot_segments n (ph + sizeof_elf_program) t = Some u"
    "\<forall>p \<in> set ?ps. segment_loaded d (pmem u) p"
    "transfers t (128 * length (concat (map segment_plan ?ps))) (requests (concat (map segment_plan ?ps))) u"
    and g: "\<forall>b. (\<forall>p \<in> set ?ps. untouched p b) \<longrightarrow> pmem u b = pmem t b"
    using Suc.IH [of t "ph + sizeof_elf_program" ?ps] Suc.prems(5,6) fits(2) serves_append(2) [OF v t(2)] by auto
  have "segment_loaded d (pmem u) ?p"
    using t(3) fits(1) by (rule segment_loaded_keep) (use g fits(3) spares_untouched in blast)
  moreover have "boot_segments (Suc n) ph s = Some u"
    using t(1) u(1) by (simp add: h start_sector_def)
  moreover have "transfers s (128 * length (concat (map segment_plan ps))) (requests (concat (map segment_plan ps))) u"
    using transfers_trans [OF t(2) u(3)] by (simp add: ps distrib_left)
  ultimately show ?case using u(2) f g by (simp add: ps)
qed

section \<open>boot\<close>

text \<open>
  What the loader needs of an image: it is an ELF image with its program headers in its first page, and
  every segment fits and spares the ones before it.
\<close>

definition loadable :: "elf_header \<Rightarrow> elf_program list \<Rightarrow> bool" where
  "loadable h ps \<longleftrightarrow>
     e_magic h = ELF_MAGIC \<and> unat (e_phoff h) + 56 * unat (e_phnum h) \<le> 4096 \<and> segments_fit ps"

abbreviation bootable :: "ide_disk \<Rightarrow> bool" where
  "bootable d \<equiv> loadable (image_header d) (image_programs d)"

lemma boot_loads:
  assumes "disk_answers s" "bootable d" "serves d (boot_plan d) s"
  shows "\<exists>t. boot s = Some (e_entry (image_header d), t) \<and>
    io_outs t = io_outs s @ requests (boot_plan d) \<and>
    (\<forall>p \<in> set (image_programs d). segment_loaded d (pmem t) p) \<and>
    (\<forall>b. b \<notin> region ELFHDR 4096 \<longrightarrow>
       (\<forall>p \<in> set (image_programs d). untouched p b) \<longrightarrow>
       pmem t b = pmem s b)"
proof -
  let ?h = "image_header d" and ?ps = "image_programs d"
  have plan: "serves d (sector_run 1 8 @ concat (map segment_plan ?ps)) s" using assms(3) by (simp add: boot_plan_def)
  have e: "sectors ELFHDR PAGESIZE = 8" "seg_start ELFHDR = 0x10000" "seg_end ELFHDR PAGESIZE PAGESIZE = 0x11000"
    "sector_offset ELFHDR = 0"
    by (simp_all add: sectors_def sector_offset_def seg_start_def seg_end_def ELFHDR_def PAGESIZE_def)
  obtain t where t: "boot_readseg ELFHDR 1 PAGESIZE PAGESIZE s = Some t" "transfers s (128 * 8) (requests (sector_run 1 8)) t"
    "loaded (\<lambda>i. disk_byte s (4 * io_reads s 0x1F0 + i)) ELFHDR PAGESIZE PAGESIZE (pmem t)"
    and f: "\<And>b. unat b < 0x10000 \<or> 0x11000 \<le> unat b \<Longrightarrow> pmem t b = pmem s b"
    using readseg_loads [OF assms(1), of ELFHDR PAGESIZE PAGESIZE 1, unfolded e requests_run [symmetric]]
    by (auto simp: ELFHDR_def PAGESIZE_def)
  have "pmem t (ELFHDR + of_nat i) = image_mem d (ELFHDR + of_nat i)" if "i < 4096" for i
    using t(3) serves_run [OF serves_append(1) [OF plan], of i] that
    by (simp add: loaded_def e PAGESIZE_def image_mem_def image_byte_def unat_of_nat64)
  then have page: "header_page (pmem t) (image_mem d)" by (auto simp: header_page_def region_image)
  have h: "read_elf_header (pmem t) ELFHDR = ?h" using elf_header_cong [OF page] by (simp add: image_header_def)
  have ph: "unat (ELFHDR + e_phoff ?h) = unat ELFHDR + unat (e_phoff ?h)"
    using assms(2) by (subst unat_add64) (simp_all add: loadable_def ELFHDR_def)
  have "disk_answers t" using assms(1) transfers_answers [OF t(2)] by simp
  moreover have "serves d (concat (map segment_plan ?ps)) t"
    using serves_append(2) [OF plan, of "requests (sector_run 1 8)" t] t(2) by simp
  ultimately obtain u where u: "boot_segments (unat (e_phnum ?h)) (ELFHDR + e_phoff ?h) t = Some u"
    "\<forall>p \<in> set ?ps. segment_loaded d (pmem u) p"
    "transfers t (128 * length (concat (map segment_plan ?ps))) (requests (concat (map segment_plan ?ps))) u"
    and g: "\<forall>b. (\<forall>p \<in> set ?ps. untouched p b) \<longrightarrow>
      pmem u b = pmem t b"
    using segments_read [OF _ page, of "unat (e_phnum ?h)" "ELFHDR + e_phoff ?h" ?ps d] assms(2) ph
    by (auto simp: loadable_def image_programs_def)
  have "header_page (pmem u) (pmem t)"
    using assms(2) g headers_untouched unfolding header_page_def loadable_def by blast
  then have "read_elf_header (pmem u) ELFHDR = ?h" using elf_header_cong h by simp
  then have "boot s = Some (e_entry ?h, u)" using t(1) u(1) assms(2) h by (simp add: boot_def loadable_def Let_def)
  moreover have "io_outs u = io_outs s @ requests (boot_plan d)"
    using t(2) u(3) by (simp add: transfers_def boot_plan_def)
  moreover have "pmem u b = pmem s b"
    if "b \<notin> region ELFHDR 4096" "\<forall>p \<in> set ?ps. untouched p b" for b
    using g that f by (auto simp: region_no_wrap ELFHDR_def)
  ultimately show ?thesis using u(2) by blast
qed

text \<open>
  C20. The boot loader loads the kernel. From a disk that is not busy for ever, holds a bootable image and
  delivers the sectors in the order of \<^const>\<open>boot_plan\<close> (the first eight of the image, then those of each
  segment in turn), \<^verbatim>\<open>boot\<close> returns, and jumps to the entry point of the image's header. The port writes
  it has made ask for exactly those sectors in that order. Every segment of the image is in memory at its
  virtual address, its bytes from its offset in the file on and zeros up to its size in memory; and memory
  that is in no segment's sectors and not in the page of headers is unchanged.
\<close>

theorem boot_loads_kernel:
  assumes "disk_answers s" "bootable d" "serves d (boot_plan d) s"
  shows "\<exists>t. boot s = Some (e_entry (image_header d), t) \<and>
    io_outs t = io_outs s @ requests (boot_plan d) \<and>
    (\<forall>p \<in> set (image_programs d). segment_loaded d (pmem t) p) \<and>
    (\<forall>b. b \<notin> region ELFHDR 4096 \<longrightarrow>
       (\<forall>p \<in> set (image_programs d). untouched p b) \<longrightarrow>
       pmem t b = pmem s b)"
  using assms by (rule boot_loads)

text \<open>
  A small image: its header, one program header right after it, and a segment of two bytes at offset
  4096 that takes six bytes of memory at 0x40000. Its nine sectors are read in a row, from a disk that is
  always ready.
\<close>

definition small_disk :: ide_disk where
  "small_disk q i =
     (let bytes = (if q = 1 then [(0, 0x7F), (1, 0x45), (2, 0x4C), (3, 0x46), (0x1A, 4), (0x20, 64), (0x38, 1),
                                  (64, 1), (73, 0x10), (82, 4), (96, 2), (104, 6)]
                   else if q = 9 then [(0, 0xF4), (1, 0xEB)] else [])
      in case map_of bytes i of Some b \<Rightarrow> b | None \<Rightarrow> 0)"

definition small_machine :: machine where
  "small_machine = \<lparr>pmem = (\<lambda>a. 0xFF),
     io_in = (\<lambda>k p. if p = 0x1F7 then 0x40 else read32 (\<lambda>a. image_byte small_disk (unat a)) (of_nat (4 * k))),
     io_reads = (\<lambda>p. 0), io_outs = [], cr0 = 0, cr2 = 0, cr3 = 0, cr4 = 0, rflags = 0,
     gdtr = \<lparr>pseudod_limit = 0, pseudod_base = 0\<rparr>, idtr = \<lparr>pseudod_limit = 0, pseudod_base = 0\<rparr>, task_register = 0\<rparr>"

lemma read_le_byte:
  "i < n \<Longrightarrow> 8 * n \<le> LENGTH('a) \<Longrightarrow> ucast (drop_bit (8 * i) (read_le n m a :: 'a::len word)) = m (a + of_nat i)"
proof (induction n arbitrary: a i)
  case (Suc n)
  have m: "\<not> bit (m a) k" if "8 \<le> k" for k using bit_imp_le_length [of "m a" k] that by auto
  show ?case
  proof (cases i)
    case 0
    then show ?thesis using Suc.prems by (auto intro!: bit_word_eqI simp: bit_simps)
  next
    case (Suc j)
    have "ucast (drop_bit (8 * i) (read_le (Suc n) m a :: 'a word)) = (ucast (drop_bit (8 * j) (read_le n m (a + 1) :: 'a word)) :: u8)"
      using Suc.prems Suc by (auto intro!: bit_word_eqI simp: bit_simps ac_simps m)
    then show ?thesis using Suc.IH [of j "a + 1"] Suc.prems Suc by (simp add: add.assoc)
  qed
qed simp

lemma small_header:
  "e_magic (image_header small_disk) = ELF_MAGIC" "e_entry (image_header small_disk) = 0x40000"
  "e_phoff (image_header small_disk) = 64" "e_phnum (image_header small_disk) = 1"
  by code_simp+

lemma small_programs:
  "image_programs small_disk = [\<lparr>p_type = 1, p_flags = 0, p_offset = 0x1000, p_va = 0x40000, p_pa = 0,
     p_filesz = 2, p_memsz = 6, p_align = 0\<rparr>]"
  by code_simp

lemma small_bytes: "image_byte small_disk 4096 = 0xF4" "image_byte small_disk 4097 = 0xEB"
  by (simp_all add: image_byte_def disk_from_def small_disk_def)

lemma small_bootable: "bootable small_disk"
  by (simp add: loadable_def small_header small_programs segment_fits_def sector_offset_def seg_start_def ELFHDR_def)

lemma small_plan: "boot_plan small_disk = sector_run 1 9"
  by (simp add: boot_plan_def small_programs segment_plan_def start_sector_def SECTORSIZE_def sectors_def
      sector_offset_def sector_run_def upt_conv_Cons)

lemma small_answers: "disk_answers small_machine"
  by (auto simp: disk_answers_def small_machine_def)

lemma small_serves: "serves small_disk (boot_plan small_disk) small_machine"
proof -
  have "disk_byte small_machine i = disk_from small_disk 1 i" if i: "i < 512 * 9" for i
  proof -
    have "disk_byte small_machine i = image_byte small_disk (unat (of_nat (4 * (i div 4)) + of_nat (i mod 4) :: u64))"
      using read_le_byte [where 'a = 32, of "i mod 4" 4] by (simp add: disk_byte_def small_machine_def read32_def)
    also have "(of_nat (4 * (i div 4)) + of_nat (i mod 4) :: u64) = of_nat i"
      by (simp only: flip: of_nat_add) simp
    finally show ?thesis using i by (simp add: image_byte_def unat_of_nat64)
  qed
  then show ?thesis by (simp add: serves_run_iff small_plan) (simp add: small_machine_def)
qed

theorem boot_loads_kernel_witness:
  "\<exists>t. boot small_machine = Some (0x40000, t) \<and> io_outs t = sector_requests 1 9 \<and>
     pmem t 0x40000 = 0xF4 \<and> pmem t 0x40001 = 0xEB \<and> pmem t 0x40005 = 0 \<and> pmem t 0x50000 = 0xFF"
proof -
  obtain t where t: "boot small_machine = Some (0x40000, t)"
    "io_outs t = io_outs small_machine @ requests (boot_plan small_disk)"
    "\<forall>p \<in> set (image_programs small_disk). segment_loaded small_disk (pmem t) p"
    "\<forall>b. b \<notin> region ELFHDR 4096 \<longrightarrow> (\<forall>p \<in> set (image_programs small_disk). untouched p b) \<longrightarrow>
      pmem t b = pmem small_machine b"
    using boot_loads_kernel [OF small_answers small_bootable small_serves] by (auto simp: small_header)
  have "pmem t 0x50000 = 0xFF"
    using t(4) [rule_format, of "0x50000"]
    by (simp add: small_programs untouched_def seg_start_def seg_end_def sector_offset_def sectors_def
        region_no_wrap ELFHDR_def small_machine_def)
  moreover have "\<forall>i < 2. pmem t (0x40000 + of_nat i) = image_byte small_disk (4096 + i)"
    "\<forall>i. 2 \<le> i \<and> i < 6 \<longrightarrow> pmem t (0x40000 + of_nat i) = 0"
    using t(3) by (simp_all add: small_programs segment_loaded_def)
  from this(1) [rule_format, of 0] this(1) [rule_format, of 1] this(2) [rule_format, of 5]
  have "pmem t 0x40000 = 0xF4" "pmem t 0x40001 = 0xEB" "pmem t 0x40005 = 0"
    by (simp_all add: small_bytes)
  ultimately show ?thesis
    using t(1,2) by (simp add: small_plan requests_run small_machine_def)
qed

end
