(* ===== verification/Mkbootdisk.thy ===== *)
theory Mkbootdisk
  imports Elf
begin

text \<open>
  \<^verbatim>\<open>build/mkbootdisk.c\<close>: the host program that makes the boot image. The file behind
  \<^verbatim>\<open>diskfd\<close> is a map from offsets to bytes with a length and a position. What \<^verbatim>\<open>write\<close>
  returns is the environment's choice: \<open>writes n\<close> is the outcome of the \<open>n\<close>-th call. A failure
  ends in \<^verbatim>\<open>usage()\<close>, which exits with code 1. Messages on stderr are left out.
\<close>

section \<open>The output file\<close>

datatype write_result = Wrote nat | Interrupted | Write_failed

record disk =
  bytes :: "nat \<Rightarrow> u8"
  disk_size :: nat
  pos :: nat
  maxoff :: nat
  curoff :: nat
  writes :: "nat \<Rightarrow> write_result"
  calls :: nat

datatype 'a host = Exit int disk | Done 'a disk

definition usage :: "disk \<Rightarrow> 'a host" where "usage d = Exit 1 d"

definition hostBind :: "'a host option \<Rightarrow> ('a \<Rightarrow> disk \<Rightarrow> 'b host option) \<Rightarrow> 'b host option" where
  "hostBind r f = (case r of None \<Rightarrow> None | Some (Exit c d) \<Rightarrow> Some (Exit c d) | Some (Done x d) \<Rightarrow> f x d)"

text \<open>\<open>w\<close> bytes of \<open>data\<close> at the file position; a write never takes more than it is given.\<close>

definition put_bytes :: "u8 list \<Rightarrow> disk \<Rightarrow> disk" where
  "put_bytes bs d =
     d\<lparr>bytes := (\<lambda>i. if pos d \<le> i \<and> i < pos d + length bs then bs ! (i - pos d) else bytes d i),
       disk_size := max (disk_size d) (pos d + length bs), pos := pos d + length bs,
       curoff := curoff d + length bs\<rparr>"

partial_function (option) write_all :: "u8 list \<Rightarrow> disk \<Rightarrow> unit host option" where
  "write_all bs d =
     (if bs = [] then Some (Done () d)
      else case writes d (calls d) of
             Write_failed \<Rightarrow> Some (Exit 1 (d\<lparr>calls := calls d + 1\<rparr>))
           | Interrupted \<Rightarrow> write_all bs (d\<lparr>calls := calls d + 1\<rparr>)
           | Wrote w \<Rightarrow>
               if w = 0 then Some (Exit 1 (d\<lparr>calls := calls d + 1\<rparr>))
               else write_all (drop w bs) (put_bytes (take w bs) (d\<lparr>calls := calls d + 1\<rparr>)))"

definition diskwrite :: "u8 list \<Rightarrow> disk \<Rightarrow> unit host option" where
  "diskwrite bs d =
     (if maxoff d \<noteq> 0 \<and> curoff d + length bs > maxoff d then Some (usage d) else write_all bs d)"

section \<open>Reading sectors\<close>

definition HOST_SECTORSIZE :: nat where "HOST_SECTORSIZE = 512"

text \<open>A short read is an error; the sector number is 32 bits wide.\<close>

definition readsect :: "u32 \<Rightarrow> disk \<Rightarrow> u8 list host" where
  "readsect sectno d =
     (let o' = unat sectno * HOST_SECTORSIZE
      in if o' + HOST_SECTORSIZE \<le> disk_size d
         then Done (map (\<lambda>i. bytes d (o' + i)) [0..<HOST_SECTORSIZE]) (d\<lparr>pos := o' + HOST_SECTORSIZE\<rparr>)
         else usage (d\<lparr>pos := max o' (disk_size d)\<rparr>))"

section \<open>Partitions\<close>

definition PTABLE_OFFSET :: nat where "PTABLE_OFFSET = 446"
definition PTABLE_MAGIC_OFFSET :: nat where "PTABLE_MAGIC_OFFSET = 510"
definition PTABLE_MAGIC1 :: u8 where "PTABLE_MAGIC1 = 0x55"
definition PTABLE_MAGIC2 :: u8 where "PTABLE_MAGIC2 = 0xAA"
definition PTYPE_JOS_KERN :: u8 where "PTYPE_JOS_KERN = 0x27"
definition PTYPE_JOSFS :: u8 where "PTYPE_JOSFS = 0x28"
definition PTYPE_DOS_EXTENDED :: u8 where "PTYPE_DOS_EXTENDED = 0x05"
definition PTYPE_W95_EXTENDED :: u8 where "PTYPE_W95_EXTENDED = 0x0F"
definition PTYPE_LINUX_EXTENDED :: u8 where "PTYPE_LINUX_EXTENDED = 0x85"

record partitiondesc =
  pd_boot :: u8
  pd_chs_begin :: "u8 list"
  pd_type :: u8
  pd_chs_end :: "u8 list"
  lba_start :: u32
  lba_length :: u32

definition le32 :: "u8 list \<Rightarrow> u32" where
  "le32 bs = horner_sum ucast (2 ^ 8) bs"

definition read_desc :: "u8 list \<Rightarrow> nat \<Rightarrow> partitiondesc" where
  "read_desc buf i =
     (let e = take 16 (drop (PTABLE_OFFSET + 16 * i) buf)
      in \<lparr>pd_boot = e ! 0, pd_chs_begin = take 3 (drop 1 e), pd_type = e ! 4, pd_chs_end = take 3 (drop 5 e),
          lba_start = le32 (take 4 (drop 8 e)), lba_length = le32 (take 4 (drop 12 e))\<rparr>)"

text \<open>The table of a partition sector: empty without the magic number.\<close>

definition partition_table :: "u8 list \<Rightarrow> partitiondesc list" where
  "partition_table buf =
     (if buf ! PTABLE_MAGIC_OFFSET \<noteq> PTABLE_MAGIC1 \<or> buf ! (PTABLE_MAGIC_OFFSET + 1) \<noteq> PTABLE_MAGIC2 then []
      else map (read_desc buf) [0..<4])"

text \<open>
  The search loop over the entries of one table; entry \<open>i\<close> is the first of \<open>ptable\<close>. An
  extended entry is searched in turn, its sector read first. A chain of extended partitions that
  leads back to itself never ends. \<open>True\<close> is 1 (found), with \<^verbatim>\<open>maxoff\<close> and the position set.
\<close>

partial_function (option) find_entries ::
  "partitiondesc list \<Rightarrow> int \<Rightarrow> int \<Rightarrow> disk \<Rightarrow> bool host option" where
  "find_entries ptable partition_sect extended_sect d =
     (case ptable of
        [] \<Rightarrow> Some (Done False d)
      | e # es \<Rightarrow>
          if lba_length e = 0 then find_entries es partition_sect extended_sect d
          else if pd_type e = PTYPE_JOS_KERN
          then Some (Done True (d\<lparr>pos := nat (partition_sect + uint (lba_start e)) * HOST_SECTORSIZE,
                                  maxoff := unat (lba_length e) * HOST_SECTORSIZE\<rparr>))
          else if pd_type e = PTYPE_DOS_EXTENDED \<or> pd_type e = PTYPE_W95_EXTENDED \<or> pd_type e = PTYPE_LINUX_EXTENDED
          then case readsect (word_of_int (uint (lba_start e) + extended_sect)) d of
                 Exit c d' \<Rightarrow> Some (Exit c d')
               | Done buf d' \<Rightarrow>
                   Option.bind
                     (find_entries (partition_table buf) (uint (lba_start e) + extended_sect)
                        (if extended_sect = 0 then uint (lba_start e) else extended_sect) d')
                     (\<lambda>r. case r of
                        Exit c d'' \<Rightarrow> Some (Exit c d'')
                      | Done found d'' \<Rightarrow>
                          if found then Some (Done True d'')
                          else find_entries es partition_sect extended_sect d'')
          else find_entries es partition_sect extended_sect d)"

definition find_partition :: "int \<Rightarrow> int \<Rightarrow> disk \<Rightarrow> bool host option" where
  "find_partition partition_sect extended_sect d =
     (case readsect (word_of_int partition_sect) d of
        Exit c d' \<Rightarrow> Some (Exit c d')
      | Done buf d' \<Rightarrow> find_entries (partition_table buf) partition_sect extended_sect d')"

section \<open>The multiboot header\<close>

definition multiboot_header :: "u8 list" where
  "multiboot_header = [0x02, 0xB0, 0xAD, 0x1B, 0, 0, 0, 0, 0xFE, 0x4F, 0x52, 0xE4]"

definition do_multiboot :: "disk \<Rightarrow> unit host option" where
  "do_multiboot d =
     (case readsect 0 d of
        Exit c d \<Rightarrow> Some (Exit c d)
      | Done buf d \<Rightarrow>
          let m = (\<lambda>a. buf ! unat a); h = read_elf_header m 0;
              p = e_phoff h + sizeof_elf_program * ucast (e_phnum h)
          in if e_magic h \<noteq> ELF_MAGIC then Some (usage d)
             else if p \<ge> 4096 - 12 then Some (usage d)
             else hostBind (diskwrite multiboot_header (d\<lparr>pos := unat p\<rparr>)) (\<lambda>_ d. Some (Exit 0 d)))"

section \<open>main\<close>

definition zerobuf :: "u8 list" where "zerobuf = replicate 512 0"

text \<open>
  The boot sector: at most 510 bytes (the whole file is read when it is shorter than 4096
  bytes), padded with zeros and signed.
\<close>

definition boot_sector :: "u8 list \<Rightarrow> u8 list option" where
  "boot_sector f = (if length (take 4096 f) > 510 then None
                    else Some (f @ replicate (510 - length f) 0 @ [0x55, 0xAA]))"

fun pad_sectors :: "nat \<Rightarrow> disk \<Rightarrow> unit host option" where
  "pad_sectors 0 d = Some (Done () d)"
| "pad_sectors (Suc n) d = hostBind (diskwrite zerobuf d) (\<lambda>_. pad_sectors n)"

text \<open>\<^verbatim>\<open>fread\<close> gives the file in pieces of 4096 bytes.\<close>

function copy_file :: "u8 list \<Rightarrow> disk \<Rightarrow> unit host option" where
  "copy_file f d =
     (if f = [] then Some (Done () d)
      else hostBind (diskwrite (take 4096 f) d) (\<lambda>_. copy_file (drop 4096 f)))"
  by pat_completeness auto

termination by (relation "measure (\<lambda>(f, d). length f)") auto

declare copy_file.simps [simp del]

text \<open>The file and its padding to whole sectors; the result is its number of sectors.\<close>

definition add_file :: "u8 list \<Rightarrow> disk \<Rightarrow> nat host option" where
  "add_file f d =
     hostBind (copy_file f d) (\<lambda>_ d.
       if length f mod 512 \<noteq> 0
       then hostBind (diskwrite (take (512 - length f mod 512) zerobuf) d) (\<lambda>_ d.
              Some (Done ((length f + (512 - length f mod 512)) div 512) d))
       else Some (Done (length f div 512) d))"

text \<open>
  An argument after the boot sector: a sector to skip to (\<open>Skip\<close>: an at sign and a number that
  \<^verbatim>\<open>strtoul\<close> reads to the end) or the contents of a file, \<open>None\<close> when it cannot be opened.
\<close>

datatype argument = Skip nat | File "u8 list option"

fun add_arguments :: "argument list \<Rightarrow> nat \<Rightarrow> disk \<Rightarrow> nat host option" where
  "add_arguments [] nsectors d = Some (Done nsectors d)"
| "add_arguments (Skip k # as) nsectors d =
     (if nsectors > k then Some (usage d)
      else hostBind (pad_sectors (k - nsectors) d) (\<lambda>_. add_arguments as k))"
| "add_arguments (File None # as) nsectors d = Some (usage d)"
| "add_arguments (File (Some f) # as) nsectors d =
     hostBind (add_file f d) (\<lambda>k. add_arguments as (nsectors + k))"

text \<open>
  \<^verbatim>\<open>strtoul\<close> with base 0 on a string that starts with a digit: the number when the whole
  string is one (decimal, octal after 0, hexadecimal after 0x).
\<close>

definition digits_value :: "nat \<Rightarrow> string \<Rightarrow> nat option" where
  "digits_value base cs =
     (let value = (\<lambda>c. let n = of_char c :: nat
                       in if 48 \<le> n \<and> n < 58 then n - 48 else if 97 \<le> n \<and> n < 103 then n - 87
                          else if 65 \<le> n \<and> n < 71 then n - 55 else 99)
      in if cs \<noteq> [] \<and> (\<forall>c \<in> set cs. value c < base)
         then Some (min (foldl (\<lambda>n c. n * base + value c) 0 cs) (2 ^ 64 - 1)) else None)"

definition strtoul_all :: "string \<Rightarrow> nat option" where
  "strtoul_all cs =
     (case cs of
        c # x # ds \<Rightarrow>
          if c = CHR ''0'' \<and> (x = CHR ''x'' \<or> x = CHR ''X'') then digits_value 16 ds
          else if c = CHR ''0'' then digits_value 8 cs else digits_value 10 cs
      | _ \<Rightarrow> digits_value 10 cs)"

definition is_digit_char :: "char \<Rightarrow> bool" where
  "is_digit_char c \<longleftrightarrow> 48 \<le> (of_char c :: nat) \<and> (of_char c :: nat) < 58"

text \<open>\<open>files\<close> is the file system: the contents of a file that can be opened.\<close>

definition read_argument :: "(string \<Rightarrow> u8 list option) \<Rightarrow> string \<Rightarrow> argument" where
  "read_argument files a =
     (case a of
        c # d # ds \<Rightarrow>
          if c = CHR 0x40 \<and> is_digit_char d \<and> strtoul_all (d # ds) \<noteq> None
          then Skip (the (strtoul_all (d # ds))) else File (files a)
      | _ \<Rightarrow> File (files a))"

text \<open>
  \<^verbatim>\<open>main\<close> after its options are read: \<open>Image\<close> writes a boot sector and files to stdout,
  \<open>Partition\<close> writes files into the JOS partition of a disk, \<open>Multiboot\<close> patches a kernel.
\<close>

datatype command = Image "u8 list option" "argument list" | Partition "argument list" | Multiboot

definition fill_out :: "nat \<Rightarrow> disk \<Rightarrow> unit host option" where
  "fill_out nsectors d = pad_sectors (1024 - nsectors) d"

fun mkbootdisk :: "command \<Rightarrow> disk \<Rightarrow> unit host option" where
  "mkbootdisk (Image boot as) d =
     (case Option.bind boot boot_sector of
        None \<Rightarrow> Some (usage d)
      | Some b \<Rightarrow> hostBind (diskwrite b d) (\<lambda>_ d. hostBind (add_arguments as 1 d) fill_out))"
| "mkbootdisk (Partition as) d =
     hostBind (find_partition 0 0 d) (\<lambda>found d.
       if found then hostBind (add_arguments as 0 d) fill_out else Some (usage d))"
| "mkbootdisk Multiboot d = do_multiboot d"

text \<open>
  The command line, without the program's name: \<open>None\<close> is \<^verbatim>\<open>usage()\<close>. The disk and the kernel
  file that \<^verbatim>\<open>-p\<close> and \<^verbatim>\<open>-m\<close> name are the file the state describes. The two options together,
  which would patch a second file under the first one's limit, are not modelled (\<open>None\<close>).
\<close>

definition parse_command :: "(string \<Rightarrow> u8 list option) \<Rightarrow> string list \<Rightarrow> command option" where
  "parse_command files argv =
     (case argv of
        [] \<Rightarrow> None
      | a # as \<Rightarrow>
          if a = ''-p'' then (case as of [] \<Rightarrow> None
                              | _ # bs \<Rightarrow> if bs = [] \<or> hd bs = ''-m'' then None
                                         else Some (Partition (map (read_argument files) bs)))
          else if a = ''-m'' then (if as = [] then None else Some Multiboot)
          else Some (Image (files a) (map (read_argument files) as)))"

end
