(* ===== verification/Mkbootdisk_Props.thy ===== *)
theory Mkbootdisk_Props
  imports Mkbootdisk
begin

text \<open>
  The image that \<^verbatim>\<open>mkbootdisk\<close> writes, as a list of bytes: the output of the program against a
  specification that concatenates sectors, however the writes are split.
\<close>

section \<open>Writes that make progress\<close>

text \<open>Every write takes at least one byte; how many is the system's choice.\<close>

definition progress :: "disk \<Rightarrow> bool" where
  "progress d \<longleftrightarrow> (\<forall>n. \<exists>w > 0. writes d n = Wrote w)"

text \<open>An output that is only appended to, with no limit.\<close>

definition appending :: "disk \<Rightarrow> bool" where
  "appending d \<longleftrightarrow> progress d \<and> maxoff d = 0 \<and> pos d = disk_size d"

definition content :: "disk \<Rightarrow> u8 list" where
  "content d = map (bytes d) [0..<disk_size d]"

lemma length_content [simp]: "length (content d) = disk_size d"
  by (simp add: content_def)

lemma appending_calls [simp]: "appending (d\<lparr>calls := c\<rparr>) \<longleftrightarrow> appending d" "content (d\<lparr>calls := c\<rparr>) = content d"
  by (simp_all add: appending_def progress_def content_def)

lemma put_bytes_appends:
  assumes "appending d" shows "appending (put_bytes bs d)" "content (put_bytes bs d) = content d @ bs"
proof -
  show "appending (put_bytes bs d)" using assms by (simp add: appending_def progress_def put_bytes_def)
  show "content (put_bytes bs d) = content d @ bs"
    using assms by (intro nth_equalityI) (auto simp: content_def put_bytes_def appending_def nth_append)
qed

lemma write_all_appends:
  assumes "appending d"
  shows "\<exists>d'. write_all bs d = Some (Done () d') \<and> appending d' \<and> content d' = content d @ bs"
  using assms
proof (induction bs arbitrary: d rule: length_induct)
  case (1 bs)
  show ?case
  proof (cases "bs = []")
    case True
    then show ?thesis using "1.prems" by (subst write_all.simps) simp
  next
    case False
    obtain w where w: "0 < w" "writes d (calls d) = Wrote w"
      using "1.prems" by (auto simp: appending_def progress_def)
    let ?d = "put_bytes (take w bs) (d\<lparr>calls := calls d + 1\<rparr>)"
    have a: "appending ?d" "content ?d = content d @ take w bs"
      using put_bytes_appends [of "d\<lparr>calls := calls d + 1\<rparr>"] "1.prems" by simp_all
    have "length (drop w bs) < length bs" using False w(1) by simp
    with "1.IH" a(1) obtain d' where "write_all (drop w bs) ?d = Some (Done () d')" "appending d'"
      "content d' = content ?d @ drop w bs" by blast
    then show ?thesis using False w a(2) by (subst write_all.simps) simp
  qed
qed

lemma diskwrite_appends:
  "appending d \<Longrightarrow> \<exists>d'. diskwrite bs d = Some (Done () d') \<and> appending d' \<and> content d' = content d @ bs"
  using write_all_appends by (simp add: diskwrite_def appending_def)

section \<open>The parts of the image\<close>

lemma pad_sectors_appends:
  assumes "appending d"
  shows "\<exists>d'. pad_sectors n d = Some (Done () d') \<and> appending d' \<and> content d' = content d @ replicate (512 * n) 0"
  using assms
proof (induction n arbitrary: d)
  case (Suc n)
  obtain d1 where 1: "diskwrite zerobuf d = Some (Done () d1)" "appending d1" "content d1 = content d @ zerobuf"
    using diskwrite_appends [OF Suc.prems] by blast
  obtain d2 where "pad_sectors n d1 = Some (Done () d2)" "appending d2" "content d2 = content d1 @ replicate (512 * n) 0"
    using Suc.IH [OF 1(2)] by blast
  then show ?case using 1 by (simp add: hostBind_def zerobuf_def replicate_add)
qed simp

lemma copy_file_appends:
  "appending d \<Longrightarrow> \<exists>d'. copy_file f d = Some (Done () d') \<and> appending d' \<and> content d' = content d @ f"
proof (induction f d rule: copy_file.induct)
  case (1 f d)
  show ?case
  proof (cases "f = []")
    case True
    then show ?thesis using "1.prems" by (subst copy_file.simps) simp
  next
    case False
    obtain d1 where 1: "diskwrite (take 4096 f) d = Some (Done () d1)" "appending d1" "content d1 = content d @ take 4096 f"
      using diskwrite_appends [OF "1.prems"] by blast
    obtain d2 where "copy_file (drop 4096 f) d1 = Some (Done () d2)" "appending d2" "content d2 = content d1 @ drop 4096 f"
      using "1.IH" [OF False 1(2)] by blast
    then show ?thesis using False 1 by (subst copy_file.simps) (simp add: hostBind_def)
  qed
qed

definition whole_sectors :: "u8 list \<Rightarrow> u8 list" where
  "whole_sectors f = f @ replicate ((512 - length f mod 512) mod 512) 0"

lemma whole_sectors_dvd: "512 dvd length (whole_sectors f)"
proof (cases "length f mod 512 = 0")
  case True
  then show ?thesis by (simp add: whole_sectors_def dvd_eq_mod_eq_0)
next
  case False
  have "length f = 512 * (length f div 512) + length f mod 512" "length f mod 512 \<le> 512" by simp_all
  then have "length f + (512 - length f mod 512) = 512 * (length f div 512 + 1)"
    by (metis add.assoc add_diff_cancel_left' le_add_diff_inverse mult.right_neutral ring_distribs(1))
  then show ?thesis using False by (simp add: whole_sectors_def)
qed

lemma add_file_appends:
  assumes "appending d"
  shows "\<exists>d'. add_file f d = Some (Done (length (whole_sectors f) div 512) d') \<and> appending d' \<and>
    content d' = content d @ whole_sectors f"
proof -
  obtain d1 where 1: "copy_file f d = Some (Done () d1)" "appending d1" "content d1 = content d @ f"
    using copy_file_appends [OF assms] by blast
  show ?thesis
  proof (cases "length f mod 512 = 0")
    case True
    then show ?thesis using 1 by (auto simp: add_file_def hostBind_def whole_sectors_def)
  next
    case False
    let ?z = "512 - length f mod 512"
    have z: "take ?z zerobuf = replicate ?z 0" "?z mod 512 = ?z" using False by (simp_all add: zerobuf_def)
    obtain d2 where "diskwrite (take ?z zerobuf) d1 = Some (Done () d2)" "appending d2"
      "content d2 = content d1 @ take ?z zerobuf" using diskwrite_appends [OF 1(2)] by blast
    then show ?thesis using False 1 z by (auto simp: add_file_def hostBind_def whole_sectors_def)
  qed
qed

section \<open>The whole image\<close>

text \<open>The specification: the bytes so far, and the arguments that remain.\<close>

fun image_layout :: "u8 list \<Rightarrow> argument list \<Rightarrow> u8 list option" where
  "image_layout img [] = Some img"
| "image_layout img (Skip k # as) =
     (if length img div 512 > k then None
      else image_layout (img @ replicate (512 * (k - length img div 512)) 0) as)"
| "image_layout img (File None # as) = None"
| "image_layout img (File (Some f) # as) = image_layout (img @ whole_sectors f) as"

definition fill_1024 :: "u8 list \<Rightarrow> u8 list" where
  "fill_1024 img = img @ replicate (512 * (1024 - length img div 512)) 0"

lemma sectors_added: "512 dvd length img \<Longrightarrow> 512 dvd n \<Longrightarrow> (length img + n) div 512 = length img div 512 + n div 512"
  by (rule div_add)

lemma add_arguments_layout:
  assumes "appending d" "512 dvd disk_size d"
  shows "case image_layout (content d) as of
      None \<Rightarrow> \<exists>d'. add_arguments as (disk_size d div 512) d = Some (Exit 1 d')
    | Some img \<Rightarrow> \<exists>d'. add_arguments as (disk_size d div 512) d = Some (Done (length img div 512) d') \<and>
        appending d' \<and> content d' = img \<and> 512 dvd length img"
  using assms
proof (induction as arbitrary: d)
  case Nil
  then show ?case by simp
next
  case (Cons a as)
  show ?case
  proof (cases a)
    case (Skip k)
    show ?thesis
    proof (cases "disk_size d div 512 > k")
      case True
      then show ?thesis using Skip by (simp add: usage_def)
    next
      case False
      let ?n = "k - disk_size d div 512"
      obtain d1 where 1: "pad_sectors ?n d = Some (Done () d1)" "appending d1" "content d1 = content d @ replicate (512 * ?n) 0"
        using pad_sectors_appends [OF Cons.prems(1)] by blast
      have l: "disk_size d1 = disk_size d + 512 * ?n" using arg_cong [OF 1(3), of length] by simp
      then have "512 dvd disk_size d1" "disk_size d1 div 512 = k" using Cons.prems(2) False by auto
      then show ?thesis using Cons.IH [OF 1(2)] Skip False 1 by (auto simp: hostBind_def split: option.splits)
    qed
  next
    case (File c)
    show ?thesis
    proof (cases c)
      case None
      then show ?thesis using File by (simp add: usage_def)
    next
      case (Some f)
      obtain d1 where 1: "add_file f d = Some (Done (length (whole_sectors f) div 512) d1)" "appending d1"
        "content d1 = content d @ whole_sectors f"
        using add_file_appends [OF Cons.prems(1)] by blast
      have l: "disk_size d1 = disk_size d + length (whole_sectors f)" using arg_cong [OF 1(3), of length] by simp
      then have "512 dvd disk_size d1" "disk_size d1 div 512 = disk_size d div 512 + length (whole_sectors f) div 512"
        using Cons.prems(2) whole_sectors_dvd [of f] by (simp_all add: div_add)
      then show ?thesis using Cons.IH [OF 1(2)] File Some 1 by (auto simp: hostBind_def split: option.splits)
    qed
  qed
qed

lemma image_written:
  assumes "progress d" "maxoff d = 0" "disk_size d = 0" "pos d = 0"
  shows "case Option.bind boot boot_sector of
      None \<Rightarrow> \<exists>d'. mkbootdisk (Image boot as) d = Some (Exit 1 d')
    | Some b \<Rightarrow> length b = 512 \<and> b ! 510 = 0x55 \<and> b ! 511 = 0xAA \<and>
        (case image_layout b as of
           None \<Rightarrow> \<exists>d'. mkbootdisk (Image boot as) d = Some (Exit 1 d')
         | Some img \<Rightarrow> \<exists>d'. mkbootdisk (Image boot as) d = Some (Done () d') \<and> content d' = fill_1024 img)"
proof (cases "Option.bind boot boot_sector")
  case None
  then show ?thesis by (simp add: usage_def)
next
  case (Some b)
  have b: "length b = 512" "b ! 510 = 0x55" "b ! 511 = 0xAA"
    using Some by (auto simp: boot_sector_def nth_append split: Option.bind_splits if_splits)
  have "appending d" "content d = []" using assms by (simp_all add: appending_def content_def)
  then obtain d1 where 1: "diskwrite b d = Some (Done () d1)" "appending d1" "content d1 = b"
    using diskwrite_appends [of d b] by auto
  have l: "disk_size d1 = 512" using arg_cong [OF 1(3), of length] b(1) by simp
  show ?thesis
  proof (cases "image_layout b as")
    case None
    then show ?thesis using add_arguments_layout [OF 1(2), of as] Some b 1 l by (auto simp: hostBind_def)
  next
    case (Some img)
    then obtain d2 where 2: "add_arguments as 1 d1 = Some (Done (length img div 512) d2)" "appending d2" "content d2 = img"
      using add_arguments_layout [OF 1(2), of as] 1(3) l by auto
    obtain d3 where "pad_sectors (1024 - length img div 512) d2 = Some (Done () d3)"
      "content d3 = content d2 @ replicate (512 * (1024 - length img div 512)) 0"
      using pad_sectors_appends [OF 2(2)] by blast
    then show ?thesis using \<open>Option.bind boot boot_sector = Some b\<close> Some b 1 2
      by (auto simp: hostBind_def fill_out_def fill_1024_def)
  qed
qed

text \<open>
  C19. The image on standard output, for any boot sector file, any list of files and skips, and
  any way the system splits the writes: the program exits with an error exactly when the boot
  sector cannot be opened or has more than 510 bytes, a skip goes backwards, or a file cannot
  be opened; otherwise the output is the boot sector padded to 512 bytes with the BIOS signature
  55 AA at its end, then every file filled to whole sectors with zeros and every skip as zeros,
  filled with zeros to at least 1024 sectors.
\<close>

theorem mkbootdisk_image:
  assumes "progress d" "maxoff d = 0" "disk_size d = 0" "pos d = 0"
  shows "case Option.bind boot boot_sector of
      None \<Rightarrow> \<exists>d'. mkbootdisk (Image boot as) d = Some (Exit 1 d')
    | Some b \<Rightarrow> length b = 512 \<and> b ! 510 = 0x55 \<and> b ! 511 = 0xAA \<and>
        (case image_layout b as of
           None \<Rightarrow> \<exists>d'. mkbootdisk (Image boot as) d = Some (Exit 1 d')
         | Some img \<Rightarrow> \<exists>d'. mkbootdisk (Image boot as) d = Some (Done () d') \<and> content d' = fill_1024 img)"
  using assms by (rule image_written)

text \<open>A boot sector of one byte and one file of one byte, written a byte at a time.\<close>

definition empty_disk :: disk where
  "empty_disk = \<lparr>bytes = \<lambda>n. 0, disk_size = 0, pos = 0, maxoff = 0, curoff = 0, writes = \<lambda>n. Wrote 1, calls = 0\<rparr>"

theorem mkbootdisk_image_witness:
  "\<exists>d. mkbootdisk (Image (Some [0xFA]) [File (Some [7])]) empty_disk = Some (Done () d) \<and>
     take 1 (drop 512 (content d)) = [7]"
proof -
  have s: "boot_sector [0xFA] = Some ([0xFA] @ replicate 509 0 @ [0x55, 0xAA])"
    by (simp add: boot_sector_def)
  have p: "progress empty_disk" by (auto simp: progress_def empty_disk_def)
  show ?thesis
    using mkbootdisk_image [OF p, of "Some [0xFA]" "[File (Some [7])]"]
    by (auto simp: s empty_disk_def fill_1024_def whole_sectors_def simp del: mkbootdisk.simps)
qed

end
