(* ===== verification/Boot_Image.thy ===== *)
theory Boot_Image
  imports Boot_Kernel Mkbootdisk_Props
begin

text \<open>
  From the build to the running kernel: the disk image that \<^verbatim>\<open>mkbootdisk bootsector kernel\<close> writes (the
  rule for \<^verbatim>\<open>weensyos.img\<close> in \<^verbatim>\<open>GNUmakefile\<close>), read back by the boot loader.
\<close>

section \<open>The kernel as a file\<close>

definition file_mem :: "u8 list \<Rightarrow> mem" where
  "file_mem f a = (if unat (a - ELFHDR) < length f then f ! unat (a - ELFHDR) else 0)"

definition file_header :: "u8 list \<Rightarrow> elf_header" where
  "file_header f = read_elf_header (file_mem f) ELFHDR"

definition file_programs :: "u8 list \<Rightarrow> elf_program list" where
  "file_programs f = program_headers (file_mem f) (unat (e_phnum (file_header f))) (ELFHDR + e_phoff (file_header f))"

text \<open>An executable that the loader can load, with its segments inside the file, of at most a terabyte.\<close>

definition kernel_file :: "u8 list \<Rightarrow> bool" where
  "kernel_file f \<longleftrightarrow>
     loadable (file_header f) (file_programs f) \<and> length f \<le> 2 ^ 40 \<and>
     (\<forall>p \<in> set (file_programs f). unat (p_offset p) + unat (p_filesz p) \<le> length f)"

definition file_loaded :: "u8 list \<Rightarrow> mem \<Rightarrow> elf_program \<Rightarrow> bool" where
  "file_loaded f m p \<longleftrightarrow>
     (\<forall>i < unat (p_filesz p). m (p_va p + of_nat i) = f ! (unat (p_offset p) + i)) \<and>
     (\<forall>i. unat (p_filesz p) \<le> i \<and> i < unat (p_memsz p) \<longrightarrow> m (p_va p + of_nat i) = 0)"

text \<open>The disk whose contents are a file.\<close>

definition file_disk :: "u8 list \<Rightarrow> ide_disk" where
  "file_disk c q i = (if 512 * unat q + i < length c then c ! (512 * unat q + i) else 0)"

section \<open>The kernel on the disk\<close>

lemma image_of_file:
  assumes "length b = 512" "i < 2 ^ 40"
  shows "image_byte (file_disk (b @ f @ replicate n 0)) i = (if i < length f then f ! i else 0)"
proof -
  have "unat (1 + of_nat (i div 512) :: u32) = 1 + i div 512"
    using assms(2) by (simp add: unat_word_ariths unat_of_nat)
  then have "512 * unat (1 + of_nat (i div 512) :: u32) + i mod 512 = 512 + i" by simp
  then show ?thesis using assms(1) by (simp add: image_byte_def disk_from_def file_disk_def nth_append)
qed

lemma program_headers_cong:
  assumes "header_page m m'" "unat ELFHDR \<le> unat ph" "unat ph + 56 * n \<le> unat ELFHDR + 4096"
  shows "program_headers m n ph = program_headers m' n ph"
  using assms(2,3)
proof (induction n arbitrary: ph)
  case (Suc n)
  have "unat (ph + sizeof_elf_program) = unat ph + 56"
    using Suc.prems(2) by (subst unat_add64) (simp_all add: sizeof_elf_program_def ELFHDR_def)
  then show ?case using Suc elf_program_cong [OF assms(1), of ph] by simp
qed simp

text \<open>The headers on a disk whose first page holds that of the file.\<close>

lemma headers_of_file:
  assumes "header_page (image_mem d) (file_mem f)" "unat (e_phoff (file_header f)) + 56 * unat (e_phnum (file_header f)) \<le> 4096"
  shows "image_header d = file_header f" "image_programs d = file_programs f"
proof -
  show h: "image_header d = file_header f"
    using elf_header_cong [OF assms(1)] by (simp add: image_header_def file_header_def)
  have "unat (ELFHDR + e_phoff (file_header f)) = unat ELFHDR + unat (e_phoff (file_header f))"
    using assms(2) by (subst unat_add64) (simp_all add: ELFHDR_def)
  then show "image_programs d = file_programs f"
    unfolding image_programs_def file_programs_def h
    using assms(2) by (intro program_headers_cong [OF assms(1)]) simp_all
qed

lemma image_page:
  assumes "length b = 512" shows "header_page (image_mem (file_disk (b @ f @ replicate n 0))) (file_mem f)"
proof -
  have "unat (a - ELFHDR) < 2 ^ 40" if "a \<in> region ELFHDR 4096" for a
    using that by (simp add: region_def)
  then show ?thesis by (simp add: header_page_def image_mem_def file_mem_def image_of_file [OF assms])
qed

lemma file_of_segment:
  assumes "length b = 512" "kernel_file f" "p \<in> set (file_programs f)"
    "segment_loaded (file_disk (b @ f @ replicate n 0)) m p"
  shows "file_loaded f m p"
proof -
  have "image_byte (file_disk (b @ f @ replicate n 0)) (unat (p_offset p) + i) = f ! (unat (p_offset p) + i)"
    if "i < unat (p_filesz p)" for i
  proof -
    have "unat (p_offset p) + i < length f" "length f \<le> 2 ^ 40" using that assms(2,3) by (auto simp: kernel_file_def)
    then show ?thesis by (subst image_of_file [OF assms(1)]) simp_all
  qed
  then show ?thesis using assms(4) by (simp add: segment_loaded_def file_loaded_def)
qed

lemma boot_sector_length: "boot_sector b = Some bs \<Longrightarrow> length bs = 512"
  by (auto simp: boot_sector_def split: if_splits)

text \<open>The image of one kernel file: the boot sector, the kernel, zeros.\<close>

lemma kernel_image:
  assumes "progress h" "maxoff h = 0" "disk_size h = 0" "pos h = 0" "length b \<le> 510"
  obtains h' bs n where "mkbootdisk (Image (Some b) [File (Some f)]) h = Some (Done () h')"
    "content h' = bs @ f @ replicate n 0" "length bs = 512"
proof -
  obtain bs where bs: "boot_sector b = Some bs" using assms(5) by (simp add: boot_sector_def)
  obtain h' where "mkbootdisk (Image (Some b) [File (Some f)]) h = Some (Done () h')"
    "content h' = fill_1024 (bs @ whole_sectors f)"
    using image_written [OF assms(1-4), of "Some b" "[File (Some f)]"] bs by auto
  moreover have "\<exists>n. fill_1024 (bs @ whole_sectors f) = bs @ f @ replicate n 0"
    by (auto simp: fill_1024_def whole_sectors_def replicate_add [symmetric])
  ultimately show thesis using that boot_sector_length [OF bs] by auto
qed

section \<open>From the build to the jump\<close>


text \<open>The small image as a file, behind a boot sector of one byte.\<close>

definition small_file :: "u8 list" where "small_file = map (image_byte small_disk) [0..<4098]"

lemma length_small_file: "length small_file = 4098"
  by (simp only: small_file_def length_map length_upt)

lemma nth_small_file: "i < 4098 \<Longrightarrow> small_file ! i = image_byte small_disk i"
  by (simp only: small_file_def nth_map_upt diff_zero add_0)

lemma small_file_headers: "file_header small_file = image_header small_disk" "file_programs small_file = image_programs small_disk"
proof -
  have "unat (a - ELFHDR) < 4098" if "a \<in> region ELFHDR 4096" for a
    using that by (simp add: region_def)
  then have p: "header_page (image_mem small_disk) (file_mem small_file)"
    by (simp add: header_page_def image_mem_def file_mem_def length_small_file nth_small_file)
  have h: "file_header small_file = image_header small_disk"
    using elf_header_cong [OF p] by (simp add: image_header_def file_header_def)
  show "file_header small_file = image_header small_disk" "file_programs small_file = image_programs small_disk"
    using headers_of_file [OF p] by (simp_all add: h small_header)
qed

lemma small_kernel_file: "kernel_file small_file"
  using small_bootable by (simp add: kernel_file_def small_file_headers) (simp add: small_programs length_small_file)

lemma small_file_serves:
  assumes "length bs = 512"
  shows "serves (file_disk (bs @ small_file @ replicate n 0)) (boot_plan (file_disk (bs @ small_file @ replicate n 0))) small_machine"
proof -
  let ?d = "file_disk (bs @ small_file @ replicate n 0)"
  have "image_programs ?d = image_programs small_disk"
    using headers_of_file [OF image_page [OF assms]] by (simp add: small_file_headers small_header)
  then have plan: "boot_plan ?d = boot_plan small_disk" by (simp add: boot_plan_def)
  have "image_byte ?d i = image_byte small_disk i" if i: "i < 512 * 9" for i
  proof (cases "i < 4098")
    case True
    then show ?thesis by (subst image_of_file [OF assms]) (simp_all add: length_small_file nth_small_file)
  next
    case False
    then obtain j where j: "i = j + 8 * 512" "2 \<le> j" "j < 512"
      using i that [of "i - 8 * 512"] by simp
    then have "i div 512 = 8" "i mod 512 = j" by (simp_all only: div_mult_self1 mod_mult_self1) simp_all
    then have "i div 512 = 8" "2 \<le> i mod 512" using j(2) by simp_all
    then have "image_byte small_disk i = 0" by (simp add: image_byte_def disk_from_def small_disk_def)
    then show ?thesis using False i by (subst image_of_file [OF assms]) (simp_all add: length_small_file nth_small_file)
  qed
  then show ?thesis
    using small_serves unfolding plan unfolding small_plan serves_run_iff by (simp add: image_byte_def)
qed


end
