(* ===== verification/Keys.thy ===== *)
theory Keys
  imports Keyboard
begin

text \<open>The codes that \<^verbatim>\<open>keyboard_readc\<close> can return, and the table accesses on the way to them.\<close>

section \<open>The tables\<close>

text \<open>The entries of \<^verbatim>\<open>keymap\<close>: ASCII, an index of \<^verbatim>\<open>complex_keymap\<close>, a cursor key, or a modifier.\<close>

definition key_code :: "nat \<Rightarrow> bool" where
  "key_code ch \<longleftrightarrow> ch < 0x80 \<or> CKEY 0 \<le> ch \<and> ch \<le> CKEY 21 \<or> 0xC0 \<le> ch \<and> ch \<le> 0xC9 \<or> 0xFA \<le> ch \<and> ch \<le> 0xFF"

lemma keymap_entries: "length keymap = 256" "list_all key_code keymap"
  by code_simp+

lemma complex_keymap_entries:
  "length complex_keymap = 22" "list_all (\<lambda>r. length r = 4 \<and> list_all (\<lambda>ch. ch < 0x80) r) complex_keymap"
  by code_simp+

lemma unat_u8_less: "unat (d :: u8) < 256"
  using unsigned_less [where 'a = nat and w = d] by simp

lemma keymap_code: "key_code (keymap ! unat (d :: u8))"
  using keymap_entries unat_u8_less [of d] by (simp add: list_all_length)

lemma complex_code: "i < 22 \<Longrightarrow> j < 4 \<Longrightarrow> complex_keymap ! i ! j < 0x80"
  using complex_keymap_entries by (simp add: list_all_length)

lemma low_two_bits: "unat (mods AND 3 :: u8) < 4"
proof -
  have "mods AND 3 = take_bit 2 mods" by (simp add: take_bit_eq_mask mask_eq_exp_minus_1)
  then have "mods AND 3 < 4" by (simp add: take_bit_eq_mod word_less_nat_alt unat_mod)
  then show ?thesis by (simp add: word_less_nat_alt)
qed

definition char_or_cursor :: "int \<Rightarrow> bool" where
  "char_or_cursor c \<longleftrightarrow> 0 \<le> c \<and> c < 0x80 \<or> 0xC0 \<le> c \<and> c \<le> 0xC9"

lemma key_press_code: "char_or_cursor (fst (key_press data escape mods))"
proof -
  let ?ch = "keymap ! unat (data OR escape)"
  have k: "key_code ?ch" by (rule keymap_code)
  have i: "complex_keymap ! (?ch - CKEY 0) ! unat (mods AND 3) < 0x80" if "CKEY 0 \<le> ?ch" "?ch \<le> CKEY 21"
    using that by (intro complex_code low_two_bits) (simp add: CKEY_def)
  have z: "key CHR ''a'' = 97" "key CHR ''z'' = 122" by (simp_all add: key_def)
  show ?thesis using k i
    by (auto simp: key_press_def Let_def key_code_def char_or_cursor_def z KEY_CAPSLOCK_def KEY_SHIFT_def CKEY_def)
qed

section \<open>Reading\<close>

text \<open>
  C37. \<^verbatim>\<open>keyboard_readc\<close>, for every state of the controller and of the modifiers: \<open>- 1\<close> when no byte
  waits, and otherwise an ASCII code or the code of a cursor key, never a modifier or an index of
  \<^verbatim>\<open>complex_keymap\<close>; and every scan code and every index it computes lies inside its table.
\<close>

theorem keyboard_readc_codes:
  "(if ucast (fst (inb KEYBOARD_STATUSREG s)) AND KEYBOARD_STATUS_READY = 0 then fst (keyboard_readc s) = - 1
    else char_or_cursor (fst (keyboard_readc s))) \<and>
   unat (data OR escape :: u8) < length keymap \<and>
   (\<lambda>ch. ch - CKEY 0) ` (set keymap \<inter> {CKEY 0..CKEY 21}) \<subseteq> {..<length complex_keymap} \<and>
   list_all (\<lambda>r. unat (mods AND 3 :: u8) < length r) complex_keymap"
proof -
  have "if ucast (fst (inb KEYBOARD_STATUSREG s)) AND KEYBOARD_STATUS_READY = 0 then fst (keyboard_readc s) = - 1
    else char_or_cursor (fst (keyboard_readc s))"
    using key_press_code by (auto simp: keyboard_readc_def Let_def case_prod_beta char_or_cursor_def)
  moreover have "list_all (\<lambda>r. unat (mods AND 3) < length r) complex_keymap"
    using complex_keymap_entries(2) low_two_bits [of mods] by (auto simp: list_all_iff)
  ultimately show ?thesis
    using keymap_entries(1) complex_keymap_entries(1) unat_u8_less
    by (auto simp: CKEY_def)
qed

end
