(* ===== verification/Kernel_Inv.thy ===== *)
theory Kernel_Inv
  imports Exceptions
begin

text \<open>
  The invariant of the kernel's process table, and that every kernel function keeps it. The
  rules in the collection \<open>stable\<close> follow the structure of a kernel function: a function is
  stable in a state when it ends in a stop or leaves the process table, the current process
  and the sizes of the fixed arrays alone.
\<close>

named_theorems stable "kernel functions that leave the process table alone"

section \<open>Functions that leave the process table alone\<close>

definition same_core :: "kstate \<Rightarrow> kstate \<Rightarrow> bool" where
  "same_core s t \<longleftrightarrow> processes t = processes s \<and> current t = current s \<and>
     length (pageinfo t) = length (pageinfo s) \<and> length (console t) = length (console s)"

lemma same_core_refl [simp]: "same_core s s"
  by (simp add: same_core_def)

lemma same_core_trans: "same_core s t \<Longrightarrow> same_core t u \<Longrightarrow> same_core s u"
  by (simp add: same_core_def)

lemma same_core_io: "io_only s t \<Longrightarrow> same_core s t"
  by (simp add: same_core_def io_only_fields)

definition stable_at :: "kstate \<Rightarrow> (stop \<times> kstate) + ('a \<times> kstate) \<Rightarrow> bool" where
  "stable_at s r \<longleftrightarrow> (\<forall>x t. r = Inr (x, t) \<longrightarrow> same_core s t)"

lemma stable_Inr: "same_core s t \<Longrightarrow> stable_at s (Inr (x, t))"
  by (simp add: stable_at_def)

lemma stable_Inl [stable]: "stable_at s (Inl e)"
  by (simp add: stable_at_def)

lemma stable_ret [stable]: "stable_at s (ret x s)"
  by (simp add: stable_at_def ret_def)

lemma stable_bind:
  assumes "stable_at s (f s)" "\<And>x t. f s = Inr (x, t) \<Longrightarrow> stable_at t (g x t)"
  shows "stable_at s (bindK f g s)"
proof (cases "f s")
  case (Inr r)
  then obtain x t where r: "f s = Inr (x, t)" by (cases r) auto
  then have "same_core s t" "stable_at t (g x t)" using assms by (auto simp: stable_at_def)
  then show ?thesis using r by (auto simp: stable_at_def intro: same_core_trans)
qed (simp add: bindK_def stable_Inl)

lemma stable_from: "same_core s t \<Longrightarrow> stable_at t r \<Longrightarrow> stable_at s r"
  by (auto simp: stable_at_def intro: same_core_trans)

lemma stable_panic [stable]: "stable_at s (kernel_panic f args t)"
  by (simp add: stable_at_def kernel_panic_def Let_def case_prod_beta split: option.split)

lemma stable_assert: "(c \<Longrightarrow> stable_at s (k t)) \<Longrightarrow> stable_at s (assertK c file line msg k t)"
  by (simp add: assertK_def assert_fail_def stable_panic)

lemma stable_poweroff [stable]: "stable_at s (poweroff t)"
  by (simp add: stable_at_def poweroff_def case_prod_beta Let_def)

lemma stable_seq: "(\<And>f t. f \<in> set fs \<Longrightarrow> stable_at t (f t)) \<Longrightarrow> stable_at s (seqK fs s)"
  by (induction fs arbitrary: s) (auto intro: stable_ret stable_bind)

section \<open>Printing\<close>

lemma console_vprintf_length: "length (snd (console_vprintf cpos colour format args con)) = length con"
proof -
  define c where "c = nat (if cpos < 0 \<or> cpos \<ge> int console_size then 0 else cpos)"
  have "c \<le> 2000" by (auto simp: c_def)
  then show ?thesis
    using console_fold_bounds [of "(con, c)" "printer_vprintf colour format args"]
    by (simp only: console_vprintf_def Let_def case_prod_beta fst_conv snd_conv c_def)
qed

text \<open>What does not matter to \<open>same_core\<close>, as rewrite rules on its second argument.\<close>

lemma same_core_printf [simp]:
  "same_core s (snd (kconsole_vprintf cpos colour format args t)) \<longleftrightarrow> same_core s t"
  using console_vprintf_length [of cpos colour format args "console t"]
  by (simp add: same_core_def kconsole_vprintf_def case_prod_beta)

lemma same_core_io_iff: "io_only t u \<Longrightarrow> same_core s u \<longleftrightarrow> same_core s t"
  by (simp add: same_core_def io_only_fields)

lemma same_core_log [simp]: "same_core s (log_printf format args t) \<longleftrightarrow> same_core s t"
  by (rule same_core_io_iff [OF io_only_log_printf])

lemma same_core_outb [simp]:
  "same_core s (outb port d t) \<longleftrightarrow> same_core s t" "same_core s (snd (inb port t)) \<longleftrightarrow> same_core s t"
  by (rule same_core_io_iff, simp)+

lemma same_core_fields [simp]:
  "same_core s (t\<lparr>pmem := m\<rparr>) \<longleftrightarrow> same_core s t" "same_core s (t\<lparr>cr3 := a\<rparr>) \<longleftrightarrow> same_core s t"
  "same_core s (t\<lparr>console := (console t)[i := c]\<rparr>) \<longleftrightarrow> same_core s t"
  "same_core s (t\<lparr>last_ticks := k\<rparr>) \<longleftrightarrow> same_core s t" "same_core s (t\<lparr>showing := z\<rparr>) \<longleftrightarrow> same_core s t"
  "same_core s (t\<lparr>modifiers := b\<rparr>) \<longleftrightarrow> same_core s t" "same_core s (t\<lparr>last_escape := b\<rparr>) \<longleftrightarrow> same_core s t"
  "same_core s (t\<lparr>ticks := k\<rparr>) \<longleftrightarrow> same_core s t" "same_core s (t\<lparr>disp_global := b\<rparr>) \<longleftrightarrow> same_core s t"
  by (simp_all add: same_core_def)

section \<open>Page tables\<close>

lemma stable_l4 [stable]: "stable_at s (l4_levels is pt va perm s)"
proof (induction "is" arbitrary: pt s)
  case (Cons i "is")
  show ?case
    by (auto simp: Let_def intro!: stable_Inr stable_assert Cons)
qed (simp add: stable_Inr)

lemma stable_lookup_l4 [stable]: "stable_at s (lookup_l4pagetable pt va perm s)"
  by (simp only: lookup_l4pagetable_def stable_l4)

lemma stable_set_pte [stable]: "stable_at s (set_pte l4 va e s)"
  by (simp add: set_pte_def stable_Inr)

lemma stable_map_pages [stable]: "stable_at s (map_pages n pt va pa perm li l4 s)"
proof (induction n arbitrary: va pa li l4 s)
  case (Suc n)
  show ?case
    unfolding map_pages.simps Let_def
    by (rule stable_bind)
      (simp_all add: stable_lookup_l4 stable_ret stable_bind stable_set_pte Suc stable_Inr)
qed (simp add: stable_ret)

lemma stable_vmap [stable]: "stable_at s (virtual_memory_map pt va pa sz perm s)"
  unfolding virtual_memory_map_def by (intro stable_assert stable_map_pages)

lemma stable_set_pagetable [stable]: "stable_at s (set_pagetable pt s)"
  unfolding set_pagetable_def Let_def
  by (intro stable_assert stable_Inr) (simp add: lcr3_def)

section \<open>Checks and pictures\<close>

lemma stable_kernel_page [stable]: "stable_at s (check_kernel_page pt va s)"
proof -
  let ?t = "if va_pa (virtual_memory_lookup (pmem s) pt va) \<noteq> va
    then snd (kconsole_vprintf (CPOS 22 0) 0xC000 (''%p vs %p'' @ newline)
      [Num va, Num (va_pa (virtual_memory_lookup (pmem s) pt va))] s) else s"
  have "same_core s ?t" by simp
  then show ?thesis unfolding check_kernel_page_def Let_def
    by (rule stable_from) (intro stable_assert stable_ret)
qed

lemma stable_kernel_pages [stable]: "stable_at s (check_kernel_pages pt kend a s)"
proof (induction pt kend a arbitrary: s rule: check_kernel_pages.induct)
  case (1 pt kend a)
  show ?case
    unfolding check_kernel_pages.simps [of pt kend a]
    using 1 by (auto intro!: stable_bind stable_kernel_page stable_ret)
qed

lemma stable_mappings [stable]: "stable_at s (check_page_table_mappings pt s)"
  unfolding check_page_table_mappings_def Let_def
  by (intro stable_assert stable_bind stable_kernel_pages stable_ret)

lemma stable_page_owned: "(\<And>t. stable_at t (k t)) \<Longrightarrow> stable_at s (page_owned pt own count k s)"
  unfolding page_owned_def Let_def by (intro stable_assert)

lemma stable_ownership_level [stable]: "stable_at s (check_page_table_ownership_level levels pt own count s)"
proof (induction levels arbitrary: pt own count s)
  case 0
  show ?case unfolding check_page_table_ownership_level.simps by (intro stable_page_owned stable_ret)
next
  case (Suc levels)
  show ?case
    unfolding check_page_table_ownership_level.simps
    by (intro stable_page_owned stable_seq) (auto simp: Let_def stable_Inr Suc)
qed

lemma stable_ownership [stable]: "stable_at s (check_page_table_ownership pt pid s)"
  by (simp add: check_page_table_ownership_def stable_ownership_level)

lemma stable_check [stable]: "stable_at s (check_virtual_memory s)"
proof -
  have "stable_at t (check_process pid t)" for pid t
    by (auto simp: check_process_def Let_def stable_Inr intro!: stable_bind stable_mappings stable_ownership)
  moreover have "stable_at t (check_page_owner pn t)" for pn t
    by (auto simp: check_page_owner_def Let_def stable_Inr intro!: stable_assert stable_ret)
  ultimately show ?thesis
    unfolding check_virtual_memory_def
    by (intro stable_assert stable_bind stable_mappings stable_ownership stable_seq) auto
qed

lemma same_core_put_cell [simp]: "same_core s (put_cell cpos c t) \<longleftrightarrow> same_core s t"
  by (simp add: put_cell_def)

lemma same_core_show_page [simp]: "same_core s (show_page pn t) \<longleftrightarrow> same_core s t"
  by (simp add: show_page_def Let_def)

lemma same_core_fold: "(\<And>x t. same_core s (f x t) \<longleftrightarrow> same_core s t) \<Longrightarrow> same_core s (fold f xs t) \<longleftrightarrow> same_core s t"
  by (induction xs arbitrary: t) simp_all

lemma same_core_memshow [simp]: "same_core s (memshow_physical t) \<longleftrightarrow> same_core s t"
  unfolding memshow_physical_def by (subst same_core_fold) simp_all

lemma stable_memshow_virtual [stable]: "stable_at s (memshow_virtual pt name s)"
proof -
  have "stable_at t (show_virtual_page pt i t)" for i t
    unfolding show_virtual_page_def Let_def by (auto intro!: stable_assert stable_Inr)
  then show ?thesis
    unfolding memshow_virtual_def
    by (intro stable_assert stable_from [OF _ stable_seq]) auto
qed

lemma stable_animate [stable]: "stable_at s (memshow_virtual_animate s)"
proof -
  define u where "u = (if last_ticks s = 0 \<or> ticks s - last_ticks s \<ge> word_of_int (HZ div 2)
    then s\<lparr>last_ticks := ticks s, showing := showing s + 1\<rparr> else s)"
  define v where "v = u\<lparr>showing := next_showing (processes u) (showing u) mod int NPROC\<rparr>"
  have "same_core s u" by (simp add: u_def)
  then have v: "same_core s v" by (simp add: v_def)
  have "stable_at v (if b then memshow_virtual pt name v else Inr ((), v))" for b pt name
    by (simp add: stable_memshow_virtual stable_Inr)
  then show ?thesis
    unfolding memshow_virtual_animate_def Let_def u_def [symmetric] v_def [symmetric]
    by (rule stable_from [OF v])
qed

section \<open>The keyboard\<close>

lemma same_core_readc [simp]: "same_core s (snd (keyboard_readc t)) \<longleftrightarrow> same_core s t"
  by (auto simp: keyboard_readc_def Let_def case_prod_beta)

lemma stable_keyboard [stable]: "stable_at s (check_keyboard s)"
proof (cases "keyboard_readc s")
  case (Pair c t)
  then have "same_core s t" using same_core_readc [of s s] by simp
  then show ?thesis using Pair by (simp add: check_keyboard_def soft_reboot_def Let_def stable stable_Inr)
qed

lemma same_core_cursor [simp]: "same_core s (console_show_cursor cpos t) \<longleftrightarrow> same_core s t"
  by (simp add: console_show_cursor_def Let_def)

section \<open>The invariant\<close>

text \<open>
  An entry of the process table: its pid is its index, its break has not left the heap (it is
  where the loader put it, or inside \<^verbatim>\<open>sbrk\<close>'s bounds), and process 0 is never used.
\<close>

definition break_inv :: "proc \<Rightarrow> bool" where
  "break_inv p \<longleftrightarrow> original_break p \<le> program_break p \<and>
     (program_break p = original_break p \<or> unat (program_break p) < break_limit)"

definition proc_ok :: "nat \<Rightarrow> proc \<Rightarrow> bool" where
  "proc_ok i p \<longleftrightarrow> p_pid p = int i \<and> break_inv p \<and> (i = 0 \<longrightarrow> p_state p = P_FREE)"

definition kernel_wf :: "kstate \<Rightarrow> bool" where
  "kernel_wf s \<longleftrightarrow> length (processes s) = NPROC \<and> length (pageinfo s) = NPAGES \<and>
     length (console s) = console_size \<and> current s < NPROC \<and> (\<forall>i < NPROC. proc_ok i (processes s ! i))"

lemma kernel_wf_core: "same_core s t \<Longrightarrow> kernel_wf s \<Longrightarrow> kernel_wf t"
  by (simp add: same_core_def kernel_wf_def)

text \<open>An outcome is well formed when the state it returns is, with the same current process.\<close>

definition wf_from :: "kstate \<Rightarrow> (stop \<times> kstate) + ('a \<times> kstate) \<Rightarrow> bool" where
  "wf_from s r \<longleftrightarrow> (\<forall>x t. r = Inr (x, t) \<longrightarrow> kernel_wf t \<and> current t = current s)"

lemma wf_stable: "stable_at s r \<Longrightarrow> kernel_wf s \<Longrightarrow> wf_from s r"
  by (auto simp: wf_from_def stable_at_def same_core_def intro: kernel_wf_core)

lemma wf_Inr [simp]: "wf_from s (Inr (x, t)) \<longleftrightarrow> kernel_wf t \<and> current t = current s"
  by (simp add: wf_from_def)

lemma wf_Inl [simp]: "wf_from s (Inl e)"
  by (simp add: wf_from_def)

lemma wf_ret [simp]: "wf_from s (ret x t) \<longleftrightarrow> kernel_wf t \<and> current t = current s"
  by (simp add: ret_def)

lemma wf_bind:
  assumes "wf_from s (f t)" "\<And>x u. f t = Inr (x, u) \<Longrightarrow> kernel_wf u \<Longrightarrow> current u = current s \<Longrightarrow> wf_from s (g x u)"
  shows "wf_from s (bindK f g t)"
proof (cases "f t")
  case (Inr r)
  then obtain x u where "f t = Inr (x, u)" by (cases r) auto
  with assms show ?thesis by (auto simp: wf_from_def)
qed (simp add: bindK_def)

lemma wf_from_current: "current t = current s \<Longrightarrow> wf_from t r \<Longrightarrow> wf_from s r"
  by (simp add: wf_from_def)

lemma wf_panic [simp]: "wf_from s (kernel_panic f args t)"
  by (simp add: wf_from_def kernel_panic_def Let_def case_prod_beta split: option.split)

lemma wf_assert: "(c \<Longrightarrow> wf_from s (k t)) \<Longrightarrow> wf_from s (assertK c file line msg k t)"
  by (simp add: assertK_def assert_fail_def)

lemma wf_stable_bind:
  assumes "kernel_wf t" "current t = current s" "stable_at t (f t)"
    and "\<And>x u. f t = Inr (x, u) \<Longrightarrow> same_core t u \<Longrightarrow> kernel_wf u \<Longrightarrow> current u = current s \<Longrightarrow> wf_from s (g x u)"
  shows "wf_from s (bindK f g t)"
proof (rule wf_bind)
  show "wf_from s (f t)" by (rule wf_from_current [OF assms(2) wf_stable [OF assms(3,1)]])
next
  fix x u assume f: "f t = Inr (x, u)" "kernel_wf u" "current u = current s"
  then have "same_core t u" using assms(3) by (simp add: stable_at_def)
  with f show "wf_from s (g x u)" using assms(4) by blast
qed

lemma wf_upd_proc:
  assumes "kernel_wf s" "i < NPROC \<Longrightarrow> proc_ok i (processes s ! i) \<Longrightarrow> proc_ok i (f (processes s ! i))"
  shows "kernel_wf (upd_proc i f s)"
proof (cases "i < NPROC")
  case True
  then show ?thesis using assms by (auto simp: kernel_wf_def upd_proc_def nth_list_update)
next
  case False
  then show ?thesis using assms(1) by (simp add: kernel_wf_def upd_proc_def)
qed

lemma wf_upd_page: "kernel_wf s \<Longrightarrow> kernel_wf (upd_page n f s)"
  by (simp add: kernel_wf_def upd_page_def)

lemma wf_set_rax: "kernel_wf s \<Longrightarrow> kernel_wf (set_rax v s)"
  unfolding set_rax_def by (rule wf_upd_proc) (simp_all add: proc_ok_def break_inv_def)

section \<open>System calls keep it\<close>

lemma current_upd [simp]: "current (set_rax v s) = current s" "current (set_cur_state st s) = current s"
  by (simp_all add: set_rax_def set_cur_state_def)

lemma wf_release: "kernel_wf t \<Longrightarrow> current t = current s \<Longrightarrow> wf_from s (release_pages n p a t)"
proof (induction n arbitrary: a t)
  case (Suc n)
  have IH: "wf_from s (release_pages n p b u)" if "kernel_wf u" "current u = current s" for b u
    using Suc.IH that .
  let ?u = "upd_page (nat (va_pn (virtual_memory_lookup (pmem t) (p_pagetable (processes t ! p)) a)))
    (\<lambda>pi. pi\<lparr>owner := PO_FREE, refcount := 0\<rparr>) t"
  have u: "kernel_wf ?u" "current ?u = current s" using Suc.prems by (simp_all add: wf_upd_page)
  have "wf_from s (bindK (virtual_memory_map pt a 0 PAGESIZE 0) (\<lambda>_. release_pages n p (a + PAGESIZE)) ?u)" for pt
    by (rule wf_stable_bind) (simp_all only: u stable_vmap IH)
  then show ?case
    using IH Suc.prems by (simp add: Let_def)
qed simp

lemma wf_sbrk:
  assumes "kernel_wf s" shows "wf_from s (sbrk p d s)"
proof -
  let ?nb = "program_break (processes s ! p) + d"
  let ?u = "upd_proc p (\<lambda>pr. pr\<lparr>program_break := ?nb\<rparr>) s"
  have u: "kernel_wf ?u" if "original_break (processes s ! p) \<le> ?nb" "unat ?nb < break_limit"
    using assms by (rule wf_upd_proc) (simp add: proc_ok_def break_inv_def that)
  show ?thesis
  proof (cases "original_break (processes s ! p) \<le> ?nb \<and> unat ?nb < break_limit")
    case True
    then have w: "kernel_wf ?u" using u by simp
    have "wf_from s (bindK (release_pages n p a) (\<lambda>_. ret (0 :: int)) ?u)" for n a
      by (rule wf_bind) (simp_all add: w wf_release)
    then show ?thesis
      using True w assms by (simp add: sbrk_def Let_def limit_word not_less not_le)
  next
    case False
    then show ?thesis using assms by (auto simp: sbrk_def Let_def limit_word not_le)
  qed
qed

lemma wf_brk:
  assumes "kernel_wf s"
  shows "wf_from s (sys_brk s)" "wf_from s (sys_sbrk s)"
proof -
  have "wf_from s (bindK (sbrk p d) (\<lambda>r t. Inr ((), set_rax (v r) t)) s)" for p d v
    by (rule wf_bind) (simp_all add: wf_sbrk assms wf_set_rax)
  then show "wf_from s (sys_brk s)" "wf_from s (sys_sbrk s)"
    unfolding sys_brk_def sys_sbrk_def Let_def by auto
qed

text \<open>
  What the properties need of \<^verbatim>\<open>k-vm.o\<close>: each of its functions keeps the process table well
  formed and does not switch the current process.
\<close>

definition kvm_ok :: "kvm \<Rightarrow> bool" where
  "kvm_ok k \<longleftrightarrow>
     (\<forall>s. kernel_wf s \<longrightarrow>
        (\<forall>pid. wf_from s (palloc k pid s)) \<and> (\<forall>pid. wf_from s (process_free k pid s)) \<and>
        (\<forall>pid. wf_from s (process_config_tables k pid s)) \<and>
        (\<forall>p n r. process_load k p n s = Some r \<longrightarrow> wf_from s r) \<and>
        (\<forall>p. wf_from s (process_setup_stack k p s)) \<and> (\<forall>p. wf_from s (process_fork k p s)) \<and>
        (\<forall>p a. wf_from s (process_page_alloc k p a s)))"

lemma kvm_okD:
  assumes "kvm_ok k" "kernel_wf s"
  shows "wf_from s (palloc k pid s)" "wf_from s (process_free k pid s)"
    "wf_from s (process_config_tables k pid s)" "process_load k p n s = Some r \<Longrightarrow> wf_from s r"
    "wf_from s (process_setup_stack k p s)" "wf_from s (process_fork k p s)"
    "wf_from s (process_page_alloc k p a s)"
  using assms by (simp_all add: kvm_ok_def)

lemma wf_broken:
  assumes "kvm_ok k" "kernel_wf s" "current s \<noteq> 0"
  shows "wf_from s (broken k s)"
proof -
  have "kernel_wf (set_cur_state P_BROKEN s)"
    unfolding set_cur_state_def using assms(2,3) by (intro wf_upd_proc) (simp_all add: proc_ok_def break_inv_def)
  from wf_from_current [OF _ kvm_okD(2) [OF assms(1) this], of s] show ?thesis
    by (simp add: broken_def syscall_exit_def)
qed

lemma wf_page_fault:
  assumes k: "kvm_ok k" and s: "kernel_wf s" "current s \<noteq> 0"
  shows "wf_from s (page_fault k reg s)"
proof -
  have b: "wf_from s (broken k t)" if "kernel_wf t" "current t = current s" for t
    using wf_from_current [OF that(2) wf_broken [OF k that(1)]] that(2) s(2) by simp
  have m: "wf_from s (map_heap_page k a s)" for a
    unfolding map_heap_page_def
  proof (rule wf_bind)
    show "wf_from s (palloc k (p_pid (cur_proc s)) s)" by (rule kvm_okD(1) [OF k s(1)])
  next
    fix pa t assume t: "kernel_wf t" "current t = current s"
    have "wf_from s (bindK (virtual_memory_map pt a pa PAGESIZE perm)
        (\<lambda>r u. if r \<ge> 0 then Inr ((), u) else broken k u) t)" for pt perm
      by (rule wf_stable_bind) (simp_all add: t stable_vmap b)
    then show "wf_from s (if pa = NULL then broken k t
       else bindK (virtual_memory_map (p_pagetable (cur_proc t)) a pa PAGESIZE (PTE_P OR PTE_W OR PTE_U))
              (\<lambda>r u. if r \<ge> 0 then Inr ((), u) else broken k u) t)"
      using b [OF t] by simp
  qed
  have p: "kernel_wf (snd (kconsole_vprintf c col f args s))" "current (snd (kconsole_vprintf c col f args s)) = current s"
    for c col f args
    using same_core_printf [of s c col f args s] s(1) by (auto simp: same_core_def intro: kernel_wf_core)
  show ?thesis
    unfolding page_fault_def Let_def using m b [OF p] by simp
qed

lemma kload8_same: "kload8 p s = Inr (x, t) \<Longrightarrow> t = s"
  by (auto simp: kload8_def split: option.splits)

lemma wf_load_bytes: "kernel_wf s \<Longrightarrow> wf_from s (kload_bytes n p s)"
proof (induction n arbitrary: p)
  case (Suc n)
  show ?case
    unfolding kload_bytes.simps
  proof (rule wf_bind)
    show "wf_from s (kload8 p s)" using Suc.prems kload8_same [of p s] by (auto simp: wf_from_def)
  next
    fix b t assume "kload8 p s = Inr (b, t)"
    then have "t = s" by (rule kload8_same)
    then show "wf_from s (bindK (kload_bytes n (p + 1)) (\<lambda>bs. ret (b # bs)) t)"
      using Suc by (intro wf_bind) simp_all
  qed
qed simp

lemma wf_mapping: "kernel_wf s \<Longrightarrow> kernel_wf (syscall_mapping i s) \<and> current (syscall_mapping i s) = current s"
  by (simp add: syscall_mapping_def Let_def kernel_wf_def)

lemma wf_mem_tog: "kernel_wf s \<Longrightarrow> kernel_wf (syscall_mem_tog i s) \<and> current (syscall_mem_tog i s) = current s"
proof -
  assume s: "kernel_wf s"
  then have "kernel_wf (upd_proc i (\<lambda>pr. pr\<lparr>display_status := lnot8 (display_status pr)\<rparr>) s)"
    by (rule wf_upd_proc) (simp add: proc_ok_def break_inv_def)
  moreover have "kernel_wf (s\<lparr>disp_global := b\<rparr>)" for b using s by (simp add: kernel_wf_def)
  ultimately show ?thesis using s by (simp add: syscall_mem_tog_def Let_def)
qed

lemma wf_handle:
  assumes k: "kvm_ok k" and s: "kernel_wf s" "current s \<noteq> 0"
  shows "wf_from s (handle k reg s)"
proof -
  have "wf_from s (sys_panic s)"
  proof (cases "reg_rdi (p_registers (cur_proc s)) = NULL")
    case False
    then show ?thesis
      unfolding sys_panic_def Let_def if_not_P [OF False] by (intro wf_bind wf_load_bytes s wf_panic)
  qed (simp add: sys_panic_def)
  moreover have "kernel_wf (s\<lparr>ticks := ticks s + 1\<rparr>)" using s(1) by (simp add: kernel_wf_def)
  moreover have "wf_from s (unit_break f s)" if "wf_from s (f s)" for f
    unfolding unit_break_def using that by (rule wf_bind) simp
  moreover have "wf_from s (bindK (syscall_fork k) (\<lambda>r s. Inr (Break, set_rax (word_of_int r) s)) s)"
    by (rule wf_bind) (simp_all add: syscall_fork_def kvm_okD [OF k s(1)] wf_set_rax)
  moreover have "wf_from s (bindK (syscall_exit k) (\<lambda>_. ret Schedule) s)"
    by (rule wf_bind) (simp_all add: syscall_exit_def kvm_okD [OF k s(1)])
  moreover have "wf_from s (bindK (syscall_page_alloc k (reg_rdi reg)) (\<lambda>_. ret Break) s)"
    by (rule wf_bind) (simp_all add: syscall_page_alloc_def kvm_okD [OF k s(1)])
  moreover note wf_set_rax [OF s(1)] wf_brk [OF s(1)] wf_page_fault [OF k s]
    wf_mapping [OF s(1)] wf_mem_tog [OF s(1)]
  ultimately show ?thesis
    using s(1) unfolding handle_def Let_def by (simp add: sys_getpid_def default_exception_def)
qed

end
