(* ===== verification/Interfaces.thy ===== *)
theory Interfaces
  imports Main
begin

text \<open>
  The contracts that several components share: steps that keep an invariant (and leave a frame
  alone), and a client of operations that implement an abstract specification. Each is a locale;
  the components interpret them on their own definitions.
\<close>

section \<open>Steps that keep an invariant\<close>

locale preserved =
  fixes step :: "'s \<Rightarrow> 's \<Rightarrow> bool" and inv :: "'s \<Rightarrow> bool"
  assumes step_kept: "step s t \<Longrightarrow> inv s \<Longrightarrow> inv t"
begin

lemma steps_kept: "step\<^sup>*\<^sup>* s t \<Longrightarrow> inv s \<Longrightarrow> inv t"
  by (induction rule: rtranclp_induct) (auto intro: step_kept)

end

text \<open>A frame: a relation that every step respects, such as the part of the state it leaves alone.\<close>

locale framed = preserved step inv for step :: "'s \<Rightarrow> 's \<Rightarrow> bool" and inv :: "'s \<Rightarrow> bool" +
  fixes frame :: "'s \<Rightarrow> 's \<Rightarrow> bool"
  assumes frame_refl: "inv s \<Longrightarrow> frame s s"
    and frame_step: "step s t \<Longrightarrow> inv s \<Longrightarrow> frame s t"
    and frame_trans: "frame s t \<Longrightarrow> frame t u \<Longrightarrow> inv s \<Longrightarrow> inv t \<Longrightarrow> frame s u"
begin

lemma steps_framed: "step\<^sup>*\<^sup>* s t \<Longrightarrow> inv s \<Longrightarrow> frame s t"
proof (induction rule: rtranclp_induct)
  case (step t u)
  have "inv t" by (rule steps_kept [OF step.hyps(1) step.prems])
  then show ?case using frame_trans [OF step.IH [OF step.prems]] frame_step [OF step.hyps(2)] step.prems by blast
qed (rule frame_refl)

end

section \<open>Clients of operations that refine a specification\<close>

text \<open>A client chooses each operation from the results it has seen.\<close>

type_synonym ('r, 'op) chooser = "('r list \<Rightarrow> 'op) list"

primrec run_client :: "('op \<Rightarrow> 'c \<Rightarrow> ('r \<times> 'c) option) \<Rightarrow> ('r, 'op) chooser \<Rightarrow> 'r list \<Rightarrow> 'c \<Rightarrow> ('r list \<times> 'c) option" where
  "run_client exec [] rs s = Some (rs, s)"
| "run_client exec (f # fs) rs s =
     (case exec (f rs) s of None \<Rightarrow> None | Some (r, s') \<Rightarrow> run_client exec fs (rs @ [r]) s')"

primrec spec_client :: "('a \<Rightarrow> 'op \<Rightarrow> 'r \<Rightarrow> 'a \<Rightarrow> bool) \<Rightarrow> ('r, 'op) chooser \<Rightarrow> 'r list \<Rightarrow> 'a \<Rightarrow> 'r list \<Rightarrow> 'a \<Rightarrow> bool" where
  "spec_client spec [] rs L rs' L' \<longleftrightarrow> rs' = rs \<and> L' = L"
| "spec_client spec (f # fs) rs L rs' L' \<longleftrightarrow>
     (\<exists>r M. spec L (f rs) r M \<and> spec_client spec fs (rs @ [r]) M rs' L')"

text \<open>Every operation is allowed, whatever the results the specification permits.\<close>

primrec valid_client :: "('a \<Rightarrow> 'op \<Rightarrow> bool) \<Rightarrow> ('a \<Rightarrow> 'op \<Rightarrow> 'r \<Rightarrow> 'a \<Rightarrow> bool) \<Rightarrow> ('r, 'op) chooser \<Rightarrow> 'r list \<Rightarrow> 'a \<Rightarrow> bool" where
  "valid_client allowed spec [] rs L \<longleftrightarrow> True"
| "valid_client allowed spec (f # fs) rs L \<longleftrightarrow> allowed L (f rs) \<and>
     (\<forall>r M. spec L (f rs) r M \<longrightarrow> valid_client allowed spec fs (rs @ [r]) M)"

locale implements =
  fixes related :: "'a \<Rightarrow> 'c \<Rightarrow> bool"
    and allowed :: "'a \<Rightarrow> 'op \<Rightarrow> bool"
    and spec :: "'a \<Rightarrow> 'op \<Rightarrow> 'r \<Rightarrow> 'a \<Rightarrow> bool"
    and exec :: "'op \<Rightarrow> 'c \<Rightarrow> ('r \<times> 'c) option"
  assumes op_refines: "related L s \<Longrightarrow> allowed L op \<Longrightarrow>
    \<exists>r s' L'. exec op s = Some (r, s') \<and> spec L op r L' \<and> related L' s'"
begin

lemma client_refines:
  assumes "related L s" "valid_client allowed spec fs rs L"
  shows "\<exists>rs' s' L'. run_client exec fs rs s = Some (rs', s') \<and> spec_client spec fs rs L rs' L' \<and> related L' s'"
  using assms
proof (induction fs arbitrary: rs L s)
  case (Cons f fs)
  obtain r s' M where e: "exec (f rs) s = Some (r, s')" "spec L (f rs) r M" "related M s'"
    using op_refines [OF Cons.prems(1), of "f rs"] Cons.prems(2) by auto
  have "valid_client allowed spec fs (rs @ [r]) M" using Cons.prems(2) e(2) by simp
  from Cons.IH [OF e(3) this] obtain rs' t L' where
    "run_client exec fs (rs @ [r]) s' = Some (rs', t)" "spec_client spec fs (rs @ [r]) M rs' L'" "related L' t" by blast
  then show ?case using e by auto
qed auto

end

end
