(* ===== verification/Kernel_Steps.thy ===== *)
theory Kernel_Steps
  imports Kernel_Inv Interfaces
begin

text \<open>
  The running system as a state machine: a state is the machine in user mode, a step is a user
  instruction with an effect on memory or an exception handled by the kernel, and the first
  states are what \<^verbatim>\<open>kernel\<close> leaves. The invariant of \<open>Kernel_Inv\<close> holds in every reachable state.
\<close>

section \<open>Entering and leaving the kernel\<close>

lemma set_pagetable_Inr: "set_pagetable pt s = Inr (x, t) \<Longrightarrow> t = s\<lparr>cr3 := pt\<rparr>"
  by (simp add: set_pagetable_def Let_def assertK_def assert_fail_def kernel_panic_def case_prod_beta lcr3_def
      split: if_splits)

definition user_mode :: "kstate \<Rightarrow> bool" where
  "user_mode s \<longleftrightarrow> kernel_wf s \<and> current s \<noteq> 0 \<and> p_state (cur_proc s) = P_RUNNABLE \<and>
     cr3 s = p_pagetable (cur_proc s)"

lemma run_user_mode:
  assumes "kernel_wf s" "p < NPROC" "run p s = Inr (x, t)"
  shows "user_mode t \<and> current t = p"
proof -
  have st: "p_state (processes s ! p) = P_RUNNABLE"
    using assms(3) by (simp add: run_def assertK_def assert_fail_def kernel_panic_def case_prod_beta Let_def split: if_splits)
  moreover have "proc_ok p (processes s ! p)" using assms(1,2) by (simp add: kernel_wf_def)
  ultimately have "p \<noteq> 0" by (cases "p = 0") (simp_all add: proc_ok_def)
  define u where "u = snd (kconsole_vprintf (CPOS 24 79)
    (ucast (memstate_colors ! nat (p_pid (processes s ! p) - PO_KERNEL)))
    ''%d'' [Num (word_of_int (p_pid (processes s ! p)))] (s\<lparr>current := p\<rparr>))"
  have u: "same_core (s\<lparr>current := p\<rparr>) u" by (simp add: u_def)
  have "kernel_wf (s\<lparr>current := p\<rparr>)" using assms(1,2) by (simp add: kernel_wf_def)
  with u have w: "kernel_wf u" by (rule kernel_wf_core)
  have "t = u\<lparr>cr3 := p_pagetable (processes s ! p)\<rparr>"
    using assms(3) st by (intro set_pagetable_Inr [of _ _ x]) (simp add: run_def Let_def u_def)
  then show ?thesis
    using w u st \<open>p \<noteq> 0\<close> by (simp add: user_mode_def kernel_wf_def cur_proc_def same_core_def)
qed

lemma schedule_from_user_mode:
  assumes "schedule_from pid s = Some r"
  shows "kernel_wf s \<longrightarrow> (\<forall>x t. r = Inr (x, t) \<longrightarrow> user_mode t)"
proof (rule schedule_from.raw_induct [OF _ assms])
  fix sched pid s r
  assume IH: "\<And>pid s r. sched pid s = Some r \<Longrightarrow> kernel_wf s \<longrightarrow> (\<forall>x t. r = Inr (x, t) \<longrightarrow> user_mode t)"
    and body: "(if p_state (processes s ! nat ((pid + 1) mod int NPROC)) = P_RUNNABLE
      then Some (run (nat ((pid + 1) mod int NPROC)) s)
      else case check_keyboard s of
             Inl e \<Rightarrow> Some (Inl e)
           | Inr (c, s') \<Rightarrow> sched ((pid + 1) mod int NPROC) s') = Some r"
  let ?n = "nat ((pid + 1) mod int NPROC)"
  have n: "?n < NPROC" by (simp add: NPROC_def nat_less_iff)
  show "kernel_wf s \<longrightarrow> (\<forall>x t. r = Inr (x, t) \<longrightarrow> user_mode t)"
  proof (cases "p_state (processes s ! ?n) = P_RUNNABLE")
    case True
    then show ?thesis using body run_user_mode [OF _ n] by auto
  next
    case False
    show ?thesis
    proof (cases "check_keyboard s")
      case (Inr y)
      then obtain c t where t: "check_keyboard s = Inr (c, t)" by (cases y) auto
      then have "same_core s t" using stable_keyboard [of s] by (simp add: stable_at_def)
      then have "kernel_wf s \<longrightarrow> kernel_wf t" using kernel_wf_core by blast
      then show ?thesis using IH body False t by auto
    qed (use body False in auto)
  qed
qed

lemma schedule_user_mode:
  assumes "schedule s = Some (Inr (x, t))" "kernel_wf s"
  shows "user_mode t"
  using schedule_from_user_mode [OF assms(1) [unfolded schedule_def]] assms(2) by simp

lemma wf_enter:
  assumes "kernel_wf s"
  shows "wf_from s (enter_kernel reg s)"
proof -
  let ?u = "upd_proc (current s) (\<lambda>pr. pr\<lparr>p_registers := reg\<rparr>) s"
  have u: "kernel_wf ?u" "current ?u = current s"
    using assms by (auto intro!: wf_upd_proc simp: proc_ok_def break_inv_def)
  have m: "stable_at t (show_memory reg t)" for t
    unfolding show_memory_def
    by (auto intro!: stable_bind stable_check stable_Inr stable_from [OF _ stable_animate])
  show ?thesis
    unfolding enter_kernel_def Let_def
  proof (rule wf_stable_bind [of ?u])
    fix x t assume t: "kernel_wf t" "current t = current s"
    let ?c = "console_show_cursor (cursorpos t) t"
    have c: "same_core t ?c" by simp
    then have "kernel_wf ?c" "current ?c = current s"
      using kernel_wf_core [OF c t(1)] t(2) by (auto simp: same_core_def)
    then show "wf_from s (bindK (show_memory reg) (\<lambda>_ s. bindK check_keyboard (\<lambda>_. ret ()) s) ?c)"
      by (rule wf_stable_bind) (auto intro!: m wf_stable_bind [where f = check_keyboard] stable_keyboard)
  qed (use u in \<open>simp_all add: stable_set_pagetable\<close>)
qed

lemma resume_user_mode:
  assumes "resume f s = Some (Inr (x, t))" "kernel_wf s"
  shows "user_mode t"
  using assms run_user_mode [of s "current s" x t] schedule_user_mode [of s x t]
  by (auto simp: resume_def kernel_wf_def split: if_splits)

lemma exception_user_mode:
  assumes k: "kvm_ok k" and s: "kernel_wf s" "current s \<noteq> 0"
    and e: "exception k reg s = Some (Inr (x, t))"
  shows "user_mode t"
proof -
  have "wf_from s (bindK (enter_kernel reg) (\<lambda>_. handle k reg) s)"
  proof (rule wf_bind)
    show "wf_from s (enter_kernel reg s)" by (rule wf_enter [OF s(1)])
  next
    fix y u assume u: "kernel_wf u" "current u = current s"
    show "wf_from s (handle k reg u)"
      using wf_from_current [OF u(2) wf_handle [OF k u(1)]] s(2) u(2) by simp
  qed
  moreover obtain f u where u: "bindK (enter_kernel reg) (\<lambda>_. handle k reg) s = Inr (f, u)"
      "resume f u = Some (Inr (x, t))"
    using e by (auto simp: exception_def andThen_def split: sum.splits)
  ultimately have "kernel_wf u" by (simp add: wf_from_def)
  then show ?thesis using resume_user_mode [OF u(2)] by simp
qed

section \<open>The start of the kernel\<close>

text \<open>An outcome that may also be missing.\<close>

definition wf_run :: "kstate \<Rightarrow> 'a run \<Rightarrow> bool" where
  "wf_run s r \<longleftrightarrow> (\<forall>x t. r = Some (Inr (x, t)) \<longrightarrow> kernel_wf t \<and> current t = current s)"

lemma wf_run_Some [simp]: "wf_run s (Some r) \<longleftrightarrow> wf_from s r"
  by (simp add: wf_run_def wf_from_def)

lemma wf_run_None [simp]: "wf_run s None"
  by (simp add: wf_run_def)

lemma wf_andThen:
  assumes "wf_run s r" "\<And>x t. r = Some (Inr (x, t)) \<Longrightarrow> kernel_wf t \<Longrightarrow> current t = current s \<Longrightarrow> wf_run s (g x t)"
  shows "wf_run s (andThen r g)"
proof (cases r)
  case (Some y)
  show ?thesis
  proof (cases y)
    case (Inr z)
    then obtain x t where r: "r = Some (Inr (x, t))" using Some by (cases z) auto
    then have "wf_run s (g x t)" using assms by (simp add: wf_from_def)
    with r show ?thesis by simp
  qed (simp add: Some)
qed simp

lemma wf_process_setup:
  assumes k: "kvm_ok k" and s: "kernel_wf s" and pid: "0 < pid"
  shows "wf_run s (process_setup k pid n s)"
proof -
  let ?u = "upd_proc pid (process_init 0) s"
  have u: "kernel_wf ?u" "current ?u = current s"
    using s pid by (auto intro!: wf_upd_proc simp: proc_ok_def break_inv_def process_init_def Let_def)
  note D = kvm_okD [OF k]
  show ?thesis
    unfolding process_setup_def
  proof (rule wf_andThen, unfold wf_run_Some)
    show "wf_from s (process_config_tables k (int pid) ?u)"
      using wf_from_current [OF u(2) D(3) [OF u(1)]] .
  next
    fix r t assume t: "kernel_wf t" "current t = current s"
    show "wf_run s (andThen (Some (assertK (r = 0) kernel_c 119 ''process_config_tables(pid) == 0'' (ret ()) t)) (\<lambda>_ s.
       andThen (process_load k pid n s) (\<lambda>r s.
       andThen (Some (assertK (r \<ge> 0) kernel_c 122 ''process_load(&processes[pid], program_number) >= 0''
                      (process_setup_stack k pid) s)) (\<lambda>_ s.
       Some (Inr ((), upd_proc pid (\<lambda>pr. pr\<lparr>p_state := P_RUNNABLE\<rparr>) s))))))"
    proof (rule wf_andThen, unfold wf_run_Some)
      show "wf_from s (assertK (r = 0) kernel_c 119 ''process_config_tables(pid) == 0'' (ret ()) t)"
        using t by (intro wf_assert) simp
    next
      fix x v assume v: "kernel_wf v" "current v = current s"
      have load: "wf_run s (process_load k pid n v)"
        using D(4) [OF v(1)] wf_from_current [OF v(2)] by (cases "process_load k pid n v") auto
      have last: "wf_run s (Some (Inr ((), upd_proc pid (\<lambda>pr. pr\<lparr>p_state := P_RUNNABLE\<rparr>) w)))"
        if "kernel_wf w" "current w = current s" for w
        using that pid by (auto intro!: wf_upd_proc simp: proc_ok_def break_inv_def)
      have stack: "wf_from s (assertK c f l m (process_setup_stack k pid) w)"
        if "kernel_wf w" "current w = current s" for w c f l m
        using wf_from_current [OF that(2) D(5) [OF that(1)]] by (intro wf_assert)
      show "wf_run s (andThen (process_load k pid n v) (\<lambda>r s.
         andThen (Some (assertK (r \<ge> 0) kernel_c 122 ''process_load(&processes[pid], program_number) >= 0''
                        (process_setup_stack k pid) s)) (\<lambda>_ s.
         Some (Inr ((), upd_proc pid (\<lambda>pr. pr\<lparr>p_state := P_RUNNABLE\<rparr>) s)))))"
        by (rule wf_andThen [OF load], rule wf_andThen, unfold wf_run_Some, erule (1) stack,
            erule (1) last [unfolded wf_run_Some])
    qed
  qed
qed

text \<open>The fixed arrays have their sizes; the process table is not yet filled.\<close>

definition sized :: "kstate \<Rightarrow> bool" where
  "sized s \<longleftrightarrow> length (pageinfo s) = NPAGES \<and> length (console s) = console_size \<and> current s < NPROC"

lemma sized_core: "same_core s t \<Longrightarrow> sized s \<Longrightarrow> sized t"
  by (simp add: same_core_def sized_def)

lemma same_core_devices [simp]:
  "same_core s (segments_init t) \<longleftrightarrow> same_core s t"
  "same_core s (interrupt_init t) \<longleftrightarrow> same_core s t"
  "same_core s (timer_init rate t) \<longleftrightarrow> same_core s t"
proof -
  have f: "same_core s (t\<lparr>interrupts_enabled := b\<rparr>) \<longleftrightarrow> same_core s t" for b t by (simp add: same_core_def)
  have m: "same_core s (interrupt_mask t) \<longleftrightarrow> same_core s t" for t by (simp add: interrupt_mask_def Let_def)
  show "same_core s (segments_init t) \<longleftrightarrow> same_core s t"
    by (simp add: segments_init_def Let_def same_core_def lgdt_def ltr_def lidt_def lcr0_def)
  show "same_core s (interrupt_init t) \<longleftrightarrow> same_core s t" by (simp add: interrupt_init_def Let_def m f)
  show "same_core s (timer_init rate t) \<longleftrightarrow> same_core s t" by (simp add: timer_init_def Let_def m f)
qed

lemma same_core_upd_page [simp]: "same_core s (upd_page n f t) \<longleftrightarrow> same_core s t"
  by (simp add: same_core_def upd_page_def)

lemma same_core_pageinfo_init [simp]: "same_core s (pageinfo_init t) \<longleftrightarrow> same_core s t"
  unfolding pageinfo_init_def Let_def by (rule same_core_fold) (rule same_core_upd_page)

lemma stable_hardware_init: "stable_at s (hardware_init s)"
proof -
  have c: "stable_at t (check_identity n a t)" for n a t
    by (induction n arbitrary: a t) (auto simp: Let_def stable_Inr intro!: stable_assert)
  have "same_core s (t\<lparr>kernel_pagetable := k\<rparr>) \<longleftrightarrow> same_core s t" for t k by (simp add: same_core_def)
  then show ?thesis
    unfolding hardware_init_def virtual_memory_init_def Let_def
    by (intro stable_from [OF _ stable_bind] stable_vmap stable_bind c stable_set_pagetable) simp
qed

lemma wf_init_processes:
  assumes "sized s" shows "kernel_wf (init_processes s)"
  using assms by (simp add: sized_def init_processes_def kernel_wf_def proc_ok_def break_inv_def zero_proc_def)

lemma wf_start_programs:
  assumes "kvm_ok k" "kernel_wf s"
  shows "wf_run s (start_programs k command s)"
proof -
  have 1: "wf_run s (process_setup k 1 n s)" for n by (rule wf_process_setup [OF assms]) simp
  have "wf_run s (andThen (process_setup k 1 3 s) (\<lambda>_. process_setup k 2 3))"
  proof (rule wf_andThen [OF 1])
    fix t assume t: "kernel_wf t" "current t = current s"
    have "wf_run t (process_setup k 2 3 t)" by (rule wf_process_setup [OF assms(1) t(1)]) simp
    then show "wf_run s (process_setup k 2 3 t)" using t(2) by (simp add: wf_run_def)
  qed
  then show ?thesis using 1 by (simp add: start_programs_def)
qed

lemma kernel_user_mode:
  assumes k: "kvm_ok k" and s: "sized s" and r: "kernel k command s = Some (Inr (x, t))"
  shows "user_mode t"
proof -
  obtain y u where u: "hardware_init s = Inr (y, u)"
    using r by (cases "hardware_init s") (auto simp: kernel_def)
  define v where "v = (pageinfo_init u)\<lparr>console := fst (console_clear (console (pageinfo_init u))),
    cursorpos := snd (console_clear (console (pageinfo_init u)))\<rparr>"
  have "sized u" using stable_hardware_init [of s] u sized_core [OF _ s] by (auto simp: stable_at_def)
  then have "sized (pageinfo_init u)" using sized_core [of u "pageinfo_init u"] by simp
  then have "sized v" by (simp add: v_def sized_def console_clear_def)
  then have "sized (timer_init HZ v)" using sized_core [of v "timer_init HZ v"] by simp
  then have w: "kernel_wf (init_processes (timer_init HZ v))" by (rule wf_init_processes)
  obtain z q where q: "start_programs k command (init_processes (timer_init HZ v)) = Some (Inr (z, q))"
      "run 1 q = Inr (x, t)"
    using r u by (auto simp: kernel_def andThen_def v_def case_prod_beta Let_def split: option.splits sum.splits)
  then have "kernel_wf q" using wf_start_programs [OF k w] by (auto simp: wf_run_def)
  then show ?thesis using run_user_mode [of q 1] q(2) by (simp add: NPROC_def)
qed

section \<open>Steps\<close>

text \<open>
  What a process does between two exceptions: it writes bytes its page table gives it for
  writing, and it prints on the console it shares with the kernel.
\<close>

inductive user_step :: "kstate \<Rightarrow> kstate \<Rightarrow> bool" where
  store: "user_step s (s\<lparr>pmem := (pmem s)(pa := b)\<rparr>)"
    if "hw_walk (pmem s) (cr3 s) va = Some (pa, flags)"
    and "flags AND (PTE_W OR PTE_U) = PTE_W OR PTE_U"
| screen: "user_step s (s\<lparr>console := con, cursorpos := c\<rparr>)"
    if "length con = length (console s)"

inductive_cases user_stepE: "user_step s t"

text \<open>An exception comes with a register frame and, for a page fault, an address in \<^verbatim>\<open>%cr2\<close>.\<close>

inductive kstep :: "kvm \<Rightarrow> kstate \<Rightarrow> kstate \<Rightarrow> bool" for k where
  user: "kstep k s t" if "user_step s t"
| trap: "kstep k s t" if "exception k reg (s\<lparr>cr2 := a\<rparr>) = Some (Inr ((), t))"

inductive_cases kstepE: "kstep k s t"

inductive reachable :: "kvm \<Rightarrow> kstate \<Rightarrow> string option \<Rightarrow> kstate \<Rightarrow> bool" for k s0 command where
  start: "reachable k s0 command s" if "kernel k command s0 = Some (Inr ((), s))"
| step: "reachable k s0 command t" if "reachable k s0 command s" and "kstep k s t"

lemma user_mode_step:
  assumes "kvm_ok k" "kstep k s t" "user_mode s"
  shows "user_mode t"
  using assms(2)
proof cases
  case user
  then show ?thesis
    by (rule user_stepE) (use assms(3) in \<open>simp_all add: user_mode_def kernel_wf_def cur_proc_def\<close>)
next
  case (trap reg a)
  have "kernel_wf (s\<lparr>cr2 := a\<rparr>)" "current (s\<lparr>cr2 := a\<rparr>) \<noteq> 0"
    using assms(3) by (simp_all add: user_mode_def kernel_wf_def)
  from exception_user_mode [OF assms(1) this trap] show ?thesis .
qed

text \<open>With a sound \<^verbatim>\<open>k-vm.o\<close>, every step of the system keeps the invariant.\<close>

interpretation system: preserved "kstep k" "\<lambda>s. kvm_ok k \<longrightarrow> user_mode s" for k
  by unfold_locales (blast intro: user_mode_step)

lemma reachable_steps:
  "reachable k s0 command s \<Longrightarrow> \<exists>s1. kernel k command s0 = Some (Inr ((), s1)) \<and> (kstep k)\<^sup>*\<^sup>* s1 s"
proof (induction rule: reachable.induct)
  case (step s t)
  then show ?case by (meson rtranclp.rtrancl_into_rtrancl)
qed blast

lemma reachable_user_mode:
  assumes "reachable k s0 command s" "kvm_ok k" "sized s0"
  shows "user_mode s"
proof -
  obtain s1 where s1: "kernel k command s0 = Some (Inr ((), s1))" "(kstep k)\<^sup>*\<^sup>* s1 s"
    using reachable_steps [OF assms(1)] by blast
  then show ?thesis using system.steps_kept [OF s1(2)] kernel_user_mode [OF assms(2,3)] assms(2) by blast
qed

lemma sized_boot_state [simp]: "sized (boot_state im ports m)"
  by (simp add: sized_def boot_state_def NPROC_def)

end
