(* ===== verification/Hardware_Props.thy ===== *)
theory Hardware_Props
  imports Hardware
begin

text \<open>
  What the descriptor tables and the device set-up of \<open>Hardware\<close> mean: the fields that the
  processor reads from a gate, which vectors an application may raise, and the divisor that the
  timer is programmed with.
\<close>

section \<open>Fields of a gate\<close>

definition gate_target :: "x86_64_gatedescriptor \<Rightarrow> addr" where
  "gate_target g = (gd_low g AND 0xFFFF) OR (drop_bit 32 (gd_low g) AND 0xFFFF0000) OR push_bit 32 (gd_high g)"

definition gate_dpl :: "x86_64_gatedescriptor \<Rightarrow> u64" where
  "gate_dpl g = drop_bit 45 (gd_low g) AND 3"

definition gate_present :: "x86_64_gatedescriptor \<Rightarrow> bool" where
  "gate_present g \<longleftrightarrow> bit (gd_low g) 47"

definition gate_selector :: "x86_64_gatedescriptor \<Rightarrow> u64" where
  "gate_selector g = drop_bit 16 (gd_low g) AND 0xFFFF"

lemma gate_masks:
  "0xFFFF = (mask 16 :: u64)" "0xFFFF0000 = (push_bit 16 (mask 16) :: u64)" "(3 :: u64) = mask 2"
  "X86SEG_P = push_bit 47 1" "X86GATE_INTERRUPT = push_bit 41 (mask 3)" "SEGSEL_KERN_CODE = push_bit 3 1"
  by (simp_all add: mask_eq_exp_minus_1 X86SEG_P_def X86GATE_INTERRUPT_def SEGSEL_KERN_CODE_def push_bit_eq_mult)

lemma gate_const_bits:
  "bit X86SEG_P n \<longleftrightarrow> n = 47" "bit X86GATE_INTERRUPT n \<longleftrightarrow> n \<in> {41, 42, 43}"
  "bit (push_bit 16 SEGSEL_KERN_CODE) n \<longleftrightarrow> n = 19" "bit SEGSEL_KERN_CODE n \<longleftrightarrow> n = 3"
  unfolding gate_masks(4-6) push_bit_push_bit
  by (auto simp only: bit_push_bit_iff bit_1_iff bit_mask_iff possible_bit_word) simp_all

lemmas gate_bits = gate_const_bits bit_or_iff bit_and_iff bit_push_bit_iff bit_drop_bit_eq bit_mask_iff

lemma set_gate_fields:
  fixes dpl :: u64 and f :: addr
  assumes "dpl = 0 \<or> dpl = 3"
  defines "g \<equiv> set_gate X86GATE_INTERRUPT dpl f"
  shows "gate_target g = f" "gate_dpl g = dpl" "gate_present g" "gate_selector g = SEGSEL_KERN_CODE"
proof -
  have dpl: "dpl = dpl AND mask 2" using assms(1) by (auto simp: mask_eq_exp_minus_1)
  have d: "bit dpl n \<longleftrightarrow> n < 2 \<and> bit dpl n" for n
    by (subst dpl, subst (2) dpl) (auto simp: bit_and_iff bit_mask_iff)
  have dn: "\<not> bit dpl n" if "2 \<le> n" for n using d [of n] that by simp
  have dl: "n < 2" if "bit dpl n" for n using d [of n] that by simp
  have low: "bit (gd_low g) n \<longleftrightarrow> bit f n" if "n < 16" for n
    unfolding g_def set_gate_def gate_masks(1-3) x86_64_gatedescriptor.simps using that
    by (simp add: gate_bits)
  have mid: "bit (gd_low g) (32 + n) \<longleftrightarrow> bit f n" if "16 \<le> n" "n < 32" for n
    unfolding g_def set_gate_def gate_masks(1-3) x86_64_gatedescriptor.simps using that
    by (auto simp: gate_bits dn)
  have high: "bit (gd_high g) n \<longleftrightarrow> bit f (32 + n)" for n
    by (simp add: g_def set_gate_def bit_drop_bit_eq)
  have gt: "bit (gate_target g) n \<longleftrightarrow> n < 16 \<and> bit (gd_low g) n \<or>
      16 \<le> n \<and> n < 32 \<and> bit (gd_low g) (32 + n) \<or> 32 \<le> n \<and> bit (gd_high g) (n - 32)" if "n < 64" for n
    using that unfolding gate_target_def gate_masks(1-3)
    by (simp only: gate_bits possible_bit_word) (auto simp: add.commute)
  show "gate_target g = f"
  proof (rule bit_word_eqI)
    fix n assume n: "n < LENGTH(64)"
    consider "n < 16" | "16 \<le> n" "n < 32" | "32 \<le> n" by linarith
    then show "bit (gate_target g) n = bit f n"
    proof cases
      case 1
      then show ?thesis using gt [of n] low [of n] by simp
    next
      case 2
      then show ?thesis using gt [of n] mid [of n] by simp
    next
      case 3
      then show ?thesis using gt [of n] high [of "n - 32"] n by simp
    qed
  qed
  show "gate_dpl g = dpl"
    unfolding g_def gate_dpl_def set_gate_def gate_masks(1-3) x86_64_gatedescriptor.simps
    by (rule bit_word_eqI) (auto simp: gate_bits dn dest: dl)
  show "gate_present g"
    unfolding g_def gate_present_def set_gate_def gate_masks(1-3) x86_64_gatedescriptor.simps
    by (simp add: gate_bits)
  show "gate_selector g = SEGSEL_KERN_CODE"
    unfolding g_def gate_selector_def set_gate_def gate_masks(1-3) x86_64_gatedescriptor.simps
    by (rule bit_word_eqI) (auto simp: gate_bits dn)
qed


section \<open>The interrupt descriptor table\<close>

text \<open>The handler of each vector that has one.\<close>

definition handler_of :: "image \<Rightarrow> nat \<Rightarrow> addr" where
  "handler_of im i =
     (if i = 32 then timer_int_handler_at im
      else if i = 13 then gpf_int_handler_at im
      else if i = 14 then pagefault_int_handler_at im
      else if 48 \<le> i \<and> i < 64 then sys_int_handlers_at im ! (i - 48)
      else default_int_handler_at im)"

lemma gate_table_nth:
  assumes "i < 256"
  shows "gate_table im ! i =
    (if i = 13 \<or> i = 14 \<or> 16 \<le> i
     then set_gate X86GATE_INTERRUPT (if 48 \<le> i \<and> i < 64 then 3 else 0) (handler_of im i)
     else \<lparr>gd_low = 0, gd_high = 0\<rparr>)"
proof -
  have v: "unat INT_TIMER = 32" "unat INT_GPF = 13" "unat INT_PAGEFAULT = 14" "unat INT_SYS = 48"
    by (simp_all add: int_defs)
  define t where "t = fold (\<lambda>i t. t[i := set_gate X86GATE_INTERRUPT 0 (default_int_handler_at im)]) [16..<256]
    (replicate 256 \<lparr>gd_low = 0, gd_high = 0\<rparr>)"
  have len: "length t = 256" unfolding t_def by (simp only: fold_list_update_length length_replicate)
  have t: "t ! j = (if 16 \<le> j then set_gate X86GATE_INTERRUPT 0 (default_int_handler_at im)
      else \<lparr>gd_low = 0, gd_high = 0\<rparr>)" if "j < 256" for j
    unfolding t_def using that
    by (subst fold_list_update_nth) (simp_all only: length_replicate nth_replicate simp_thms)
  define u where "u = t[32 := set_gate X86GATE_INTERRUPT 0 (timer_int_handler_at im),
    13 := set_gate X86GATE_INTERRUPT 0 (gpf_int_handler_at im),
    14 := set_gate X86GATE_INTERRUPT 0 (pagefault_int_handler_at im)]"
  have table: "gate_table im = fold (\<lambda>i t. t[i := set_gate X86GATE_INTERRUPT 3 (sys_int_handlers_at im ! (i - 48))])
      [48..<64] u"
    unfolding gate_table_def Let_def v u_def t_def by (simp del: upt_rec_numeral)
  have lu: "i < length u" using assms len by (simp add: u_def)
  show ?thesis
    unfolding table fold_list_update_nth [OF lu] using assms
    by (simp add: u_def nth_list_update len t handler_of_def)
qed

text \<open>
  C36. The interrupt descriptor table that \<^verbatim>\<open>segments_init\<close> builds: the vectors with a gate are
  the general protection fault, the page fault and everything from 16 up; each such gate leads
  to its handler in the kernel code segment; and an application may raise exactly the sixteen
  system call vectors. (The other processor exceptions, divide error included, have no gate.)
\<close>

theorem gate_table_privileges:
  assumes "i < 256"
  shows "(gate_present (gate_table im ! i) \<longleftrightarrow> i \<in> {13, 14} \<or> 16 \<le> i) \<and>
    (gate_dpl (gate_table im ! i) = 3 \<longleftrightarrow> 48 \<le> i \<and> i < 64) \<and>
    (gate_present (gate_table im ! i) \<longrightarrow>
       gate_target (gate_table im ! i) = handler_of im i \<and>
       gate_selector (gate_table im ! i) = SEGSEL_KERN_CODE)"
proof (cases "i = 13 \<or> i = 14 \<or> 16 \<le> i")
  case True
  let ?dpl = "(if 48 \<le> i \<and> i < 64 then 3 else 0) :: u64"
  have "?dpl = 0 \<or> ?dpl = 3" by simp
  note f = set_gate_fields [OF this, of "handler_of im i"]
  show ?thesis using True by (simp only: gate_table_nth [OF assms] f if_True) auto
next
  case False
  then show ?thesis by (simp add: gate_table_nth [OF assms] gate_present_def gate_dpl_def)
qed

theorem gate_table_privileges_witness:
  "gate_dpl (gate_table sample_image ! 49) = 3 \<and> gate_target (gate_table sample_image ! 49) = 0x40210"
  using gate_table_privileges [of 49 sample_image] by (simp add: handler_of_def sample_image_def)

section \<open>The timer\<close>

text \<open>The divisor of the timer as the two bytes sent to its counter register.\<close>

definition counter_value :: "(u16 \<times> u32) list \<Rightarrow> nat" where
  "counter_value outs =
     (case map snd (filter (\<lambda>(p, d). p = IO_TIMER1) outs) of
        [lo, hi] \<Rightarrow> unat lo + 256 * unat hi | _ \<Rightarrow> 0)"

lemma TIMER_DIV_bounds:
  assumes "19 \<le> rate" "rate \<le> 1193182"
  shows "0 \<le> TIMER_DIV rate" "TIMER_DIV rate < 65536"
proof -
  show "0 \<le> TIMER_DIV rate" using assms by (simp add: TIMER_DIV_def TIMER_FREQ_def pos_imp_zdiv_nonneg_iff)
  have "TIMER_FREQ + rate div 2 < 65536 * rate"
    using assms by (simp add: TIMER_FREQ_def)
  moreover have "TIMER_DIV rate * rate \<le> TIMER_FREQ + rate div 2"
    using assms by (simp add: TIMER_DIV_def flip: minus_mod_eq_div_mult)
  ultimately have "TIMER_DIV rate * rate < 65536 * rate" by linarith
  then show "TIMER_DIV rate < 65536"
    using assms by simp
qed

lemma rounding_error:
  "x = f + h - r \<Longrightarrow> 0 \<le> r \<Longrightarrow> r < n \<Longrightarrow> 2 * h \<le> n \<Longrightarrow> n \<le> 2 * h + 1 \<Longrightarrow> 2 * \<bar>x - f\<bar> \<le> (n :: int)"
  by arith

text \<open>
  \<^verbatim>\<open>timer_init(rate)\<close> for 19 Hz and more programs the counter with
  \<^verbatim>\<open>TIMER_DIV(rate)\<close>, the nearest integer to the input frequency over the rate, unmasks the timer
  line and no other, and leaves memory alone. (Below 19 Hz the divisor needs more than 16 bits
  and its high part is lost.)
\<close>

theorem timer_init_programs_rate:
  assumes "19 \<le> rate" "rate \<le> 1193182" "io_outs s = []"
  shows "counter_value (io_outs (timer_init rate s)) = nat (TIMER_DIV rate) \<and>
    2 * \<bar>TIMER_DIV rate * rate - TIMER_FREQ\<bar> \<le> rate \<and>
    interrupts_enabled (timer_init rate s) = interrupts_enabled s OR 1 \<and>
    pmem (timer_init rate s) = pmem s"
proof -
  note b = TIMER_DIV_bounds [OF assms(1,2)]
  have port: "IO_TIMER1 \<noteq> TIMER_MODE" "IO_PIC1 + 1 \<noteq> IO_TIMER1" "IO_PIC2 + 1 \<noteq> IO_TIMER1"
    by (simp_all add: IO_TIMER1_def TIMER_MODE_def IO_PIC1_def IO_PIC2_def)
  have byte: "unat (word_of_int k :: u8) = nat k" if "0 \<le> k" "k < 256" for k
  proof -
    obtain n where k: "k = int n" using \<open>0 \<le> k\<close> by (metis nonneg_int_cases)
    then show ?thesis using that unat_of_nat8 [of n] by simp
  qed
  have "TIMER_DIV rate div 256 < 256" using b by presburger
  then have "counter_value (io_outs (timer_init rate s)) =
      nat (TIMER_DIV rate mod 256) + 256 * nat (TIMER_DIV rate div 256)"
    using assms(1,3) port byte [of "TIMER_DIV rate mod 256"] byte [of "TIMER_DIV rate div 256"] b
    by (simp add: timer_init_def Let_def interrupt_mask_def outb_def outl_def counter_value_def)
  also have "\<dots> = nat (TIMER_DIV rate)" using b(1) by (simp add: nat_mod_distrib nat_div_distrib)
  finally have 1: "counter_value (io_outs (timer_init rate s)) = nat (TIMER_DIV rate)" .
  have "TIMER_DIV rate * rate = TIMER_FREQ + rate div 2 - (TIMER_FREQ + rate div 2) mod rate"
    by (simp add: TIMER_DIV_def flip: minus_mod_eq_div_mult)
  moreover have "0 \<le> (TIMER_FREQ + rate div 2) mod rate" "(TIMER_FREQ + rate div 2) mod rate < rate"
    using assms(1) by simp_all
  moreover have "2 * (rate div 2) \<le> rate" "rate \<le> 2 * (rate div 2) + 1" by presburger+
  ultimately have 2: "2 * \<bar>TIMER_DIV rate * rate - TIMER_FREQ\<bar> \<le> rate"
    by (rule rounding_error)
  show ?thesis
    using 1 2 assms(1)
    by (simp add: timer_init_def Let_def interrupt_mask_def outb_def outl_def int_defs)
qed

text \<open>A state in which nothing has been sent to a device yet.\<close>

theorem timer_init_programs_rate_witness:
  "counter_value (io_outs (timer_init 100 (boot_state sample_image (\<lambda>n p. 0) (\<lambda>a. 0)))) = 11932"
  using timer_init_programs_rate [of 100 "boot_state sample_image (\<lambda>n p. 0) (\<lambda>a. 0)"]
  by (simp add: boot_state_def TIMER_DIV_def TIMER_FREQ_def)

end
