(* ===== verification/Kernel_Start.thy ===== *)
theory Kernel_Start
  imports Kernel_Steps Hardware_Props
begin

text \<open>
  The start of the kernel, from the state the boot loader leaves to the first process:
  \<^verbatim>\<open>pageinfo_init\<close> page by page, and the whole of \<^verbatim>\<open>kernel\<close> up to the choice of programs.
\<close>

section \<open>The table of physical pages\<close>

text \<open>Who owns a physical page when the kernel starts.\<close>

definition initial_owner :: "image \<Rightarrow> nat \<Rightarrow> int" where
  "initial_owner im n =
     (if n = 0 \<or> 0xA0 \<le> n \<and> n < 0x100 then PO_RESERVED
      else if 0x40 \<le> n \<and> n * 4096 < unat (end_at im) \<or> n = 0x7F then PO_KERNEL
      else PO_FREE)"

lemma fold_upd_page:
  "fold (\<lambda>n. upd_page n (\<lambda>_. f n)) [a..<b] s = s\<lparr>pageinfo := fold (\<lambda>n l. l[n := f n]) [a..<b] (pageinfo s)\<rparr>"
  by (induction b) (simp_all add: upd_page_def)

lemma page_address:
  assumes "n < NPAGES" shows "unat (of_nat n * PAGESIZE :: u64) = n * 4096"
  using assms by (simp add: PAGESIZE_def NPAGES_def unat_word_ariths unat_of_nat64)

lemma page_class:
  assumes "n < NPAGES"
  shows "physical_memory_isreserved (of_nat n * PAGESIZE) \<longleftrightarrow> n = 0 \<or> 0xA0 \<le> n \<and> n < 0x100"
    "KERNEL_START_ADDR \<le> of_nat n * PAGESIZE \<longleftrightarrow> 0x40 \<le> n"
    "of_nat n * PAGESIZE = KERNEL_STACK_TOP - PAGESIZE \<longleftrightarrow> n = 0x7F"
  using page_address [OF assms]
  by (auto simp: physical_memory_isreserved_def IOPHYSMEM_def EXTPHYSMEM_def KERNEL_START_ADDR_def
      KERNEL_STACK_TOP_def PAGESIZE_def word_le_nat_alt word_less_nat_alt word_unat_eq_iff)

lemma pageinfo_init_fields:
  "pageinfo_init s = s\<lparr>pageinfo := pageinfo (pageinfo_init s)\<rparr>"
  by (simp add: pageinfo_init_def Let_def fold_upd_page del: upt_rec_numeral)

lemma pageinfo_init_nth:
  assumes "n < NPAGES" "length (pageinfo s) = NPAGES"
  shows "pageinfo (pageinfo_init s) ! n =
    \<lparr>owner = initial_owner (img s) n, refcount = (if initial_owner (img s) n = PO_FREE then 0 else 1)\<rparr>"
proof -
  have own: "(if physical_memory_isreserved (of_nat n * PAGESIZE) then PO_RESERVED
      else if of_nat n * PAGESIZE \<ge> KERNEL_START_ADDR \<and> of_nat n * PAGESIZE < end_at (img s)
           \<or> of_nat n * PAGESIZE = KERNEL_STACK_TOP - PAGESIZE then PO_KERNEL
      else PO_FREE) = initial_owner (img s) n"
    by (simp only: page_class [OF assms(1)] word_less_nat_alt [of _ "end_at (img s)"]
        page_address [OF assms(1)] initial_owner_def)
  have "pageinfo (pageinfo_init s) ! n =
      (let own = (if physical_memory_isreserved (of_nat n * PAGESIZE) then PO_RESERVED
        else if of_nat n * PAGESIZE \<ge> KERNEL_START_ADDR \<and> of_nat n * PAGESIZE < end_at (img s)
             \<or> of_nat n * PAGESIZE = KERNEL_STACK_TOP - PAGESIZE then PO_KERNEL
        else PO_FREE) in \<lparr>owner = own, refcount = (if own \<noteq> PO_FREE then 1 else 0)\<rparr>)"
    unfolding pageinfo_init_def Let_def fold_upd_page
    using assms by (simp add: fold_list_update_nth del: upt_rec_numeral)
  then show ?thesis by (simp only: own Let_def) simp
qed

section \<open>From the boot loader to the first process\<close>

lemma segments_init_fields:
  "img (segments_init s) = img s" "current (segments_init s) = current s"
  "length (pageinfo (segments_init s)) = length (pageinfo s)" "ticks (segments_init s) = ticks s"
  "interrupt_descriptors (segments_init s) = gate_table (img s)"
  by (simp_all add: segments_init_def Let_def lgdt_def lidt_def ltr_def lcr0_def)

lemma interrupt_mask_fields:
  "img (interrupt_mask s) = img s" "current (interrupt_mask s) = current s"
  "pageinfo (interrupt_mask s) = pageinfo s" "ticks (interrupt_mask s) = ticks s"
  "interrupt_descriptors (interrupt_mask s) = interrupt_descriptors s"
  "interrupts_enabled (interrupt_mask s) = interrupts_enabled s" "pmem (interrupt_mask s) = pmem s"
  "kernel_pagetable (interrupt_mask s) = kernel_pagetable s" "cr3 (interrupt_mask s) = cr3 s"
  by (simp_all add: interrupt_mask_def Let_def outb_def outl_def)

lemma interrupt_init_fields:
  "img (interrupt_init s) = img s" "current (interrupt_init s) = current s"
  "pageinfo (interrupt_init s) = pageinfo s" "ticks (interrupt_init s) = ticks s"
  "interrupt_descriptors (interrupt_init s) = interrupt_descriptors s"
  "interrupts_enabled (interrupt_init s) = 0"
  by (simp_all add: interrupt_init_def Let_def interrupt_mask_fields outb_def outl_def)

lemma timer_init_fields:
  "img (timer_init r s) = img s" "current (timer_init r s) = current s"
  "pageinfo (timer_init r s) = pageinfo s" "ticks (timer_init r s) = ticks s"
  "interrupt_descriptors (timer_init r s) = interrupt_descriptors s" "pmem (timer_init r s) = pmem s"
  "kernel_pagetable (timer_init r s) = kernel_pagetable s" "cr3 (timer_init r s) = cr3 s"
  by (simp_all add: timer_init_def Let_def interrupt_mask_fields outb_def outl_def)

lemma timer_init_enables:
  "0 < r \<Longrightarrow> interrupts_enabled s = 0 \<Longrightarrow> interrupts_enabled (timer_init r s) = 1"
  by (simp add: timer_init_def Let_def interrupt_mask_fields outb_def outl_def int_defs)

lemmas init_fields = segments_init_fields interrupt_init_fields timer_init_fields

text \<open>What the kernel needs of the addresses the linker chose.\<close>

definition link_ok :: "image \<Rightarrow> bool" where
  "link_ok im \<longleftrightarrow> aligned (kernel_pagetables_at im) \<and> kernel_pagetables_at im \<noteq> 0 \<and>
     unat (kernel_pagetables_at im) + 5 * 4096 \<le> 0x200000 \<and>
     unat (default_int_handler_at im) < 0x200000 \<and> unat (virtual_memory_map_at im) < 0x200000"

text \<open>The machine when the first program is about to be loaded.\<close>

definition kernel_ready :: "kstate \<Rightarrow> bool" where
  "kernel_ready s \<longleftrightarrow> current s = 0 \<and> length (processes s) = NPROC \<and>
     (\<forall>i < NPROC. processes s ! i = zero_proc\<lparr>p_pid := int i\<rparr>) \<and>
     (\<forall>n < NPAGES. pageinfo s ! n = \<lparr>owner = initial_owner (img s) n,
        refcount = (if initial_owner (img s) n = PO_FREE then 0 else 1)\<rparr>) \<and>
     kernel_pagetable s = kernel_pagetables_at (img s) \<and> cr3 s = kernel_pagetable s \<and>
     (\<forall>x. unat x < 0x400000 \<longrightarrow> virtual_memory_lookup (pmem s) (kernel_pagetable s) x =
        (if unat x < 0x200000 then mapped_to x (PTE_P OR PTE_W OR PTE_U) else unmapped)) \<and>
     interrupt_descriptors s = gate_table (img s) \<and> interrupts_enabled s = 1 \<and> ticks s = 0"

lemma kernel_ready_lookup:
  assumes "kernel_ready s" "unat x < 0x200000"
  shows "virtual_memory_lookup (pmem s) (kernel_pagetable s) x = mapped_to x (PTE_P OR PTE_W OR PTE_U)"
proof -
  have "\<forall>x. unat x < 0x400000 \<longrightarrow> virtual_memory_lookup (pmem s) (kernel_pagetable s) x =
     (if unat x < 0x200000 then mapped_to x (PTE_P OR PTE_W OR PTE_U) else unmapped)"
    using assms(1) unfolding kernel_ready_def by blast
  from this [rule_format, of x] show ?thesis using assms(2) by simp
qed

lemma kernel_start:
  assumes "link_ok im"
  shows "\<exists>s. kernel k command (boot_state im ports m) =
      andThen (start_programs k command s) (\<lambda>_ s. Some (run 1 s)) \<and> kernel_ready s \<and> img s = im"
proof -
  define b where "b = interrupt_init (segments_init (boot_state im ports m))"
  have b: "img b = im" "current b = 0" "length (pageinfo b) = NPAGES" "ticks b = 0"
    "interrupt_descriptors b = gate_table im" "interrupts_enabled b = 0"
    by (simp_all add: b_def init_fields) (simp_all add: boot_state_def)
  let ?k = "kernel_pagetables_at im"
  obtain m' where init: "virtual_memory_init b = Inr ((), b\<lparr>kernel_pagetable := ?k, pmem := m', cr3 := ?k\<rparr>)"
    and look: "\<And>x. unat x < 0x400000 \<Longrightarrow> virtual_memory_lookup m' ?k x =
      (if unat x < 0x200000 then mapped_to x pwu else unmapped)"
    using virtual_memory_init_runs [of b] assms b(1) unfolding link_ok_def by auto
  define u where "u = pageinfo_init (b\<lparr>kernel_pagetable := ?k, pmem := m', cr3 := ?k\<rparr>)"
  have page: "pageinfo u ! n = \<lparr>owner = initial_owner im n, refcount = (if initial_owner im n = PO_FREE then 0 else 1)\<rparr>"
    if "n < NPAGES" for n
    using pageinfo_init_nth [OF that] b(1,3) by (simp add: u_def)
  have u: "u = b\<lparr>kernel_pagetable := ?k, pmem := m', cr3 := ?k, pageinfo := pageinfo u\<rparr>"
    unfolding u_def by (subst pageinfo_init_fields) simp
  define v where "v = u\<lparr>console := fst (console_clear (console u)), cursorpos := snd (console_clear (console u))\<rparr>"
  define w where "w = init_processes (timer_init HZ v)"
  have v: "img v = im" "current v = 0" "pageinfo v = pageinfo u" "ticks v = 0"
      "interrupt_descriptors v = gate_table im" "interrupts_enabled v = 0" "pmem v = m'"
      "kernel_pagetable v = ?k" "cr3 v = ?k"
    using b by (simp_all add: v_def arg_cong [OF u, of img] arg_cong [OF u, of current]
        arg_cong [OF u, of ticks] arg_cong [OF u, of interrupt_descriptors] arg_cong [OF u, of interrupts_enabled]
        arg_cong [OF u, of pmem] arg_cong [OF u, of kernel_pagetable] arg_cong [OF u, of cr3])
  have "kernel_ready w"
    using v page look by (simp add: kernel_ready_def w_def init_processes_def timer_init_fields
        timer_init_enables HZ_def zero_proc_def pwu_def)
  moreover have "img w = im" using v by (simp add: w_def init_processes_def timer_init_fields)
  moreover have "kernel k command (boot_state im ports m) =
      andThen (start_programs k command w) (\<lambda>_ s. Some (run 1 s))"
    by (simp add: kernel_def hardware_init_def init flip: b_def u_def) (simp add: Let_def case_prod_beta v_def w_def)
  ultimately show ?thesis by blast
qed

text \<open>A process on the kernel's own page table can be run.\<close>

lemma run_on_kernel_table:
  assumes ready: "\<And>x. unat x < 0x200000 \<Longrightarrow>
      va_pa (virtual_memory_lookup (pmem s) (kernel_pagetable s) x) = x"
    and link: "link_ok (img s)" "kernel_pagetable s = kernel_pagetables_at (img s)"
    and p: "p_state (processes s ! p) = P_RUNNABLE" "p_pagetable (processes s ! p) = kernel_pagetable s"
  shows "\<exists>con. run p s = Inr ((), s\<lparr>current := p, console := con, cr3 := kernel_pagetable s\<rparr>)"
proof -
  define con where "con = console (snd (kconsole_vprintf (CPOS 24 79)
    (ucast (memstate_colors ! nat (p_pid (processes s ! p) - PO_KERNEL)))
    ''%d'' [Num (word_of_int (p_pid (processes s ! p)))] (s\<lparr>current := p\<rparr>)))"
  let ?u = "s\<lparr>current := p, console := con\<rparr>"
  have u: "snd (kconsole_vprintf (CPOS 24 79)
    (ucast (memstate_colors ! nat (p_pid (processes s ! p) - PO_KERNEL)))
    ''%d'' [Num (word_of_int (p_pid (processes s ! p)))] (s\<lparr>current := p\<rparr>)) = ?u"
    by (simp add: con_def kconsole_vprintf_def case_prod_beta)
  have "set_pagetable (kernel_pagetable s) ?u = Inr ((), ?u\<lparr>cr3 := kernel_pagetable s\<rparr>)"
    using link ready by (simp add: set_pagetable_def Let_def lcr3_def link_ok_def
        PAGEOFFSET_def PAGEOFFMASK_def PAGESIZE_def aligned_def)
  then show ?thesis using p u by (intro exI [of _ con]) (simp add: run_def Let_def)
qed

section \<open>A concrete \<^verbatim>\<open>k-vm.o\<close>\<close>

text \<open>
  An allocator that takes the first free page, processes on the kernel's page table, and no
  fork: enough to run the kernel to its first process.
\<close>

definition sample_kvm :: kvm where
  "sample_kvm =
     \<lparr>palloc = (\<lambda>pid s. case find (\<lambda>n. refcount (pageinfo s ! n) = 0) [0..<NPAGES] of
                  None \<Rightarrow> Inr (NULL, s)
                | Some n \<Rightarrow> Inr (of_nat n * PAGESIZE, upd_page n (\<lambda>_. \<lparr>owner = pid, refcount = 1\<rparr>) s)),
      process_free = (\<lambda>pid s. Inr ((), upd_proc (nat pid) (\<lambda>pr. pr\<lparr>p_state := P_FREE\<rparr>) s)),
      process_config_tables = (\<lambda>pid s. Inr (0, upd_proc (nat pid) (\<lambda>pr. pr\<lparr>p_pagetable := kernel_pagetable s\<rparr>) s)),
      process_load = (\<lambda>p n s. Some (Inr (0, s))),
      process_setup_stack = (\<lambda>p s. Inr ((), s)),
      process_fork = (\<lambda>p s. Inr (- 1, s)),
      process_page_alloc = (\<lambda>p a s. Inr (- 1, s))\<rparr>"

lemma sample_kvm_ok: "kvm_ok sample_kvm"
proof -
  have "kernel_wf (upd_proc n (\<lambda>pr. pr\<lparr>p_state := P_FREE\<rparr>) s)" if "kernel_wf s" for n s
    using that by (rule wf_upd_proc) (simp add: proc_ok_def break_inv_def)
  moreover have "kernel_wf (upd_proc n (\<lambda>pr. pr\<lparr>p_pagetable := a\<rparr>) s)" if "kernel_wf s" for n s a
    using that by (rule wf_upd_proc) (simp add: proc_ok_def break_inv_def)
  ultimately show ?thesis
    by (auto simp: kvm_ok_def sample_kvm_def wf_upd_page split: option.split)
qed

end
