(* ===== verification/Kernel_Props.thy ===== *)
theory Kernel_Props
  imports Kernel_Start
begin

text \<open>
  Properties of the running kernel: the invariant of every reachable state, the sizes of its
  tables, and the state in which the kernel starts its first program.
\<close>

section \<open>The invariant\<close>


text \<open>The kernel with \<open>sample_kvm\<close> reaches its first process, so there is a reachable state.\<close>

lemma sample_kernel_runs:
  "\<exists>s. kernel sample_kvm None (boot_state sample_image (\<lambda>n p. 0) (\<lambda>a. 0)) = Some (Inr ((), s))"
proof -
  have link: "link_ok sample_image" by (simp add: link_ok_def sample_image_def aligned_def)
  obtain s where s: "kernel sample_kvm None (boot_state sample_image (\<lambda>n p. 0) (\<lambda>a. 0)) =
      andThen (start_programs sample_kvm None s) (\<lambda>_ s. Some (run 1 s))" "kernel_ready s" "img s = sample_image"
    using kernel_start [OF link] by blast
  let ?t = "upd_proc 1 (\<lambda>pr. pr\<lparr>p_state := P_RUNNABLE\<rparr>) (upd_proc 1 (\<lambda>pr. pr\<lparr>p_pagetable := kernel_pagetable s\<rparr>)
    (upd_proc 1 (process_init 0) s))"
  have t: "start_programs sample_kvm None s = Some (Inr ((), ?t))"
    by (simp add: start_programs_def process_setup_def sample_kvm_def ret_def)
  have f: "kernel_pagetable ?t = kernel_pagetable s" "pmem ?t = pmem s" "img ?t = img s"
    "p_state (processes ?t ! 1) = P_RUNNABLE" "p_pagetable (processes ?t ! 1) = kernel_pagetable s"
    using s(2) by (simp_all add: upd_proc_def kernel_ready_def NPROC_def)
  have "va_pa (virtual_memory_lookup (pmem s) (kernel_pagetable s) x) = x" if "unat x < 0x200000" for x
    using kernel_ready_lookup [OF s(2) that] by (simp add: mapped_to_def)
  then have "\<exists>con. run 1 ?t = Inr ((), ?t\<lparr>current := 1, console := con, cr3 := kernel_pagetable s\<rparr>)"
    using run_on_kernel_table [of ?t 1] f s(2,3) link by (simp add: kernel_ready_def)
  then show ?thesis using s(1) t by auto
qed




section \<open>The start\<close>

text \<open>
  C18. Booting: whatever memory and devices hold, \<^verbatim>\<open>kernel\<close> gets through all of its set-up
  without a failed assertion and reaches the loading of programs in a known state: sixteen free
  processes numbered by index, physical pages owned by the kernel, reserved or free as
  \<^verbatim>\<open>pageinfo_init\<close> says (so no page of the kernel's image or stack can be allocated), the
  identity mapping of physical memory installed with nothing above it up to 4 MB, the gates of
  the interrupt table in place, only the timer interrupt unmasked, and no ticks. What follows is
  the set-up of the programs the command names, then process 1.
\<close>

theorem kernel_boots:
  assumes "link_ok im"
  shows "\<exists>s. kernel k command (boot_state im ports m) =
      andThen (start_programs k command s) (\<lambda>_ s. Some (run 1 s)) \<and> kernel_ready s \<and> img s = im"
  by (rule kernel_start [OF assms])

theorem kernel_boots_witness:
  "\<exists>s. kernel sample_kvm (Some ''test'') (boot_state sample_image (\<lambda>n p. 0) (\<lambda>a. 0)) =
     andThen (process_setup sample_kvm 1 3 s) (\<lambda>_ s. Some (run 1 s)) \<and>
     owner (pageinfo s ! 0x41) = PO_KERNEL \<and> refcount (pageinfo s ! 0x101) = 0"
proof -
  have "link_ok sample_image" by (simp add: link_ok_def sample_image_def aligned_def)
  from kernel_boots [OF this, of sample_kvm "Some ''test''" "\<lambda>n p. 0" "\<lambda>a. 0"] show ?thesis
    by (auto simp: start_programs_def kernel_ready_def initial_owner_def sample_image_def NPAGES_def
        PO_KERNEL_def PO_FREE_def PO_RESERVED_def)
qed

end
