(* ===== verification/Scheduler.thy ===== *)
theory Scheduler
  imports Kernel_Start
begin

text \<open>
  \<^verbatim>\<open>schedule\<close> as a round robin: with no key pressed it runs the first runnable process after
  the current one, and it never ends when there is none.
\<close>

section \<open>A quiet keyboard\<close>

text \<open>Every read of the controller's status says that no key waits; \<open>polled d\<close> counts \<open>d\<close> reads of it.\<close>

definition quiet :: "kstate \<Rightarrow> bool" where
  "quiet s \<longleftrightarrow> (\<forall>n. ucast (ucast (io_in s n KEYBOARD_STATUSREG) :: u8) AND KEYBOARD_STATUS_READY = 0)"

definition polled :: "nat \<Rightarrow> kstate \<Rightarrow> kstate" where
  "polled d s = s\<lparr>io_reads := (io_reads s)(KEYBOARD_STATUSREG := io_reads s KEYBOARD_STATUSREG + d)\<rparr>"

lemma polled_polled [simp]: "polled d (polled e s) = polled (e + d) s"
  by (simp add: polled_def add.assoc)

lemma polled_0 [simp]: "polled 0 s = s"
  by (simp add: polled_def)

lemma polled_fields [simp]: "processes (polled d s) = processes s" "quiet (polled d s) \<longleftrightarrow> quiet s"
  by (simp_all add: polled_def quiet_def)

lemma quiet_keyboard:
  assumes "quiet s" shows "check_keyboard s = Inr (- 1, polled 1 s)"
  using assms by (simp add: polled_def check_keyboard_def keyboard_readc_def inb_def inl_def quiet_def
      is_reboot_key_def is_exit_key_def Let_def)

section \<open>The walk over the process table\<close>

text \<open>The process \<open>d\<close> places after \<open>pid\<close>.\<close>

definition after :: "int \<Rightarrow> nat \<Rightarrow> nat" where
  "after pid d = nat ((pid + 1 + int d) mod int NPROC)"

lemma after_Suc: "after ((pid + 1) mod int NPROC) d = after pid (Suc d)"
proof -
  have "((pid + 1) mod int NPROC + (1 + int d)) mod int NPROC = (pid + 1 + (1 + int d)) mod int NPROC"
    by (rule mod_add_left_eq)
  then show ?thesis by (simp add: after_def add.assoc)
qed

lemma schedule_from_finds:
  assumes "quiet s" "p_state (processes s ! after pid d) = P_RUNNABLE"
    "\<And>e. e < d \<Longrightarrow> p_state (processes s ! after pid e) \<noteq> P_RUNNABLE"
  shows "schedule_from pid s = Some (run (after pid d) (polled d s))"
  using assms
proof (induction d arbitrary: pid s)
  case 0
  then show ?case by (subst schedule_from.simps) (simp add: after_def)
next
  case (Suc d)
  let ?t = "polled 1 s"
  have "p_state (processes s ! nat ((pid + 1) mod int NPROC)) \<noteq> P_RUNNABLE"
    using Suc.prems(3) [of 0] by (simp add: after_def)
  then have "schedule_from pid s = schedule_from ((pid + 1) mod int NPROC) ?t"
    by (subst schedule_from.simps) (simp add: quiet_keyboard [OF Suc.prems(1)])
  also have "\<dots> = Some (run (after pid (Suc d)) (polled d ?t))"
    using Suc.IH [of ?t "(pid + 1) mod int NPROC"] Suc.prems by (simp add: after_Suc)
  finally show ?case by simp
qed

lemma schedule_from_none:
  assumes "quiet s" "\<And>i. i < NPROC \<Longrightarrow> p_state (processes s ! i) \<noteq> P_RUNNABLE"
  shows "schedule_from pid s = None"
proof (rule ccontr)
  assume "schedule_from pid s \<noteq> None"
  then obtain r where "schedule_from pid s = Some r" by auto
  then have "\<not> (quiet s \<and> (\<forall>i < NPROC. p_state (processes s ! i) \<noteq> P_RUNNABLE))"
  proof (rule schedule_from.raw_induct [rotated])
    fix sched pid s r
    assume IH: "\<And>pid s r. sched pid s = Some r \<Longrightarrow>
        \<not> (quiet s \<and> (\<forall>i < NPROC. p_state (processes s ! i) \<noteq> P_RUNNABLE))"
      and body: "(if p_state (processes s ! nat ((pid + 1) mod int NPROC)) = P_RUNNABLE
        then Some (run (nat ((pid + 1) mod int NPROC)) s)
        else case check_keyboard s of
               Inl e \<Rightarrow> Some (Inl e)
             | Inr (c, s') \<Rightarrow> sched ((pid + 1) mod int NPROC) s') = Some r"
    have n: "nat ((pid + 1) mod int NPROC) < NPROC" by (simp add: NPROC_def nat_less_iff)
    show "\<not> (quiet s \<and> (\<forall>i < NPROC. p_state (processes s ! i) \<noteq> P_RUNNABLE))"
    proof
      assume q: "quiet s \<and> (\<forall>i < NPROC. p_state (processes s ! i) \<noteq> P_RUNNABLE)"
      then have "sched ((pid + 1) mod int NPROC) (polled 1 s) = Some r"
        using body n by (simp add: quiet_keyboard del: One_nat_def)
      from IH [OF this] q show False by simp
    qed
  qed
  with assms show False by blast
qed

text \<open>Some process is runnable: then one is within the first round.\<close>

lemma after_onto:
  assumes "i < NPROC" shows "\<exists>d < NPROC. after pid d = i"
proof -
  define d where "d = nat ((int i - pid - 1) mod int NPROC)"
  have N: "0 < int NPROC" by (simp add: NPROC_def)
  have "(pid + 1 + int d) mod int NPROC = int i"
    using assms N by (simp add: d_def mod_simps)
  moreover have "d < NPROC" using N by (simp add: d_def nat_less_iff)
  ultimately show ?thesis by (intro exI [of _ d]) (simp add: after_def)
qed

lemma first_after:
  assumes "i < NPROC" "p_state (processes s ! i) = P_RUNNABLE"
  obtains d where "d < NPROC" "p_state (processes s ! after pid d) = P_RUNNABLE"
    "\<And>e. e < d \<Longrightarrow> p_state (processes s ! after pid e) \<noteq> P_RUNNABLE"
    "\<And>e. after pid e = i \<Longrightarrow> d \<le> e"
proof -
  let ?P = "\<lambda>d. p_state (processes s ! after pid d) = P_RUNNABLE"
  obtain e where e: "e < NPROC" "after pid e = i" using after_onto [OF assms(1)] by blast
  then have "?P e" using assms(2) by simp
  then have "?P (LEAST d. ?P d)" "(LEAST d. ?P d) \<le> e" by (rule LeastI, rule Least_le)
  moreover have "(LEAST d. ?P d) \<le> e'" if "after pid e' = i" for e'
    by (rule Least_le) (simp add: that assms(2))
  moreover have "(LEAST d. ?P d) < NPROC" using e(1) \<open>(LEAST d. ?P d) \<le> e\<close> by simp
  ultimately show ?thesis by (intro that [of "LEAST d. ?P d"]) (auto dest: not_less_Least)
qed

section \<open>Properties\<close>

text \<open>
  C11. Round robin: when some process \<open>i\<close> is runnable and no key is pressed, \<^verbatim>\<open>schedule\<close> ends by
  running the first runnable process after the current one, having read the keyboard once for
  each process it passed over. That process is at most as far away as \<open>i\<close>, and never further
  than one round: a runnable process is passed over for at most fifteen others.
\<close>

theorem schedule_round_robin:
  assumes "quiet s" "i < NPROC" "p_state (processes s ! i) = P_RUNNABLE"
  shows "\<exists>d < NPROC. schedule s =
        Some (run (after (p_pid (cur_proc s)) d) (polled d s)) \<and>
      p_state (processes s ! after (p_pid (cur_proc s)) d) = P_RUNNABLE \<and>
      (\<forall>e < d. p_state (processes s ! after (p_pid (cur_proc s)) e) \<noteq> P_RUNNABLE) \<and>
      (\<forall>e. after (p_pid (cur_proc s)) e = i \<longrightarrow> d \<le> e)"
proof -
  obtain d where d: "d < NPROC" "p_state (processes s ! after (p_pid (cur_proc s)) d) = P_RUNNABLE"
    "\<And>e. e < d \<Longrightarrow> p_state (processes s ! after (p_pid (cur_proc s)) e) \<noteq> P_RUNNABLE"
    "\<And>e. after (p_pid (cur_proc s)) e = i \<Longrightarrow> d \<le> e"
    using first_after [OF assms(2,3), of "p_pid (cur_proc s)"] by blast
  then show ?thesis
    using schedule_from_finds [OF assms(1) d(2,3)] unfolding schedule_def by blast
qed

text \<open>Two runnable processes, 2 and 5, and the current one is 3.\<close>

definition two_runnable :: kstate where
  "two_runnable = (boot_state sample_image (\<lambda>n p. 0) (\<lambda>a. 0))\<lparr>current := 3,
     processes := map (\<lambda>i. zero_proc\<lparr>p_pid := int i, p_state := (if i = 2 \<or> i = 5 then P_RUNNABLE else P_FREE)\<rparr>)
       [0..<NPROC]\<rparr>"

lemma two_runnable_facts:
  "quiet two_runnable" "p_pid (cur_proc two_runnable) = 3"
  "i < NPROC \<Longrightarrow> p_state (processes two_runnable ! i) = (if i = 2 \<or> i = 5 then P_RUNNABLE else P_FREE)"
  by (simp_all add: two_runnable_def quiet_def boot_state_def cur_proc_def NPROC_def del: upt_rec_numeral)

theorem schedule_round_robin_witness:
  "schedule two_runnable = Some (run 5 (polled 1 two_runnable))"
proof -
  have s: "p_state (processes two_runnable ! 5) = P_RUNNABLE" "(5 :: nat) < NPROC"
    by (simp_all add: two_runnable_facts NPROC_def)
  have a: "after 3 0 = 4" "after 3 1 = 5" by (simp_all add: after_def NPROC_def)
  obtain d where d: "schedule two_runnable = Some (run (after 3 d) (polled d two_runnable))"
      "p_state (processes two_runnable ! after 3 d) = P_RUNNABLE" "\<forall>e. after 3 e = 5 \<longrightarrow> d \<le> e"
    using schedule_round_robin [OF two_runnable_facts(1) s(2,1)] by (auto simp: two_runnable_facts(2))
  have "d \<le> 1" using d(3) a(2) by blast
  moreover have "p_state (processes two_runnable ! 4) = P_FREE" by (simp add: two_runnable_facts(3) NPROC_def)
  then have "d \<noteq> 0" using d(2) a(1) by (cases d) auto
  ultimately have "d = 1" by simp
  then show ?thesis using d(1) a(2) by simp
qed

text \<open>
  C31. \<^verbatim>\<open>schedule\<close> ends exactly when a process is runnable: with no key pressed and none
  runnable it polls the keyboard for ever. So after the last process has exited or broken the
  machine only waits for a control key.
\<close>

theorem schedule_ends_iff:
  assumes "quiet s"
  shows "schedule s \<noteq> None \<longleftrightarrow> (\<exists>i < NPROC. p_state (processes s ! i) = P_RUNNABLE)"
proof
  assume "\<exists>i < NPROC. p_state (processes s ! i) = P_RUNNABLE"
  then obtain i where "i < NPROC" "p_state (processes s ! i) = P_RUNNABLE" by blast
  then obtain d where "p_state (processes s ! after (p_pid (cur_proc s)) d) = P_RUNNABLE"
    "\<And>e. e < d \<Longrightarrow> p_state (processes s ! after (p_pid (cur_proc s)) e) \<noteq> P_RUNNABLE"
    by (rule first_after [of _ _ "p_pid (cur_proc s)"]) blast
  from schedule_from_finds [OF assms this] show "schedule s \<noteq> None" by (simp add: schedule_def)
next
  show "schedule s \<noteq> None \<Longrightarrow> \<exists>i < NPROC. p_state (processes s ! i) = P_RUNNABLE"
    using schedule_from_none [OF assms, of "p_pid (cur_proc s)"] unfolding schedule_def by metis
qed

theorem schedule_ends_iff_witness:
  "schedule (two_runnable\<lparr>processes := replicate NPROC zero_proc\<rparr>) = None"
proof -
  let ?s = "two_runnable\<lparr>processes := replicate NPROC zero_proc\<rparr>"
  have "quiet ?s" using two_runnable_facts(1) by (simp add: quiet_def)
  from schedule_ends_iff [OF this] show ?thesis by (auto simp: zero_proc_def)
qed

end
