(* ===== verification/Faults.thy ===== *)
theory Faults
  imports Kernel_Start
begin

text \<open>
  Page faults and what the processor makes of page tables: \<^verbatim>\<open>virtual_memory_lookup\<close> against the
  hardware's walk, and the page-fault arm of \<^verbatim>\<open>exception\<close>, which maps heap pages when they are
  first touched.
\<close>

section \<open>The walk of the processor\<close>

text \<open>A single bit of a conjunction.\<close>

lemma and_one_iff: "(a AND b) AND PTE_P \<noteq> 0 \<longleftrightarrow> a AND PTE_P \<noteq> 0 \<and> b AND PTE_P \<noteq> (0 :: u64)"
  by (simp add: PTE_P_def and_one_eq mod2_eq_if even_and_iff)

lemma masked_present: "(e AND NOT (x AND 6)) AND PTE_P = e AND (PTE_P :: u64)"
proof -
  have "NOT (x AND 6) AND PTE_P = (PTE_P :: u64)"
    by (rule bit_word_eqI) (auto simp: bit_simps PTE_P_def bit_1_iff)
  then show ?thesis by (simp only: and.assoc)
qed

lemma levels_absent: "pe AND PTE_P = 0 \<Longrightarrow> lookup_levels l m pt pe va = pe"
  by (cases l) simp_all

lemma levels_present:
  assumes "pe AND PTE_P \<noteq> 0"
  shows "lookup_levels (i # l) m pt pe va =
    lookup_levels l m (PTE_ADDR (pte m pt va i)) (pte m pt va i AND NOT (pe AND 6)) va"
proof -
  have "PTE_W OR PTE_U = 6" by (simp add: PTE_W_def PTE_U_def)
  then show ?thesis using assms by (simp only: lookup_levels.simps Let_def if_True simp_thms PTE_ADDR_clear [OF low_mask])
qed

lemma levels_present_iff:
  "lookup_levels (i # l) m pt pe va AND PTE_P \<noteq> 0 \<longleftrightarrow> pe AND PTE_P \<noteq> 0 \<and>
     lookup_levels l m (PTE_ADDR (pte m pt va i)) (pte m pt va i AND NOT (pe AND 6)) va AND PTE_P \<noteq> 0"
  by (cases "pe AND PTE_P = 0") (simp_all add: levels_present levels_absent del: lookup_levels.simps)

text \<open>The four entries on the path of an address.\<close>

definition path :: "mem \<Rightarrow> addr \<Rightarrow> addr \<Rightarrow> u64 \<times> u64 \<times> u64 \<times> u64" where
  "path m pt va =
     (let e0 = pte m pt va 0; e1 = pte m (PTE_ADDR e0) va 1; e2 = pte m (PTE_ADDR e1) va 2
      in (e0, e1, e2, pte m (PTE_ADDR e2) va 3))"

lemma pathD:
  assumes "path m pt va = (e0, e1, e2, e3)"
  shows "pte m pt va 0 = e0" "pte m (PTE_ADDR e0) va 1 = e1" "pte m (PTE_ADDR e1) va 2 = e2"
    "pte m (PTE_ADDR e2) va 3 = e3"
  using assms by (auto simp: path_def Let_def)

lemma lookup_present_iff:
  assumes "path m pt va = (e0, e1, e2, e3)"
  shows "lookup_levels [0, 1, 2, 3] m pt (PTE_W OR PTE_U OR PTE_P) va AND PTE_P \<noteq> 0 \<longleftrightarrow>
    e0 AND PTE_P \<noteq> 0 \<and> e1 AND PTE_P \<noteq> 0 \<and> e2 AND PTE_P \<noteq> 0 \<and> e3 AND PTE_P \<noteq> 0"
proof -
  have "(PTE_W OR PTE_U OR PTE_P) AND PTE_P \<noteq> 0" by (simp add: PTE_W_def PTE_U_def PTE_P_def)
  then show ?thesis
    by (simp only: levels_present_iff lookup_levels.simps(1) masked_present pathD [OF assms] simp_thms)
qed

lemma walk_path:
  assumes "path m pt va = (e0, e1, e2, e3)"
  shows "hw_walk m pt va =
    (if e0 AND PTE_P \<noteq> 0 \<and> e1 AND PTE_P \<noteq> 0 \<and> e2 AND PTE_P \<noteq> 0 \<and> e3 AND PTE_P \<noteq> 0
     then Some (PTE_ADDR e3 + PAGEOFFSET va, PTE_FLAGS (e0 AND e1 AND e2 AND e3)) else None)"
  by (simp only: hw_walk_def Let_def pathD [OF assms] and_one_iff)

lemma lookup_path:
  assumes "path m pt va = (e0, e1, e2, e3)"
    "e0 AND PTE_P \<noteq> 0" "e1 AND PTE_P \<noteq> 0" "e2 AND PTE_P \<noteq> 0" "e3 AND PTE_P \<noteq> 0"
  shows "virtual_memory_lookup m pt va =
    (let pe = e3 AND NOT (e2 AND NOT e1 AND 6)
     in \<lparr>va_pn = PAGENUMBER pe, va_pa = PTE_ADDR e3 + PAGEOFFSET va, va_perm = PTE_FLAGS pe\<rparr>)"
proof -
  note D = pathD [OF assms(1)]
  have L: "lookup_levels [0, 1, 2, 3] m pt (PTE_W OR PTE_U OR PTE_P) va = e3 AND NOT (e2 AND NOT e1 AND 6)"
    by (rule lookup_levels_entries [OF D(1) [symmetric] D(2) [symmetric] D(3) [symmetric] D(4) [symmetric] assms(2-4)])
  have "PTE_ADDR (e3 AND NOT (e2 AND NOT e1 AND 6)) = PTE_ADDR e3"
    by (rule PTE_ADDR_clear) (simp only: and.assoc, simp)
  moreover have "(e3 AND NOT (e2 AND NOT e1 AND 6)) AND PTE_P \<noteq> 0"
    using lookup_present_iff [OF assms(1)] assms(2-5) L by metis
  ultimately show ?thesis by (simp only: virtual_memory_lookup_def Let_def L if_True simp_thms)
qed

lemma walk_bits_reported:
  "PTE_FLAGS (e0 AND e1 AND e2 AND e3) AND NOT (PTE_FLAGS (e3 AND NOT (e2 AND NOT e1 AND 6))) = 0"
  by (rule bit_word_eqI) (auto simp: PTE_FLAGS_def bit_simps)

text \<open>
  C16. The kernel's lookup against the processor's walk of the same table, for every memory, table
  and address: the lookup reports a page exactly when the processor finds one, with the same
  physical address, and it reports every permission that the processor grants. (It may report
  more: see \<open>lookup_permissions\<close> in \<open>Paging\<close>.)
\<close>

theorem lookup_agrees_with_walk:
  "case hw_walk m pt va of
     None \<Rightarrow> virtual_memory_lookup m pt va = unmapped
   | Some (pa, flags) \<Rightarrow> va_pa (virtual_memory_lookup m pt va) = pa \<and>
       va_perm (virtual_memory_lookup m pt va) AND PTE_P \<noteq> 0 \<and>
       flags AND NOT (va_perm (virtual_memory_lookup m pt va)) = 0"
proof -
  obtain e0 e1 e2 e3 where path: "path m pt va = (e0, e1, e2, e3)" by (cases "path m pt va")
  let ?all = "e0 AND PTE_P \<noteq> 0 \<and> e1 AND PTE_P \<noteq> 0 \<and> e2 AND PTE_P \<noteq> 0 \<and> e3 AND PTE_P \<noteq> 0"
  show ?thesis
  proof (cases ?all)
    case True
    have "PTE_FLAGS (e3 AND NOT (e2 AND NOT e1 AND 6)) AND PTE_P = e3 AND PTE_P"
      by (rule bit_word_eqI) (auto simp: PTE_FLAGS_def PTE_P_def bit_simps bit_1_iff)
    then show ?thesis
      using True lookup_path [OF path] walk_bits_reported
      by (simp only: walk_path [OF path] if_True option.case prod.case Let_def vamapping.simps simp_thms)
  next
    case False
    then have "virtual_memory_lookup m pt va = unmapped"
      using lookup_present_iff [OF path]
      by (simp only: virtual_memory_lookup_def Let_def unmapped_def if_False)
    then show ?thesis using False by (simp only: walk_path [OF path] if_False option.case)
  qed
qed

section \<open>The first touch of a heap page\<close>

lemma seven_absorbs:
  "(PTE_FLAGS ((t OR 7) AND (u OR 7) AND (v OR 7) AND e)) AND 7 = e AND (7 :: u64)"
proof -
  have k: "(x OR 7) AND (y AND 7) = y AND (7 :: u64)" for x y
    by (rule bit_word_eqI) (simp only: bit_and_iff bit_or_iff, blast)
  have "(PTE_FLAGS x) AND 7 = x AND (7 :: u64)" for x by (simp add: PTE_FLAGS_def and.assoc)
  then show ?thesis by (simp only: and.assoc k)
qed

lemma walk_low:
  assumes ok: "tables_ok m pt t1 t2 ts" and va: "unat va < 0x400000"
    and e: "e = read64 m (ent ts (unat va div 4096))" "e AND pwu = pwu"
  shows "\<exists>flags. hw_walk m pt va = Some (PTE_ADDR e + PAGEOFFSET va, flags) \<and> flags AND pwu = pwu"
proof -
  let ?t = "if unat va < 0x200000 then fst ts else snd ts"
  have al: "aligned t1" "aligned t2" "aligned ?t" using ok by (auto simp: tables_ok_def table_page_def)
  note W = tables_walk [OF ok va, unfolded pwu_eq] and B = pwu_bits [OF al(1)] pwu_bits [OF al(2)] pwu_bits [OF al(3)]
  have path: "path m pt va = (t1 OR 7, t2 OR 7, ?t OR 7, e)"
    by (simp only: path_def Let_def W(1) B(1) W(2) B(10) W(3) B(19) W(4) e(1))
  have "e AND 7 = 7" using e(2) by (simp only: pwu_eq)
  moreover from this have "e AND PTE_P \<noteq> 0"
  proof -
    have "e AND 1 = (e AND 7) AND (1 :: u64)" by (simp only: and.assoc) simp
    then show ?thesis using \<open>e AND 7 = 7\<close> by (simp add: PTE_P_def)
  qed
  moreover have "(t1 OR 7) AND PTE_P \<noteq> 0" "(t2 OR 7) AND PTE_P \<noteq> 0" "(?t OR 7) AND PTE_P \<noteq> 0"
    using B(3) B(12) B(21) by (simp_all add: PTE_P_def)
  ultimately show ?thesis
    by (simp only: walk_path [OF path] if_True simp_thms pwu_eq) (simp only: seven_absorbs option.inject prod.inject simp_thms ex_simps)
qed

lemma page_of:
  fixes a :: u64
  shows "aligned (ROUNDDOWN a PAGESIZE)" "unat (ROUNDDOWN a PAGESIZE) = 4096 * (unat a div 4096)"
proof -
  have "unat (ROUNDDOWN a PAGESIZE) = unat a - unat a mod 4096"
    by (simp add: ROUNDDOWN_def PAGESIZE_def unat_sub unat_mod word_le_nat_alt)
  then show *: "unat (ROUNDDOWN a PAGESIZE) = 4096 * (unat a div 4096)"
    by (simp only: minus_mod_eq_mult_div)
  show "aligned (ROUNDDOWN a PAGESIZE)" by (simp add: aligned_iff *)
qed

text \<open>The page of a low address as the range of \<^verbatim>\<open>virtual_memory_map\<close>.\<close>

lemma one_page:
  assumes "unat a < 0x400000"
  shows "aligned (ROUNDDOWN a PAGESIZE)" "aligned PAGESIZE" "unat (ROUNDDOWN a PAGESIZE) + unat PAGESIZE \<le> 0x400000"
    "unat (ROUNDDOWN a PAGESIZE) div 4096 = unat a div 4096" "unat PAGESIZE = 4096" "pwu < 0x1000" "pwu AND PTE_P \<noteq> 0"
proof -
  have "unat a div 4096 < 1024" using assms by auto
  then have "4096 * (unat a div 4096) + 4096 \<le> 0x400000" by simp
  then show "unat (ROUNDDOWN a PAGESIZE) + unat PAGESIZE \<le> 0x400000" using page_of [of a] by (simp add: PAGESIZE_def)
  show "aligned (ROUNDDOWN a PAGESIZE)" "unat (ROUNDDOWN a PAGESIZE) div 4096 = unat a div 4096"
    using page_of [of a] by simp_all
qed (simp_all add: PAGESIZE_def aligned_def pwu_eq PTE_P_def)

lemma same_page_iff: "4096 * q \<le> n \<and> n < 4096 * q + 4096 \<longleftrightarrow> n div 4096 = q" for n q :: nat
proof
  assume "n div 4096 = q"
  then show "4096 * q \<le> n \<and> n < 4096 * q + 4096"
    using mult_div_mod_eq [of 4096 n] mod_less_divisor [of 4096 n] by auto
qed (auto intro: div_nat_eqI)

text \<open>Mapping one page writes one entry.\<close>

lemma map_page_runs:
  assumes ok: "tables_ok (pmem s) pt t1 t2 ts" and a: "unat a < 0x400000"
    and pa: "aligned pa" "unat pa + 4096 \<le> 0x200000"
  shows "virtual_memory_map pt (ROUNDDOWN a PAGESIZE) pa PAGESIZE pwu s =
    Inr (0, s\<lparr>pmem := write64 (pmem s) (ent ts (unat a div 4096)) (pa OR pwu)\<rparr>)"
  using vmap_runs [OF ok one_page(1) [OF a] one_page(2,3,6) [OF a]] one_page(4,5,7) [OF a] pa by (simp add: entry_val_def)

lemma map_page_walk:
  assumes ok: "tables_ok m pt t1 t2 ts" and a: "unat a < 0x400000"
    and pa: "aligned pa" "unat pa + 4096 \<le> 0x200000"
  defines "m' \<equiv> write64 m (ent ts (unat a div 4096)) (pa OR pwu)"
  shows "tables_ok m' pt t1 t2 ts"
    "unat x < 0x400000 \<Longrightarrow> virtual_memory_lookup m' pt x =
       (if unat x div 4096 = unat a div 4096 then mapped_to (pa + (x - ROUNDDOWN a PAGESIZE)) pwu
        else virtual_memory_lookup m pt x)"
    "\<exists>flags. hw_walk m' pt a = Some (pa + PAGEOFFSET a, flags) \<and> flags AND pwu = pwu"
proof -
  let ?va = "ROUNDDOWN a PAGESIZE" and ?q = "unat a div 4096"
  note va = one_page [OF a]
  have paw: "pwu AND PTE_P \<noteq> 0 \<longrightarrow> aligned pa \<and> unat pa + unat PAGESIZE \<le> 0x200000" using pa va(5) by simp
  have q: "?q < 1024" using a by auto
  show ok': "tables_ok m' pt t1 t2 ts" unfolding m'_def by (rule upper_write [OF ok q])
  have "(unat ?va \<le> unat x \<and> unat x < unat ?va + 4096) = (unat x div 4096 = ?q)"
    unfolding page_of(2) by (rule same_page_iff)
  then show "unat x < 0x400000 \<Longrightarrow> virtual_memory_lookup m' pt x =
      (if unat x div 4096 = ?q then mapped_to (pa + (x - ?va)) pwu else virtual_memory_lookup m pt x)"
    using vmap_lookup [OF ok va(1-3) va(6) paw, of x] va(7) by (simp only: va(4,5) if_True simp_thms) (simp add: entry_val_def m'_def)
  have "read64 m' (ent ts ?q) = pa OR pwu" by (simp add: m'_def)
  then show "\<exists>flags. hw_walk m' pt a = Some (pa + PAGEOFFSET a, flags) \<and> flags AND pwu = pwu"
    using walk_low [OF ok' a refl] entry_bits(1) [OF pa(1), of pwu] entry_bits(3) [OF pa(1), of pwu pwu]
    by (simp add: pwu_eq)
qed

section \<open>Page faults\<close>

lemma page_fault_heap:
  assumes "reg_err reg AND PFERR_USER \<noteq> 0" "reg_err reg AND PFERR_PRESENT = 0"
    and "in_heap (cr2 s) (cur_proc s)" "unat (program_break (cur_proc s)) < break_limit"
    and "tables_ok (pmem s) (p_pagetable (cur_proc s)) t1 t2 ts"
    and "palloc k (p_pid (cur_proc s)) s = Inr (pa, s\<lparr>pageinfo := ps\<rparr>)"
    and "pa \<noteq> NULL" "aligned pa" "unat pa + 4096 \<le> 0x200000"
  shows "unat (cr2 s) < 0x400000" "page_fault k reg s =
    Inr ((), s\<lparr>pageinfo := ps, pmem := write64 (pmem s) (ent ts (unat (cr2 s) div 4096)) (pa OR pwu)\<rparr>)"
proof -
  let ?t = "s\<lparr>pageinfo := ps\<rparr>"
  show a: "unat (cr2 s) < 0x400000"
    using assms(3,4) by (simp add: in_heap_def word_less_nat_alt break_limit_def)
  have ok: "tables_ok (pmem ?t) (p_pagetable (cur_proc s)) t1 t2 ts" using assms(5) by simp
  have c: "cur_proc ?t = cur_proc s" by (simp add: cur_proc_def)
  have "page_fault k reg s = map_heap_page k (ROUNDDOWN (cr2 s) PAGESIZE) s"
    using assms(1-3) by (simp add: page_fault_def rcr2_def Let_def)
  then show "page_fault k reg s =
      Inr ((), s\<lparr>pageinfo := ps, pmem := write64 (pmem s) (ent ts (unat (cr2 s) div 4096)) (pa OR pwu)\<rparr>)"
    using assms(6,7) map_page_runs [OF ok a assms(8,9)] by (simp add: map_heap_page_def c flip: pwu_def)
qed


text \<open>Process 1 of \<open>sample_image\<close> with two heap pages at 0x101000, on the tables of the kernel.\<close>

definition heap_process :: kstate where
  "heap_process = (boot_state sample_image (\<lambda>n p. 0) (\<lambda>a. 0))\<lparr>pmem := fresh_tables 0x50000 (\<lambda>a. 0),
     current := 1, cr2 := 0x102010,
     processes := map (\<lambda>i. zero_proc\<lparr>p_pid := int i, p_state := (if i = 1 then P_RUNNABLE else P_FREE),
       original_break := 0x101000, program_break := 0x103000, p_pagetable := 0x50000\<rparr>) [0..<NPROC]\<rparr>"

lemma heap_process_facts:
  "cur_proc heap_process = zero_proc\<lparr>p_pid := 1, p_state := P_RUNNABLE,
     original_break := 0x101000, program_break := 0x103000, p_pagetable := 0x50000\<rparr>"
  "cr2 heap_process = 0x102010" "current heap_process = 1"
  "tables_ok (pmem heap_process) 0x50000 (0x50000 + PAGESIZE) (0x50000 + 2 * PAGESIZE)
      (0x50000 + 3 * PAGESIZE, 0x50000 + 4 * PAGESIZE)"
proof -
  show "cur_proc heap_process = zero_proc\<lparr>p_pid := 1, p_state := P_RUNNABLE,
     original_break := 0x101000, program_break := 0x103000, p_pagetable := 0x50000\<rparr>"
    by (simp add: heap_process_def boot_state_def cur_proc_def NPROC_def del: upt_rec_numeral)
  show "cr2 heap_process = 0x102010" "current heap_process = 1" by (simp_all add: heap_process_def)
  show "tables_ok (pmem heap_process) 0x50000 (0x50000 + PAGESIZE) (0x50000 + 2 * PAGESIZE)
      (0x50000 + 3 * PAGESIZE, 0x50000 + 4 * PAGESIZE)"
    using fresh_tables_ok [of "0x50000" "\<lambda>a. 0"] by (simp add: heap_process_def aligned_def)
qed

definition one_page_kvm :: kvm where
  "one_page_kvm = sample_kvm\<lparr>palloc := \<lambda>pid s.
     Inr (0x180000, upd_page 0x180 (\<lambda>_. \<lparr>owner = pid, refcount = 1\<rparr>) s)\<rparr>"

definition user_read_fault :: x86_64_registers where
  "user_read_fault = zero_regs\<lparr>reg_intno := INT_PAGEFAULT, reg_err := PFERR_USER\<rparr>"




end
