(* ===== verification/Calls.thy ===== *)
theory Calls
  imports Faults
begin

text \<open>
  System calls as the process sees them: the memory that \<^verbatim>\<open>syscall_mapping\<close> writes, and the
  results of the calls that come back through \<^verbatim>\<open>exception\<close>.
\<close>

section \<open>Writing a mapping\<close>

lemma disjoint_offsets:
  fixes a i j :: u64
  assumes "unat i + n \<le> unat j" "unat j + k < 2 ^ 64"
  shows "region (a + i) n \<inter> region (a + j) k = {}"
proof -
  have False if b: "unat (b - (a + i)) < n" "unat (b - (a + j)) < k" for b
  proof -
    define x where "x = b - (a + j)"
    have x: "b - (a + i) = x + (j - i)" by (simp add: x_def)
    have "unat (j - i) = unat j - unat i" using assms(1) by (simp add: unat_sub64)
    then have "unat (x + (j - i)) = unat x + (unat j - unat i)"
      using assms(2) b(2) by (subst unat_add64) (auto simp: x_def)
    then show False using b assms(1) by (simp add: x x_def)
  qed
  then show ?thesis by (auto simp: region_mem)
qed

lemma region_split:
  fixes a i :: u64
  assumes "unat i + n \<le> k" "k < 2 ^ 64" "b \<in> region (a + i) n"
  shows "b \<in> region a k"
proof -
  define x where "x = b - (a + i)"
  have "b - a = x + i" by (simp add: x_def)
  moreover have "unat x < n" using assms(3) by (simp add: region_mem x_def)
  then have "unat (x + i) < k" using assms(1,2) by (subst unat_add64) auto
  ultimately show ?thesis by (simp add: region_mem)
qed

lemma read32_write_far:
  "region a 4 \<inter> region b 4 = {} \<Longrightarrow> read32 (write32 m b v) a = read32 m a"
  "region a 4 \<inter> region b 8 = {} \<Longrightarrow> read32 (write64 m b w) a = read32 m a"
  "region a 8 \<inter> region b 4 = {} \<Longrightarrow> read64 (write32 m b v) a = read64 m a"
  by (simp_all add: read32_def read64_def write32_def write64_def read_le_write_le_other)

text \<open>The fields of a stored mapping read back, and nothing outside its 24 bytes changes.\<close>

lemma store_vamapping_fields:
  fixes a :: addr and m :: mem and v :: vamapping and padding :: "u32 \<times> u32"
  defines "m' \<equiv> store_vamapping padding a v m"
  shows "read32 m' a = word_of_int (va_pn v)" "read64 m' (a + 8) = va_pa v"
    "read32 m' (a + 16) = ucast (va_perm v)" "b \<notin> region a 24 \<Longrightarrow> m' b = m b"
proof -
  have d: "region (a + i) n \<inter> region (a + j) k = {}" "region (a + j) k \<inter> region (a + i) n = {}"
    if "unat i + n \<le> unat j" "unat j + k < 2 ^ 64" for i j n k
    using disjoint_offsets [OF that, of a] by blast+
  note D = d [of 0, simplified] d
  show "read32 m' a = word_of_int (va_pn v)" "read64 m' (a + 8) = va_pa v" "read32 m' (a + 16) = ucast (va_perm v)"
    by (simp_all add: m'_def store_vamapping_def Let_def read32_write_far D)
  assume b: "b \<notin> region a 24"
  have "b \<notin> region (a + i) n" if "unat i + n \<le> 24" for i n
    using region_split [of i n 24 b a] that b by auto
  note this [of 0, simplified] this
  then show "m' b = m b"
    by (simp add: m'_def store_vamapping_def Let_def write32_other write64_other)
qed


text \<open>
  Two pages of a process: 0x101000 writable, at 0x180000; 0x102000 read-only, at 0x190000. The
  call's structure starts eight bytes before the end of the first.
\<close>

definition two_pages :: mem where
  "two_pages = write64 (write64 (write64 (write64 (write64 (\<lambda>a. 0) 0x1000 0x2007) 0x2000 0x3007) 0x3000 0x4007)
     0x4808 0x180007) 0x4810 0x190005"

definition straddling :: kstate where
  "straddling = (boot_state sample_image (\<lambda>n p. 0) (\<lambda>a. 0))\<lparr>pmem := two_pages,
     processes := map (\<lambda>i. zero_proc\<lparr>p_pid := int i, p_pagetable := 0x1000,
       p_registers := zero_regs\<lparr>reg_rdi := 0x101FF8, reg_rsi := 0x102000\<rparr>\<rparr>) [0..<NPROC]\<rparr>"

lemma two_pages_lookup:
  "virtual_memory_lookup two_pages 0x1000 0x101FF8 = \<lparr>va_pn = 0x180, va_pa = 0x180FF8, va_perm = 7\<rparr>"
  "virtual_memory_lookup two_pages 0x1000 0x102000 = \<lparr>va_pn = 0x190, va_pa = 0x190000, va_perm = 5\<rparr>"
  unfolding two_pages_def by code_simp+

lemma straddling_facts:
  "processes straddling ! 1 = zero_proc\<lparr>p_pid := 1, p_pagetable := 0x1000,
     p_registers := zero_regs\<lparr>reg_rdi := 0x101FF8, reg_rsi := 0x102000\<rparr>\<rparr>"
  "pmem straddling = two_pages"
  by (simp_all add: straddling_def NPROC_def del: upt_rec_numeral)



section \<open>Break calls\<close>

text \<open>
  \<^verbatim>\<open>brk\<close> and \<^verbatim>\<open>sbrk\<close> as system calls, when the break does not shrink: the register
  \<^verbatim>\<open>%rax\<close> tells the process the outcome (0 or -1 for \<^verbatim>\<open>brk\<close>, the old break or -1 for
  \<^verbatim>\<open>sbrk\<close>), success is exactly staying below the limit, \<^verbatim>\<open>brk\<close> then leaves the break at the
  address asked for and \<^verbatim>\<open>sbrk\<close> the increment above the old one, and no memory or page
  is touched: heap pages are allocated when they are first used.
\<close>

definition rax_of :: "kstate \<Rightarrow> u64" where "rax_of s = reg_rax (p_registers (cur_proc s))"

theorem break_calls_grow:
  assumes "current s < length (processes s)" "break_ok (cur_proc s)"
    and "arg = reg_rdi (p_registers (cur_proc s))" "brk = program_break (cur_proc s)"
  shows "(brk \<le> arg \<longrightarrow> (\<exists>t. sys_brk s = Inr ((), t) \<and> pmem t = pmem s \<and> pageinfo t = pageinfo s \<and>
      rax_of t = (if unat arg < break_limit then 0 else - 1) \<and>
      program_break (cur_proc t) = (if unat arg < break_limit then arg else brk))) \<and>
    (unat arg < 2 ^ 63 \<longrightarrow> (\<exists>t. sys_sbrk s = Inr ((), t) \<and> pmem t = pmem s \<and> pageinfo t = pageinfo s \<and>
      rax_of t = (if unat brk + unat arg < break_limit then brk else - 1) \<and>
      program_break (cur_proc t) = (if unat brk + unat arg < break_limit then brk + arg else brk)))"
proof -
  have b: "original_break (cur_proc s) \<le> brk" "unat brk < break_limit"
    using assms(2,4) by (simp_all add: break_ok_def)
  have grow: "sbrk (current s) d s = (if unat (brk + d) < break_limit
      then Inr (0, upd_proc (current s) (\<lambda>pr. pr\<lparr>program_break := program_break pr + d\<rparr>) s) else Inr (- 1, s))"
    if "0 \<le> sint d" "brk \<le> brk + d" for d
    using sbrk_grow [OF that(1), of "current s" s] b(1) that(2) assms(4) by (auto simp: cur_proc_def)
  have calls: "sys_brk s = bindK (sbrk (current s) (arg - brk)) (\<lambda>r s. Inr ((), set_rax (if r = 0 then 0 else - 1) s)) s"
    "sys_sbrk s = bindK (sbrk (current s) arg) (\<lambda>r s. Inr ((), set_rax (if r = 0 then brk else - 1) s)) s"
    unfolding sys_brk_def sys_sbrk_def assms(3,4) Let_def by (rule refl)+
  show ?thesis
  proof (intro conjI impI)
    assume le: "brk \<le> arg"
    show "\<exists>t. sys_brk s = Inr ((), t) \<and> pmem t = pmem s \<and> pageinfo t = pageinfo s \<and>
      rax_of t = (if unat arg < break_limit then 0 else - 1) \<and>
      program_break (cur_proc t) = (if unat arg < break_limit then arg else brk)"
    proof (cases "unat arg < break_limit")
      case True
      have "unat (arg - brk) < 2 ^ 63" using le True by (simp add: word_le_nat_alt unat_sub64 break_limit_def)
      then have "0 \<le> sint (arg - brk)" by (simp add: sint_nonneg_iff64)
      then show ?thesis using grow [of "arg - brk"] le True assms(1)
        by (simp add: calls set_rax_def rax_of_def) (simp add: cur_proc_def assms(4))
    next
      case False
      then have "sbrk (current s) (arg - brk) s = Inr (- 1, s)"
        using assms(4) by (simp add: sbrk_def Let_def limit_word cur_proc_def)
      then show ?thesis using False assms(1)
        by (simp add: calls set_rax_def rax_of_def) (simp add: cur_proc_def assms(4))
    qed
  next
    assume d: "unat arg < 2 ^ 63"
    have s: "unat (brk + arg) = unat brk + unat arg" using b(2) d by (simp add: break_limit_def to_nat)
    have "0 \<le> sint arg" using d by (simp add: sint_nonneg_iff64)
    moreover have "brk \<le> brk + arg" by (simp add: word_le_nat_alt s)
    ultimately show "\<exists>t. sys_sbrk s = Inr ((), t) \<and> pmem t = pmem s \<and> pageinfo t = pageinfo s \<and>
      rax_of t = (if unat brk + unat arg < break_limit then brk else - 1) \<and>
      program_break (cur_proc t) = (if unat brk + unat arg < break_limit then brk + arg else brk)"
      using grow [of arg] assms(1)
      by (simp add: calls set_rax_def rax_of_def s) (simp add: cur_proc_def assms(4))
  qed
qed

theorem break_calls_grow_witness:
  "\<exists>t u. sys_sbrk heap_process = Inr ((), t) \<and> rax_of t = 0x103000 \<and>
     sys_sbrk (set_rdi 0x1000000 heap_process) = Inr ((), u) \<and> rax_of u = - 1"
proof -
  have l: "current heap_process < length (processes heap_process)"
    by (simp add: heap_process_def NPROC_def del: upt_rec_numeral)
  have c: "cur_proc (set_rdi v heap_process) = (cur_proc heap_process)\<lparr>p_registers := zero_regs\<lparr>reg_rdi := v\<rparr>\<rparr>" for v
    using l heap_process_facts(1) by (simp add: cur_proc_def set_rdi_def zero_proc_def)
  have b: "break_ok (cur_proc heap_process)" "break_ok (cur_proc (set_rdi v heap_process))" for v
    unfolding c heap_process_facts(1) by (simp_all add: break_ok_def break_limit_def)
  have l2: "current (set_rdi v heap_process) < length (processes (set_rdi v heap_process))" for v
    using l by (simp add: set_rdi_def)
  show ?thesis
    using break_calls_grow [OF l b(1) refl refl] break_calls_grow [OF l2 b(2) refl refl, of "0x1000000"]
    by (auto simp: c heap_process_facts(1) zero_proc_def zero_regs_def break_limit_def)
qed

end
