(* ===== verification/Invariants.thy ===== *)
theory Invariants
  imports Checks
begin

text \<open>
  \<^verbatim>\<open>check_virtual_memory\<close> against a declarative statement of the operating system invariants it
  tests. A check \<^emph>\<open>decides\<close> a condition when it leaves the state alone where the condition holds
  and panics where it does not; the rules in the collection \<open>dec\<close> follow the structure of a check.
\<close>

named_theorems dec "checks and the conditions they decide"

section \<open>Checks that decide a condition\<close>

definition decides :: "kstate \<Rightarrow> (stop \<times> kstate) + (unit \<times> kstate) \<Rightarrow> bool \<Rightarrow> bool" where
  "decides s r b \<longleftrightarrow> (if b then r = Inr ((), s) else (\<exists>t. r = Inl (Panicked, t)))"

lemma decides_ret [dec]: "decides s (Inr ((), s)) True" "decides s (ret () s) True"
  by (simp_all add: decides_def ret_def)

lemma assert_fail_panics: "\<exists>t. (assert_fail f l m :: unit kernel) s = Inl (Panicked, t)"
  by (simp add: assert_fail_def kernel_panic_def Let_def case_prod_beta)

lemma decides_assert [dec]:
  "decides s (k s) b \<Longrightarrow> decides s (assertK c f l m k s) (c \<and> b)"
  using assert_fail_panics [of f l m s] by (simp add: decides_def assertK_def)

lemma decides_bind [dec]:
  "decides s (f s) b \<Longrightarrow> decides s (g () s) b' \<Longrightarrow> decides s (bindK f g s) (b \<and> b')"
  by (auto simp: decides_def bindK_def split: if_splits)

lemma decides_if [dec]:
  "decides s r b \<Longrightarrow> decides s (if c then r else Inr ((), s)) (c \<longrightarrow> b)"
  by (simp add: decides_def)

lemma decides_seq [dec]:
  "(\<And>x. x \<in> set xs \<Longrightarrow> decides s (f x s) (b x)) \<Longrightarrow> decides s (seqK (map f xs) s) (\<forall>x \<in> set xs. b x)"
proof (induction xs)
  case (Cons x xs)
  have "decides s (bindK (f x) (\<lambda>_. seqK (map f xs)) s) (b x \<and> (\<forall>x \<in> set xs. b x))"
    by (rule decides_bind) (use Cons in auto)
  then show ?case by simp
qed (simp add: decides_ret)

section \<open>The invariants\<close>

text \<open>A page of the kernel in a page table: mapped to itself, writable from the data section on.\<close>

definition kernel_page_ok :: "kstate \<Rightarrow> addr \<Rightarrow> addr \<Rightarrow> bool" where
  "kernel_page_ok s pt a \<longleftrightarrow> va_pa (virtual_memory_lookup (pmem s) pt a) = a \<and>
     (start_data_at (img s) \<le> a \<longrightarrow> va_perm (virtual_memory_lookup (pmem s) pt a) AND PTE_W \<noteq> 0)"

text \<open>The addresses of pages from \<open>n\<close> up to \<^verbatim>\<open>end\<close>.\<close>

definition pages_from :: "nat \<Rightarrow> nat \<Rightarrow> nat set" where
  "pages_from n kend = {a. n \<le> a \<and> a < kend \<and> 4096 dvd a - n}"

definition kernel_mapped :: "kstate \<Rightarrow> addr \<Rightarrow> bool" where
  "kernel_mapped s pt \<longleftrightarrow> PTE_ADDR pt = pt \<and>
     (\<forall>a \<in> pages_from 0x40000 (unat (end_at (img s))). kernel_page_ok s pt (of_nat a)) \<and>
     va_pa (virtual_memory_lookup (pmem s) pt 0x7F000) = 0x7F000 \<and>
     va_perm (virtual_memory_lookup (pmem s) pt 0x7F000) AND PTE_W \<noteq> 0"

definition page_held :: "kstate \<Rightarrow> addr \<Rightarrow> int \<Rightarrow> int \<Rightarrow> bool" where
  "page_held s pt own count \<longleftrightarrow> 0 \<le> PAGENUMBER pt \<and> PAGENUMBER pt < int NPAGES \<and>
     owner (pageinfo s ! nat (PAGENUMBER pt)) = own \<and> refcount (pageinfo s ! nat (PAGENUMBER pt)) = count"

fun tables_held :: "nat \<Rightarrow> kstate \<Rightarrow> addr \<Rightarrow> int \<Rightarrow> int \<Rightarrow> bool" where
  "tables_held 0 s pt own count \<longleftrightarrow> page_held s pt own count"
| "tables_held (Suc levels) s pt own count \<longleftrightarrow> page_held s pt own count \<and>
     (\<forall>i < 512. read64 (pmem s) (pt + 8 * of_nat i) \<noteq> 0 \<longrightarrow>
        tables_held levels s (PTE_ADDR (read64 (pmem s) (pt + 8 * of_nat i))) own 1)"

definition kernel_table_users :: "kstate \<Rightarrow> nat" where
  "kernel_table_users s =
     length (filter (\<lambda>pr. p_state pr \<noteq> P_FREE \<and> p_pagetable pr = kernel_pagetable s) (processes s))"

definition os_invariant :: "kstate \<Rightarrow> bool" where
  "os_invariant s \<longleftrightarrow> p_state (processes s ! 0) = P_FREE \<and>
     kernel_mapped s (kernel_pagetable s) \<and>
     tables_held 3 s (kernel_pagetable s) PO_KERNEL (1 + int (kernel_table_users s)) \<and>
     (\<forall>i < NPROC. p_state (processes s ! i) \<noteq> P_FREE \<and> p_pagetable (processes s ! i) \<noteq> kernel_pagetable s \<longrightarrow>
        kernel_mapped s (p_pagetable (processes s ! i)) \<and>
        tables_held 3 s (p_pagetable (processes s ! i)) (int i) 1) \<and>
     (\<forall>n < NPAGES. refcount (pageinfo s ! n) > 0 \<and> owner (pageinfo s ! n) \<ge> 0 \<longrightarrow>
        p_state (processes s ! nat (owner (pageinfo s ! n))) \<noteq> P_FREE)"

section \<open>Each check decides its part\<close>

lemma decides_kernel_page [dec]: "decides s (check_kernel_page pt a s) (kernel_page_ok s pt a)"
proof (cases "va_pa (virtual_memory_lookup (pmem s) pt a) = a")
  case True
  then show ?thesis
    using assert_fail_panics by (auto simp: check_kernel_page_def kernel_page_ok_def decides_def assertK_def ret_def)
next
  case False
  then show ?thesis
    using assert_fail_panics by (auto simp: check_kernel_page_def kernel_page_ok_def decides_def assertK_def Let_def)
qed

lemma pages_from_step: "n < kend \<Longrightarrow> pages_from n kend = insert n (pages_from (n + 4096) kend)"
proof -
  have "4096 dvd a - n \<longleftrightarrow> a = n \<or> n + 4096 \<le> a \<and> 4096 dvd a - (n + 4096)" if "n \<le> a" for a
  proof (cases "n + 4096 \<le> a")
    case True
    then have "a - n = (a - (n + 4096)) + 4096" by simp
    then have "4096 dvd a - n \<longleftrightarrow> 4096 dvd a - (n + 4096)" by (simp only: dvd_add_triv_right_iff)
    then show ?thesis using True by auto
  next
    case False
    then have "a - n < 4096" by simp
    then have "4096 dvd a - n \<longleftrightarrow> a - n = 0" by (cases "a - n = 0") (auto dest: dvd_imp_le)
    then show ?thesis using False that by auto
  qed
  then show "n < kend \<Longrightarrow> ?thesis" by (auto simp: pages_from_def)
qed

lemma decides_kernel_pages [dec]:
  "decides s (check_kernel_pages pt kend n s) (\<forall>a \<in> pages_from n (unat kend). kernel_page_ok s pt (of_nat a))"
proof (induction pt kend n rule: check_kernel_pages.induct)
  case (1 pt kend n)
  show ?case
  proof (cases "n < unat kend")
    case True
    have "decides s (bindK (check_kernel_page pt (of_nat n)) (\<lambda>_. check_kernel_pages pt kend (n + 4096)) s)
        (kernel_page_ok s pt (of_nat n) \<and> (\<forall>a \<in> pages_from (n + 4096) (unat kend). kernel_page_ok s pt (of_nat a)))"
      using "1.IH" [OF True] by (intro dec)
    then show ?thesis using True by (subst check_kernel_pages.simps) (simp add: pages_from_step)
  next
    case False
    then have "pages_from n (unat kend) = {}" by (auto simp: pages_from_def)
    then show ?thesis using False by (subst check_kernel_pages.simps) (simp add: dec)
  qed
qed

lemma decides_mappings [dec]: "decides s (check_page_table_mappings pt s) (kernel_mapped s pt)"
proof -
  have k: "KERNEL_STACK_TOP - PAGESIZE = 0x7F000" "unat KERNEL_START_ADDR = 0x40000"
    by (simp_all add: KERNEL_STACK_TOP_def PAGESIZE_def KERNEL_START_ADDR_def)
  have "decides s (check_page_table_mappings pt s) (PTE_ADDR pt = pt \<and>
      (\<forall>a \<in> pages_from 0x40000 (unat (end_at (img s))). kernel_page_ok s pt (of_nat a)) \<and>
      va_pa (virtual_memory_lookup (pmem s) pt 0x7F000) = 0x7F000 \<and>
      va_perm (virtual_memory_lookup (pmem s) pt 0x7F000) AND PTE_W \<noteq> 0 \<and> True)"
    unfolding check_page_table_mappings_def Let_def k by (intro dec)
  then show ?thesis by (simp add: kernel_mapped_def)
qed

lemma decides_owned: "decides s (k s) b \<Longrightarrow> decides s (page_owned pt own count k s) (page_held s pt own count \<and> b)"
proof -
  assume "decides s (k s) b"
  then have "decides s (page_owned pt own count k s) ((0 \<le> PAGENUMBER pt \<and> PAGENUMBER pt < int NPAGES) \<and>
      owner (pageinfo s ! nat (PAGENUMBER pt)) = own \<and> refcount (pageinfo s ! nat (PAGENUMBER pt)) = count \<and> b)"
    unfolding page_owned_def Let_def by (intro decides_assert)
  then show ?thesis by (simp add: page_held_def conj_assoc)
qed

lemma decides_ownership_level [dec]:
  "decides s (check_page_table_ownership_level l pt own count s) (tables_held l s pt own count)"
proof (induction l arbitrary: pt own count)
  case 0
  have "decides s (page_owned pt own count (ret ()) s) (page_held s pt own count \<and> True)"
    by (intro decides_owned dec)
  then show ?case by simp
next
  case (Suc l)
  let ?e = "\<lambda>i. read64 (pmem s) (pt + 8 * of_nat i)"
  have "decides s (check_page_table_ownership_level (Suc l) pt own count s)
    (page_held s pt own count \<and> (\<forall>i \<in> set [0..<NPAGETABLEENTRIES]. ?e i \<noteq> 0 \<longrightarrow> tables_held l s (PTE_ADDR (?e i)) own 1))"
    unfolding check_page_table_ownership_level.simps Let_def
    by (intro decides_owned decides_seq decides_if Suc)
  then show ?case by (simp add: NPAGETABLEENTRIES_def Ball_def del: upt_rec_numeral)
qed

lemma decides_process [dec]:
  "decides s (check_process i s) (p_state (processes s ! i) \<noteq> P_FREE \<and>
      p_pagetable (processes s ! i) \<noteq> kernel_pagetable s \<longrightarrow>
    kernel_mapped s (p_pagetable (processes s ! i)) \<and> tables_held 3 s (p_pagetable (processes s ! i)) (int i) 1)"
proof (cases "p_pagetable (processes s ! i) = kernel_pagetable s")
  case True
  then show ?thesis by (simp add: check_process_def dec)
next
  case False
  then have "check_page_table_ownership (p_pagetable (processes s ! i)) (int i) s =
      check_page_table_ownership_level 3 (p_pagetable (processes s ! i)) (int i) 1 s"
    by (simp add: check_page_table_ownership_def)
  then show ?thesis
    using decides_ownership_level [of s 3 "p_pagetable (processes s ! i)" "int i" 1]
    unfolding check_process_def Let_def by (intro decides_if decides_bind decides_mappings) simp
qed

lemma decides_page_owner [dec]:
  "decides s (check_page_owner n s) (refcount (pageinfo s ! n) > 0 \<and> owner (pageinfo s ! n) \<ge> 0 \<longrightarrow>
     p_state (processes s ! nat (owner (pageinfo s ! n))) \<noteq> P_FREE \<and> True)"
  unfolding check_page_owner_def Let_def by (intro dec)

lemma decides_kernel_table:
  "decides s (check_page_table_ownership (kernel_pagetable s) (- 1) s)
    (tables_held 3 s (kernel_pagetable s) PO_KERNEL (1 + int (kernel_table_users s)))"
  using decides_ownership_level by (simp add: check_page_table_ownership_def kernel_table_users_def)

lemma decides_check: "decides s (check_virtual_memory s) (os_invariant s)"
proof -
  have "decides s (check_virtual_memory s) (p_state (processes s ! 0) = P_FREE \<and>
     kernel_mapped s (kernel_pagetable s) \<and>
     tables_held 3 s (kernel_pagetable s) PO_KERNEL (1 + int (kernel_table_users s)) \<and>
     (\<forall>i \<in> set [0..<NPROC]. p_state (processes s ! i) \<noteq> P_FREE \<and> p_pagetable (processes s ! i) \<noteq> kernel_pagetable s \<longrightarrow>
        kernel_mapped s (p_pagetable (processes s ! i)) \<and>
        tables_held 3 s (p_pagetable (processes s ! i)) (int i) 1) \<and>
     (\<forall>n \<in> set [0..<NPAGES]. refcount (pageinfo s ! n) > 0 \<and> owner (pageinfo s ! n) \<ge> 0 \<longrightarrow>
        p_state (processes s ! nat (owner (pageinfo s ! n))) \<noteq> P_FREE \<and> True))"
    unfolding check_virtual_memory_def by (intro decides_kernel_table dec)
  then show ?thesis by (simp add: os_invariant_def Ball_def del: upt_rec_numeral)
qed

section \<open>The property\<close>

text \<open>
  C10. \<^verbatim>\<open>check_virtual_memory\<close> is equivalent to the invariants its comments state: it returns, and
  then without any change to the state, exactly when process 0 is free; the kernel's page table
  and that of every process in use maps each kernel page and the kernel stack page to itself,
  writable where the kernel writes; every table page reachable from them is owned by its kernel or
  process and counted once (the kernel's top table once more for each process that uses it);
  and no page belongs to a free process. Otherwise it panics.
\<close>

theorem check_virtual_memory_decides:
  "if os_invariant s then check_virtual_memory s = Inr ((), s)
   else \<exists>t. check_virtual_memory s = Inl (Panicked, t)"
  using decides_check [of s] by (simp add: decides_def)

end
