(* ===== verification/Loading.thy ===== *)
theory Loading
  imports Faults
begin

text \<open>
  What \<^verbatim>\<open>program_load_segment\<close> puts into a process: the copy through the process's page table,
  byte by byte, when the pages that receive the segment hold no page table.
\<close>

section \<open>Memories that agree outside a set\<close>

definition same_outside :: "addr set \<Rightarrow> mem \<Rightarrow> mem \<Rightarrow> bool" where
  "same_outside D m m' \<longleftrightarrow> (\<forall>a. a \<notin> D \<longrightarrow> m' a = m a)"

lemma same_outside_refl [simp]: "same_outside D m m"
  by (simp add: same_outside_def)

lemma same_outside_trans: "same_outside D m m' \<Longrightarrow> same_outside D m' m'' \<Longrightarrow> same_outside D m m''"
  by (simp add: same_outside_def)

lemma same_outside_upd: "a \<in> D \<Longrightarrow> same_outside D m (m(a := b))"
  by (auto simp: same_outside_def)

lemma same_outside_mono: "same_outside C m m' \<Longrightarrow> C \<subseteq> D \<Longrightarrow> same_outside D m m'"
  by (auto simp: same_outside_def)

text \<open>Every byte of \<open>D\<close> lies outside the five tables of a page table.\<close>

definition clear_of_tables :: "addr set \<Rightarrow> addr \<Rightarrow> addr \<Rightarrow> addr \<Rightarrow> addr \<times> addr \<Rightarrow> bool" where
  "clear_of_tables D pt t1 t2 ts \<longleftrightarrow>
     (\<forall>t \<in> {pt, t1, t2, fst ts, snd ts}. D \<inter> region t 4096 = {})"

lemma entry_in_table:
  assumes "i < 512" shows "region (t + 8 * of_nat i) 8 \<subseteq> region t 4096"
proof
  fix b assume b: "b \<in> region (t + 8 * of_nat i) 8"
  define x where "x = b - (t + 8 * of_nat i)"
  have x: "b - t = x + 8 * of_nat i" "unat x < 8" using b by (simp_all add: x_def region_mem)
  have "unat (8 * of_nat i :: u64) = 8 * i" using assms unat_of_nat64 [of "8 * i"] by simp
  then have "unat (x + 8 * of_nat i) < 4096" using x(2) assms by (subst unat_add64) auto
  then show "b \<in> region t 4096" by (simp add: region_mem x(1))
qed

lemma table_read_same:
  assumes "same_outside D m m'" "D \<inter> region t 4096 = {}" "i < 512"
  shows "read64 m' (t + 8 * of_nat i) = read64 m (t + 8 * of_nat i)"
  using assms entry_in_table [OF assms(3), of t]
  by (intro read64_cong) (auto simp: same_outside_def)

lemma tables_same:
  assumes ok: "tables_ok m pt t1 t2 ts" and D: "clear_of_tables D pt t1 t2 ts" and s: "same_outside D m m'"
  shows "tables_ok m' pt t1 t2 ts" "q < 1024 \<Longrightarrow> read64 m' (ent ts q) = read64 m (ent ts q)"
proof -
  have R: "read64 m' (t + 8 * of_nat i) = read64 m (t + 8 * of_nat i)"
    if "t \<in> {pt, t1, t2, fst ts, snd ts}" "i < 512" for t i
    using table_read_same [OF s _ that(2)] that(1) D unfolding clear_of_tables_def by blast
  show "tables_ok m' pt t1 t2 ts"
    using ok R [of pt 0] R [of t1 0] R [of t2 0] R [of t2 1] by (simp add: tables_ok_def)
  show "read64 m' (ent ts q) = read64 m (ent ts q)" if "q < 1024"
    using R [of "fst ts" "q mod 512"] R [of "snd ts" "q mod 512"] by (cases "q < 512") (simp_all add: ent_def)
qed

lemma walk_same:
  assumes ok: "tables_ok m pt t1 t2 ts" and D: "clear_of_tables D pt t1 t2 ts" and s: "same_outside D m m'"
    and va: "unat va < 0x400000"
  shows "hw_walk m' pt va = hw_walk m pt va" "virtual_memory_lookup m' pt va = virtual_memory_lookup m pt va"
proof -
  have q: "unat va div 4096 < 1024" using va by auto
  note ok' = tables_same(1) [OF ok D s] and e = tables_same(2) [OF ok D s q]
  let ?t = "if unat va < 0x200000 then fst ts else snd ts"
  have al: "aligned t1" "aligned t2" "aligned ?t" using ok by (auto simp: tables_ok_def table_page_def)
  note B = pwu_bits [OF al(1)] pwu_bits [OF al(2)] pwu_bits [OF al(3)]
  have path: "path m pt va = (t1 OR 7, t2 OR 7, ?t OR 7, read64 m (ent ts (unat va div 4096)))" if "tables_ok m pt t1 t2 ts" for m
  proof -
    note W = tables_walk [OF that va, unfolded pwu_eq]
    show ?thesis by (simp only: path_def Let_def W(1) B(1) W(2) B(10) W(3) B(19) W(4))
  qed
  show "hw_walk m' pt va = hw_walk m pt va"
    by (simp only: walk_path [OF path [OF ok]] walk_path [OF path [OF ok']] e)
  show "virtual_memory_lookup m' pt va = virtual_memory_lookup m pt va"
    by (simp only: lookup_low [OF ok va] lookup_low [OF ok' va] e)
qed

section \<open>Copying and clearing through a page table\<close>

text \<open>
  The bytes \<open>[va, va + n)\<close> are writable through the page table and land at \<open>f 0, f 1, ...\<close>, all
  different, whatever the bytes of \<open>D\<close> are.
\<close>

definition writable :: "addr set \<Rightarrow> mem \<Rightarrow> addr \<Rightarrow> addr \<Rightarrow> nat \<Rightarrow> (nat \<Rightarrow> addr) \<Rightarrow> bool" where
  "writable D m pt va n f \<longleftrightarrow> inj_on f {..<n} \<and> f ` {..<n} \<subseteq> D \<and>
     (\<forall>m' i. same_outside D m m' \<longrightarrow> i < n \<longrightarrow>
        (\<exists>flags. hw_walk m' pt (va + of_nat i) = Some (f i, flags) \<and> flags AND PTE_W \<noteq> 0))"

definition readable :: "addr set \<Rightarrow> mem \<Rightarrow> addr \<Rightarrow> addr \<Rightarrow> nat \<Rightarrow> (nat \<Rightarrow> addr) \<Rightarrow> bool" where
  "readable D m pt va n g \<longleftrightarrow> g ` {..<n} \<inter> D = {} \<and>
     (\<forall>m' i. same_outside D m m' \<longrightarrow> i < n \<longrightarrow> (\<exists>flags. hw_walk m' pt (va + of_nat i) = Some (g i, flags)))"

lemma offset_Suc: "a + of_nat (Suc i) = (a + 1) + (of_nat i :: u64)"
  by simp

lemma writable_Suc:
  assumes "writable D m pt va (Suc n) f" "same_outside D m m'"
  shows "writable D m' pt (va + 1) n (\<lambda>i. f (Suc i))"
proof -
  have "inj_on (\<lambda>i. f (Suc i)) {..<n}" "(\<lambda>i. f (Suc i)) ` {..<n} \<subseteq> D"
    using assms(1) by (auto simp: writable_def inj_on_def)
  moreover have "\<exists>flags. hw_walk m'' pt ((va + 1) + of_nat i) = Some (f (Suc i), flags) \<and> flags AND PTE_W \<noteq> 0"
    if "same_outside D m' m''" "i < n" for m'' i
  proof -
    have "\<exists>flags. hw_walk m'' pt (va + of_nat (Suc i)) = Some (f (Suc i), flags) \<and> flags AND PTE_W \<noteq> 0"
      using assms(1) same_outside_trans [OF assms(2) that(1)] that(2) unfolding writable_def by blast
    then show ?thesis by (simp only: offset_Suc)
  qed
  ultimately show ?thesis by (simp add: writable_def)
qed

lemma readable_Suc:
  assumes "readable D m pt va (Suc n) g" "same_outside D m m'"
  shows "readable D m' pt (va + 1) n (\<lambda>i. g (Suc i))"
proof -
  have "(\<lambda>i. g (Suc i)) ` {..<n} \<inter> D = {}" using assms(1) by (auto simp: readable_def)
  moreover have "\<exists>flags. hw_walk m'' pt ((va + 1) + of_nat i) = Some (g (Suc i), flags)"
    if "same_outside D m' m''" "i < n" for m'' i
  proof -
    have "\<exists>flags. hw_walk m'' pt (va + of_nat (Suc i)) = Some (g (Suc i), flags)"
      using assms(1) same_outside_trans [OF assms(2) that(1)] that(2) unfolding readable_def by blast
    then show ?thesis by (simp only: offset_Suc)
  qed
  ultimately show ?thesis by (simp add: readable_def)
qed

lemma kstore8_writable:
  assumes "writable D (pmem s) (cr3 s) va (Suc n) f"
  shows "kstore8 va b s = Inr ((), s\<lparr>pmem := (pmem s)(f 0 := b)\<rparr>)" "f 0 \<in> D"
proof -
  have "\<exists>flags. hw_walk (pmem s) (cr3 s) (va + of_nat 0) = Some (f 0, flags) \<and> flags AND PTE_W \<noteq> 0"
    using assms same_outside_refl unfolding writable_def by blast
  then show "kstore8 va b s = Inr ((), s\<lparr>pmem := (pmem s)(f 0 := b)\<rparr>)" by (auto simp: kstore8_def)
  show "f 0 \<in> D" using assms by (auto simp: writable_def)
qed

lemma kload8_readable:
  assumes "readable D (pmem s) (cr3 s) va (Suc n) g"
  shows "kload8 va s = Inr (pmem s (g 0), s)"
proof -
  have "\<exists>flags. hw_walk (pmem s) (cr3 s) (va + of_nat 0) = Some (g 0, flags)"
    using assms same_outside_refl unfolding readable_def by blast
  then show ?thesis by (auto simp: kload8_def)
qed

lemma lessThan_shift: "f ` {..<Suc n} = insert (f 0) ((\<lambda>i. f (Suc i)) ` {..<n})"
  by (auto simp: lessThan_Suc_eq_insert_0 image_image)

lemma kmemcpy_effect:
  assumes "writable D (pmem s) (cr3 s) d n f" "readable D (pmem s) (cr3 s) p n g"
  shows "\<exists>m. kmemcpy n d p s = Inr ((), s\<lparr>pmem := m\<rparr>) \<and> same_outside (f ` {..<n}) (pmem s) m \<and>
    (\<forall>i < n. m (f i) = pmem s (g i))"
  using assms
proof (induction n arbitrary: d p f g s)
  case 0
  show ?case by (auto simp: ret_def intro!: exI [of _ "pmem s"])
next
  case (Suc n)
  let ?t = "s\<lparr>pmem := (pmem s)(f 0 := pmem s (g 0))\<rparr>"
  have f0: "f 0 \<in> D" using kstore8_writable(2) [OF Suc.prems(1)] .
  then have same: "same_outside D (pmem s) (pmem ?t)" by (simp add: same_outside_upd)
  have "writable D (pmem ?t) (cr3 ?t) (d + 1) n (\<lambda>i. f (Suc i))"
    "readable D (pmem ?t) (cr3 ?t) (p + 1) n (\<lambda>i. g (Suc i))"
    using writable_Suc [OF Suc.prems(1) same] readable_Suc [OF Suc.prems(2) same] by simp_all
  from Suc.IH [OF this] obtain m where m: "kmemcpy n (d + 1) (p + 1) ?t = Inr ((), ?t\<lparr>pmem := m\<rparr>)"
    "same_outside ((\<lambda>i. f (Suc i)) ` {..<n}) (pmem ?t) m" "\<forall>i < n. m (f (Suc i)) = pmem ?t (g (Suc i))" by blast
  have inj: "f 0 \<notin> (\<lambda>i. f (Suc i)) ` {..<n}"
    using Suc.prems(1) by (auto simp: writable_def inj_on_def)
  have g: "g i \<noteq> f 0" if "i < Suc n" for i using Suc.prems(2) f0 that by (auto simp: readable_def)
  have "kmemcpy (Suc n) d p s = Inr ((), s\<lparr>pmem := m\<rparr>)"
    using m(1) kload8_readable [OF Suc.prems(2)] kstore8_writable(1) [OF Suc.prems(1)] by simp
  moreover have "same_outside (f ` {..<Suc n}) (pmem s) m"
    using m(2) by (auto simp: same_outside_def lessThan_shift)
  moreover have "m (f i) = pmem s (g i)" if "i < Suc n" for i
    using m(2,3) inj g that by (cases i) (auto simp: same_outside_def)
  ultimately show ?case by blast
qed

lemma kmemset_effect:
  assumes "writable D (pmem s) (cr3 s) d n f"
  shows "\<exists>m. kmemset n d c s = Inr ((), s\<lparr>pmem := m\<rparr>) \<and> same_outside (f ` {..<n}) (pmem s) m \<and>
    (\<forall>i < n. m (f i) = c)"
  using assms
proof (induction n arbitrary: d f s)
  case 0
  show ?case by (auto simp: ret_def intro!: exI [of _ "pmem s"])
next
  case (Suc n)
  let ?t = "s\<lparr>pmem := (pmem s)(f 0 := c)\<rparr>"
  have same: "same_outside D (pmem s) (pmem ?t)"
    using kstore8_writable(2) [OF Suc.prems] by (simp add: same_outside_upd)
  have "writable D (pmem ?t) (cr3 ?t) (d + 1) n (\<lambda>i. f (Suc i))"
    using writable_Suc [OF Suc.prems same] by simp
  from Suc.IH [OF this] obtain m where m: "kmemset n (d + 1) c ?t = Inr ((), ?t\<lparr>pmem := m\<rparr>)"
    "same_outside ((\<lambda>i. f (Suc i)) ` {..<n}) (pmem ?t) m" "\<forall>i < n. m (f (Suc i)) = c" by blast
  have inj: "f 0 \<notin> (\<lambda>i. f (Suc i)) ` {..<n}"
    using Suc.prems by (auto simp: writable_def inj_on_def)
  have "kmemset (Suc n) d c s = Inr ((), s\<lparr>pmem := m\<rparr>)"
    using m(1) kstore8_writable(1) [OF Suc.prems] by simp
  moreover have "same_outside (f ` {..<Suc n}) (pmem s) m"
    using m(2) by (auto simp: same_outside_def lessThan_shift)
  moreover have "m (f i) = c" if "i < Suc n" for i
    using m(2,3) inj that by (cases i) (auto simp: same_outside_def)
  ultimately show ?case by blast
qed

text \<open>Ranges of a page table below 4 MB, from the walk in one memory.\<close>

lemma low_offset:
  assumes "unat va + n \<le> 0x400000" "i < n" shows "unat (va + of_nat i :: u64) < 0x400000"
  using assms by (subst unat_add64) (simp_all add: unat_of_nat64)

lemma writable_low:
  assumes "tables_ok m pt t1 t2 ts" "clear_of_tables D pt t1 t2 ts" "unat va + n \<le> 0x400000"
    and "inj_on f {..<n}" "f ` {..<n} \<subseteq> D"
    and "\<And>i. i < n \<Longrightarrow> \<exists>flags. hw_walk m pt (va + of_nat i) = Some (f i, flags) \<and> flags AND PTE_W \<noteq> 0"
  shows "writable D m pt va n f"
  unfolding writable_def
proof (intro conjI allI impI)
  fix m' i assume "same_outside D m m'" "i < n"
  then show "\<exists>flags. hw_walk m' pt (va + of_nat i) = Some (f i, flags) \<and> flags AND PTE_W \<noteq> 0"
    using walk_same(1) [OF assms(1,2) _ low_offset [OF assms(3)]] assms(6) by metis
qed (rule assms(4,5))+

lemma readable_low:
  assumes "tables_ok m pt t1 t2 ts" "clear_of_tables D pt t1 t2 ts" "unat va + n \<le> 0x400000"
    and "g ` {..<n} \<inter> D = {}"
    and "\<And>i. i < n \<Longrightarrow> \<exists>flags. hw_walk m pt (va + of_nat i) = Some (g i, flags)"
  shows "readable D m pt va n g"
  unfolding readable_def
proof (intro conjI allI impI)
  fix m' i assume "same_outside D m m'" "i < n"
  then show "\<exists>flags. hw_walk m' pt (va + of_nat i) = Some (g i, flags)"
    using walk_same(1) [OF assms(1,2) _ low_offset [OF assms(3)]] assms(5) by metis
qed (rule assms(4))

section \<open>Installing a page table again\<close>

text \<open>What \<^verbatim>\<open>set_pagetable\<close> asserts.\<close>

definition installable :: "kstate \<Rightarrow> addr \<Rightarrow> bool" where
  "installable s pt \<longleftrightarrow> PAGEOFFSET pt = 0 \<and>
     va_pa (virtual_memory_lookup (pmem s) pt (default_int_handler_at (img s))) = default_int_handler_at (img s) \<and>
     va_pa (virtual_memory_lookup (pmem s) (kernel_pagetable s) pt) = pt \<and>
     va_pa (virtual_memory_lookup (pmem s) pt (kernel_pagetable s)) = kernel_pagetable s \<and>
     va_pa (virtual_memory_lookup (pmem s) pt (virtual_memory_map_at (img s))) = virtual_memory_map_at (img s)"

lemma installable_set: "installable s pt \<Longrightarrow> set_pagetable pt s = Inr ((), s\<lparr>cr3 := pt\<rparr>)"
  by (simp add: installable_def set_pagetable_def Let_def lcr3_def)

text \<open>A process's and the kernel's page table, with \<open>D\<close> outside both.\<close>

definition two_tables :: "addr set \<Rightarrow> kstate \<Rightarrow> addr \<Rightarrow> bool" where
  "two_tables D s pt \<longleftrightarrow>
     (\<exists>t1 t2 ts. tables_ok (pmem s) pt t1 t2 ts \<and> clear_of_tables D pt t1 t2 ts) \<and>
     (\<exists>t1 t2 ts. tables_ok (pmem s) (kernel_pagetable s) t1 t2 ts \<and> clear_of_tables D (kernel_pagetable s) t1 t2 ts)"

lemma two_tables_low:
  assumes "two_tables D s pt" shows "unat pt < 0x400000" "unat (kernel_pagetable s) < 0x400000"
  using assms unfolding two_tables_def tables_ok_def by (auto dest: table_page_nat)

lemma installable_same:
  assumes i: "installable s pt'" "pt' = pt \<or> pt' = kernel_pagetable s" and t: "two_tables D s pt"
    and link: "link_ok (img s)" and m: "same_outside D (pmem s) m"
  shows "installable (s\<lparr>pmem := m, cr3 := c\<rparr>) pt'"
proof -
  have L: "virtual_memory_lookup m q x = virtual_memory_lookup (pmem s) q x"
    if "q = pt \<or> q = kernel_pagetable s" "unat x < 0x400000" for q x
    using that t walk_same(2) [OF _ _ m] unfolding two_tables_def by blast
  have "unat (default_int_handler_at (img s)) < 0x400000" "unat (virtual_memory_map_at (img s)) < 0x400000"
    using link by (simp_all add: link_ok_def)
  moreover have "unat pt' < 0x400000" using i(2) two_tables_low [OF t] by auto
  ultimately show ?thesis using i two_tables_low [OF t] by (simp add: installable_def L)
qed

section \<open>One segment\<close>

lemma copy_segment_steps:
  assumes "set_pagetable (p_pagetable (processes s ! p)) s = Inr ((), t)"
    "kmemcpy (unat (end_file - va)) va source t = Inr ((), u)"
    "kmemset (unat (end_mem - end_file)) end_file 0 u = Inr ((), v)"
    "set_pagetable (kernel_pagetable v) v = Inr ((), w)"
  shows "copy_segment p va source end_file end_mem s = Inr ((), w)"
  using assms by (simp add: copy_segment_def)

text \<open>The two halves of a writable range.\<close>

lemma writable_first: "writable D m pt va n f \<Longrightarrow> k \<le> n \<Longrightarrow> writable D m pt va k f"
  by (auto simp: writable_def inj_on_def)

lemma writable_rest:
  assumes "writable D m pt va n f" "same_outside D m m'" "k \<le> n"
  shows "writable D m' pt (va + of_nat k) (n - k) (\<lambda>i. f (k + i))"
  unfolding writable_def
proof (intro conjI allI impI)
  fix m'' i assume i: "same_outside D m' m''" "i < n - k"
  have "\<exists>flags. hw_walk m'' pt (va + of_nat (k + i)) = Some (f (k + i), flags) \<and> flags AND PTE_W \<noteq> 0"
  proof -
    have "k + i < n" using i(2) by simp
    then show ?thesis using assms(1) same_outside_trans [OF assms(2) i(1)] unfolding writable_def by blast
  qed
  then show "\<exists>flags. hw_walk m'' pt (va + of_nat k + of_nat i) = Some (f (k + i), flags) \<and> flags AND PTE_W \<noteq> 0"
    by (simp only: of_nat_add add.assoc)
next
  have inj: "inj_on f {..<n}" using assms(1) by (simp add: writable_def)
  show "inj_on (\<lambda>i. f (k + i)) {..<n - k}"
  proof (rule inj_onI)
    fix x y assume "x \<in> {..<n - k}" "y \<in> {..<n - k}" "f (k + x) = f (k + y)"
    then show "x = y" using inj_onD [OF inj, of "k + x" "k + y"] by simp
  qed
qed (use assms(1,3) in \<open>auto simp: writable_def\<close>)


section \<open>A concrete segment\<close>

lemma walk_identity:
  assumes ok: "tables_ok m pt t1 t2 ts" and x: "unat x < 0x400000"
    and look: "virtual_memory_lookup m pt x = mapped_to x pwu"
  shows "\<exists>flags. hw_walk m pt x = Some (x, flags) \<and> flags AND PTE_W \<noteq> 0"
proof -
  let ?e = "read64 m (ent ts (unat x div 4096))"
  have v: "vam_of ?e x = mapped_to x pwu" using look lookup_low [OF ok x] by simp
  then have e: "PTE_ADDR ?e + PAGEOFFSET x = x" "PTE_FLAGS ?e = pwu"
    by (simp_all add: vam_of_def mapped_to_def split: if_splits)
  have "?e AND 7 = (?e AND 0xFFF) AND 7" by (simp only: and.assoc) simp
  then have "?e AND pwu = pwu" using e(2) by (simp add: PTE_FLAGS_def pwu_eq)
  then obtain flags where w: "hw_walk m pt x = Some (x, flags)" "flags AND pwu = pwu"
    using walk_low [OF ok x refl] e(1) by auto
  have "flags AND PTE_W = (flags AND 7) AND PTE_W" by (simp only: and.assoc) (simp add: PTE_W_def)
  then have "flags AND PTE_W \<noteq> 0" using w(2) by (simp add: pwu_eq PTE_W_def)
  then show ?thesis using w(1) by blast
qed

text \<open>The kernel just after \<^verbatim>\<open>virtual_memory_init\<close>, with process 0 on the kernel's page table.\<close>

lemma loading_state:
  obtains s :: kstate where "processes s ! 0 = zero_proc\<lparr>p_pagetable := 0x50000\<rparr>" "kernel_pagetable s = 0x50000"
    "img s = sample_image" "tables_ok (pmem s) 0x50000 0x51000 0x52000 (0x53000, 0x54000)"
    "\<And>x. unat x < 0x200000 \<Longrightarrow> virtual_memory_lookup (pmem s) 0x50000 x = mapped_to x pwu"
proof -
  let ?b = "boot_state sample_image (\<lambda>n p. 0) (\<lambda>a. 0)"
  have im: "img ?b = sample_image" by (simp add: boot_state_def)
  have k: "kernel_pagetables_at (img ?b) = 0x50000" "unat (default_int_handler_at (img ?b)) < 0x200000"
    "unat (virtual_memory_map_at (img ?b)) < 0x200000" by (simp_all add: im) (simp_all add: sample_image_def)
  obtain m where m: "tables_ok m 0x50000 (0x50000 + PAGESIZE) (0x50000 + 2 * PAGESIZE) (0x50000 + 3 * PAGESIZE, 0x50000 + 4 * PAGESIZE)"
    "\<And>x. unat x < 0x400000 \<Longrightarrow> virtual_memory_lookup m 0x50000 x = (if unat x < 0x200000 then mapped_to x pwu else unmapped)"
    using virtual_memory_init_runs [of ?b] k unfolding aligned_def by auto
  let ?s = "?b\<lparr>pmem := m, kernel_pagetable := 0x50000, processes := [zero_proc\<lparr>p_pagetable := 0x50000\<rparr>]\<rparr>"
  show ?thesis
    by (rule that [of ?s]) (use m in \<open>simp_all add: im PAGESIZE_def\<close>)
qed


end
