(* ===== verification/Heap_Walk.thy ===== *)
theory Heap_Walk
  imports Heap_Sort Heap_Defrag
begin

text \<open>
  The two walks of \<^verbatim>\<open>heap_info\<close> over a heap in memory: counting the blocks in use, and filling
  the two arrays while totalling the free blocks, against the list of blocks.
\<close>

section \<open>Arrays of 64-bit values\<close>

lemma read64_cong_nat:
  assumes "p + 8 \<le> 2 ^ 64" "\<And>x. p \<le> x \<Longrightarrow> x < p + 8 \<Longrightarrow> m' (of_nat x) = m (of_nat x)"
  shows "read64 m' (of_nat p) = read64 m (of_nat p)"
proof (rule read64_cong)
  fix b :: addr assume "b \<in> region (of_nat p) 8"
  then have "p \<le> unat b \<and> unat b < p + 8" using region_offset [of b p 8] assms(1) by force
  from assms(2) [of "unat b"] this show "m' b = m b" by simp
qed

lemma write64_nat_other:
  assumes "x < 2 ^ 64" "p + 8 \<le> 2 ^ 64" "x < p \<or> p + 8 \<le> x"
  shows "write64 m (of_nat p) v (of_nat x) = m (of_nat x)"
  using assms region_of_nat [of p 8 x] by (intro write64_other) auto

lemma slot: "(of_nat p :: addr) + 8 * of_nat i = of_nat (p + 8 * i)"
  by simp

lemma load64s_Suc: "load64s m p (Suc n) = load64s m p n @ [read64 m (p + 8 * of_nat n)]"
  by (simp add: load64s_def)

lemma load64s_Cons: "load64s m p (Suc n) = read64 m p # load64s m (p + 8) n"
  by (simp add: load64s_def map_upt_Suc add.assoc del: upt_Suc)

lemma length_load64s [simp]: "length (load64s m p n) = n"
  by (simp add: load64s_def)

lemma load64s_cong:
  assumes "p + 8 * n \<le> 2 ^ 64" "\<And>x. p \<le> x \<Longrightarrow> x < p + 8 * n \<Longrightarrow> m' (of_nat x) = m (of_nat x)"
  shows "load64s m' (of_nat p) n = load64s m (of_nat p) n"
proof -
  have "read64 m' (of_nat (p + 8 * i)) = read64 m (of_nat (p + 8 * i))" if "i < n" for i
    using assms that by (intro read64_cong_nat) auto
  then show ?thesis by (simp add: load64s_def)
qed

lemma store64s_other:
  assumes "x < 2 ^ 64" "p + 8 * length xs \<le> 2 ^ 64" "x < p \<or> p + 8 * length xs \<le> x"
  shows "store64s m (of_nat p) xs (of_nat x) = m (of_nat x)"
  using assms
proof (induction xs arbitrary: m p)
  case (Cons v xs)
  have "store64s (write64 m (of_nat p) v) (of_nat (p + 8)) xs (of_nat x) = write64 m (of_nat p) v (of_nat x)"
    using Cons.prems by (intro Cons.IH) auto
  moreover have "write64 m (of_nat p) v (of_nat x) = m (of_nat x)"
    using Cons.prems by (intro write64_nat_other) auto
  ultimately show ?case by (simp add: add.commute)
qed simp

lemma load_store64s:
  "p + 8 * length xs \<le> 2 ^ 64 \<Longrightarrow> load64s (store64s m (of_nat p) xs) (of_nat p) (length xs) = xs"
proof (induction xs arbitrary: m p)
  case (Cons v xs)
  let ?m = "store64s (write64 m (of_nat p) v) (of_nat (p + 8)) xs"
  have "load64s ?m (of_nat (p + 8)) (length xs) = xs" using Cons.prems by (intro Cons.IH) simp
  moreover have "read64 ?m (of_nat p) = read64 (write64 m (of_nat p) v) (of_nat p)"
    using Cons.prems by (intro read64_cong_nat store64s_other) auto
  ultimately show ?case
    by (simp add: load64s_Cons add.commute)
qed (simp add: load64s_def)

section \<open>Counting\<close>

text \<open>The payload size and address of each block in use.\<close>

primrec used_pairs :: "nat \<Rightarrow> blk list \<Rightarrow> pair list" where
  "used_pairs a [] = []"
| "used_pairs a (b # bs) =
     (case b of Used n sl \<Rightarrow> [(of_nat (n - 8 - sl), of_nat (a + 8))] | _ \<Rightarrow> []) @ used_pairs (a + bsize b) bs"

primrec largest_free :: "blk list \<Rightarrow> nat" where
  "largest_free [] = 0"
| "largest_free (b # bs) = max (if is_free b then bsize b else 0) (largest_free bs)"

text \<open>One step of a walk: the cursor is below the end and moves to the next block.\<close>

lemma walk_step:
  assumes "layout m a (b # bs)" "list_all wf_blk (b # bs)" "unat heap_end = a + bsizes (b # bs)"
  shows "(of_nat a :: u64) < heap_end" "(of_nat a :: u64) + ucast (h_size m (of_nat a)) = of_nat (a + bsize b)"
proof -
  have w: "16 \<le> bsize b" "block_at m a b" using assms(1,2) wf_blk_size [of b] by auto
  show "(of_nat a :: u64) < heap_end" using w assms(3) by (simp add: cursor_less [of heap_end a "bsizes (b # bs)"])
  show "(of_nat a :: u64) + ucast (h_size m (of_nat a)) = of_nat (a + bsize b)"
    using w assms(3) unat_u64_less [of heap_end] by (intro next_header) auto
qed

lemma walk_end: "unat heap_end = a \<Longrightarrow> \<not> (of_nat a :: u64) < heap_end"
  by (simp add: cursor_less [of heap_end a 0])

lemma count_used_spec:
  assumes "layout m a bs" "list_all wf_blk bs" "unat heap_end = a + bsizes bs"
  shows "count_used m heap_end (of_nat a) n = Some (n + length (used_pairs a bs))"
  using assms
proof (induction bs arbitrary: a n)
  case Nil
  then show ?case using walk_end [of heap_end a] by (subst count_used.simps) simp
next
  case (Cons b bs)
  note W = walk_step [OF Cons.prems]
  have u: "h_state m (of_nat a) = BLOCK_USED \<longleftrightarrow> (\<exists>k sl. b = Used k sl)"
    using Cons.prems(1) by (intro block_at_used_iff) simp
  have IH: "count_used m heap_end (of_nat (a + bsize b)) n = Some (n + length (used_pairs (a + bsize b) bs))" for n
    using Cons.prems by (intro Cons.IH) auto
  show ?case
    by (subst count_used.simps, simp only: W if_True IH) (auto simp: u split: blk.splits)
qed

section \<open>Filling the arrays\<close>

text \<open>Two arrays of \<open>N\<close> entries that do not overlap.\<close>

definition apart :: "nat \<Rightarrow> nat \<Rightarrow> nat \<Rightarrow> bool" where
  "apart N p q \<longleftrightarrow> p + 8 * N < 2 ^ 31 \<and> q + 8 * N < 2 ^ 31 \<and> (p + 8 * N \<le> q \<or> q + 8 * N \<le> p)"

definition outside :: "nat \<Rightarrow> nat \<Rightarrow> nat \<Rightarrow> nat \<Rightarrow> bool" where
  "outside N p q x \<longleftrightarrow> x < 2 ^ 64 \<and> (x < p \<or> p + 8 * N \<le> x) \<and> (x < q \<or> q + 8 * N \<le> x)"

definition fill_slot :: "mem \<Rightarrow> nat \<Rightarrow> nat \<Rightarrow> nat \<Rightarrow> u64 \<Rightarrow> u64 \<Rightarrow> mem" where
  "fill_slot m p q i v w = write64 (write64 m (of_nat p + 8 * of_nat i) v) (of_nat q + 8 * of_nat i) w"

lemma fill_slot_arrays:
  assumes "apart N p q" "i < N"
  shows "load64s (fill_slot m p q i v w) (of_nat p) (Suc i) = load64s m (of_nat p) i @ [v]"
    "load64s (fill_slot m p q i v w) (of_nat q) (Suc i) = load64s m (of_nat q) i @ [w]"
    "outside N p q x \<Longrightarrow> fill_slot m p q i v w (of_nat x) = m (of_nat x)"
proof -
  let ?m1 = "write64 m (of_nat (p + 8 * i)) v" and ?m = "fill_slot m p q i v w"
  have m: "?m = write64 ?m1 (of_nat (q + 8 * i)) w" by (simp add: fill_slot_def)
  have ap: "p + 8 * N < 2 ^ 31" "q + 8 * N < 2 ^ 31" "p + 8 * N \<le> q \<or> q + 8 * N \<le> p"
    using assms(1) by (simp_all add: apart_def)
  have o1: "?m1 (of_nat x) = m (of_nat x)" if "x < 2 ^ 64" "x < p + 8 * i \<or> p + 8 * i + 8 \<le> x" for x
    using that ap assms(2) by (intro write64_nat_other) auto
  have o2: "?m (of_nat x) = ?m1 (of_nat x)" if "x < 2 ^ 64" "x < q + 8 * i \<or> q + 8 * i + 8 \<le> x" for x
    unfolding m using that ap assms(2) by (intro write64_nat_other) auto
  have "load64s ?m (of_nat p) i = load64s ?m1 (of_nat p) i"
    using ap assms(2) by (intro load64s_cong o2) auto
  also have "\<dots> = load64s m (of_nat p) i" using ap assms(2) by (intro load64s_cong o1) auto
  finally have "load64s ?m (of_nat p) i = load64s m (of_nat p) i" .
  moreover have "read64 ?m (of_nat (p + 8 * i)) = read64 ?m1 (of_nat (p + 8 * i))"
    using ap assms(2) by (intro read64_cong_nat o2) auto
  ultimately show "load64s ?m (of_nat p) (Suc i) = load64s m (of_nat p) i @ [v]"
    by (simp add: load64s_Suc)
  have "load64s ?m (of_nat q) i = load64s ?m1 (of_nat q) i"
    using ap assms(2) by (intro load64s_cong o2) auto
  also have "\<dots> = load64s m (of_nat q) i" using ap assms(2) by (intro load64s_cong o1) auto
  finally show "load64s ?m (of_nat q) (Suc i) = load64s m (of_nat q) i @ [w]"
    by (simp add: load64s_Suc m)
  show "?m (of_nat x) = m (of_nat x)" if "outside N p q x"
    using that o1 [of x] o2 [of x] assms(2) by (auto simp: outside_def)
qed

lemma entry_value:
  assumes "block_at m a (Used n sl)" "wf_blk (Used n sl)" "n < 2 ^ 31"
  shows "(ucast (h_size m (of_nat a)) - sizeof_header - ucast (h_slop m (of_nat a)) :: u64) = of_nat (n - 8 - sl)"
proof (rule word_eq_unatI)
  have s: "unat (h_size m (of_nat a)) = n" "unat (h_slop m (of_nat a)) = sl"
    using assms(1) by (simp_all add: block_at_def Let_def)
  moreover have "16 \<le> n" "sl + 8 < n" using assms(2) by simp_all
  ultimately have "unat (ucast (h_size m (of_nat a)) - sizeof_header - ucast (h_slop m (of_nat a)) :: u64) = n - 8 - sl"
    by (simp add: sizeof_header_def to_nat)
  moreover have "unat (of_nat (n - 8 - sl) :: u64) = n - 8 - sl"
    using assms(3) by (intro unat_of_nat64) simp
  ultimately show "unat (ucast (h_size m (of_nat a)) - sizeof_header - ucast (h_slop m (of_nat a)) :: u64) =
      unat (of_nat (n - 8 - sl) :: u64)" by simp
qed

lemma info_walk_spec:
  assumes "layout m a bs" "list_all wf_blk bs" "unat heap_end = a + bsizes bs" "a + bsizes bs < 2 ^ 31"
    and "apart N p q" "\<And>x. x \<in> hdrs a bs \<Longrightarrow> outside N p q x" "i + length (used_pairs a bs) \<le> N" "0 \<le> largest"
  shows "\<exists>m'. info_walk m heap_end (of_nat a) (of_nat p) (of_nat q) i space largest =
      Some (m', i + length (used_pairs a bs), space + int (free_total bs), max largest (int (largest_free bs))) \<and>
    load64s m' (of_nat p) (i + length (used_pairs a bs)) = load64s m (of_nat p) i @ map fst (used_pairs a bs) \<and>
    load64s m' (of_nat q) (i + length (used_pairs a bs)) = load64s m (of_nat q) i @ map snd (used_pairs a bs) \<and>
    (\<forall>x. outside N p q x \<longrightarrow> m' (of_nat x) = m (of_nat x))"
  using assms
proof (induction bs arbitrary: m a i space largest)
  case Nil
  then show ?case using walk_end [of heap_end a] by (subst info_walk.simps) (simp add: free_total_def)
next
  case (Cons b bs)
  note W = walk_step [OF Cons.prems(1-3)]
  have at: "block_at m a b" and lay: "layout m (a + bsize b) bs" and wf: "list_all wf_blk bs" "wf_blk b"
    and e: "unat heap_end = a + bsize b + bsizes bs" "a + bsize b + bsizes bs < 2 ^ 31"
    and h: "\<And>x. x \<in> hdrs (a + bsize b) bs \<Longrightarrow> outside N p q x"
    using Cons.prems by auto
  have st: "h_state m (of_nat a) = BLOCK_USED \<longleftrightarrow> (\<exists>k sl. b = Used k sl)"
    "h_state m (of_nat a) = BLOCK_FREE \<longleftrightarrow> (\<exists>k. b = Free k)"
    using at by (simp_all add: block_at_used_iff block_at_free_iff)
  show ?case
  proof (cases b)
    case (Used n sl)
    let ?m = "fill_slot m p q i (of_nat (n - 8 - sl)) (of_nat (a + 8))"
    have i: "i < N" using Cons.prems(7) Used by simp
    have same: "?m (of_nat x) = m (of_nat x)" if "x \<in> hdrs a (b # bs)" for x
      using fill_slot_arrays(3) [OF Cons.prems(5) i] Cons.prems(6) that by blast
    have lay': "layout ?m a (b # bs)"
      by (rule layout_cong [OF Cons.prems(1) _ Cons.prems(2) same]) (use Cons.prems(4) in simp_all)
    have v: "(ucast (h_size m (of_nat a)) - sizeof_header - ucast (h_slop m (of_nat a)) :: u64) = of_nat (n - 8 - sl)"
      using at wf(2) e(2) Used by (intro entry_value) auto
    have pay: "payload_of (of_nat a) = (of_nat (a + 8) :: addr)" by (simp add: payload_of_def sizeof_header_def)
    have step: "info_walk m heap_end (of_nat a) (of_nat p) (of_nat q) i space largest =
        info_walk ?m heap_end (of_nat (a + bsize b)) (of_nat p) (of_nat q) (i + 1) space largest"
      using walk_step(2) [OF lay' Cons.prems(2,3)] W(1) st(1) Used v pay
      by (subst info_walk.simps) (simp add: Let_def fill_slot_def)
    have "i + 1 + length (used_pairs (a + bsize b) bs) \<le> N" using Cons.prems(7) Used by simp
    from Cons.IH [of ?m "a + bsize b" "i + 1" largest space, OF _ wf(1) e Cons.prems(5) h this Cons.prems(8)] lay'
    show ?thesis unfolding step using fill_slot_arrays [OF Cons.prems(5) i] Used
      by (auto simp: free_total_def)
  next
    case (Free n)
    have "uint (h_size m (of_nat a)) = int n" "n < 2 ^ 31"
      using block_at_size [OF at] e(2) Free by (simp_all add: uint_nat)
    then have "sint (h_size m (of_nat a)) = int n" using sint_small [of "h_size m (of_nat a)"] by simp
    then have step: "info_walk m heap_end (of_nat a) (of_nat p) (of_nat q) i space largest =
        info_walk m heap_end (of_nat (a + bsize b)) (of_nat p) (of_nat q) i (space + int n) (max largest (int n))"
      using W st Free by (subst info_walk.simps) (simp add: Let_def max_def)
    have "i + length (used_pairs (a + bsize b) bs) \<le> N" using Cons.prems(7) Free by simp
    from Cons.IH [OF lay wf(1) e Cons.prems(5) h this, of "max largest (int n)" "space + int n"] Cons.prems(8)
    show ?thesis unfolding step using Free by (auto simp: free_total_def max.assoc add.assoc of_nat_max)
  next
    case (Internal n sl)
    have step: "info_walk m heap_end (of_nat a) (of_nat p) (of_nat q) i space largest =
        info_walk m heap_end (of_nat (a + bsize b)) (of_nat p) (of_nat q) i space largest"
      using W st Internal by (subst info_walk.simps) (simp add: Let_def)
    have "i + length (used_pairs (a + bsize b) bs) \<le> N" using Cons.prems(7) Internal by simp
    from Cons.IH [OF lay wf(1) e Cons.prems(5) h this Cons.prems(8), of space]
    show ?thesis unfolding step using Internal by (auto simp: free_total_def)
  qed
qed

end
