(* ===== verification/Heap_Arrays.thy ===== *)
theory Heap_Arrays
  imports Heap_Props
begin

text \<open>
  The arrays that a client of the allocator holds: live pointers and the bytes the client asked for,
  as the blocks and the memory of a heap represent them; and what each function of \<^verbatim>\<open>malloc.c\<close> does to
  them, with the list of blocks in sight.
\<close>

section \<open>The store\<close>

type_synonym store = "addr \<rightharpoonup> u8 list"

text \<open>A non-null, 8-aligned pointer whose \<open>n\<close> bytes are in no live array.\<close>

definition fresh_at :: "store \<Rightarrow> addr \<Rightarrow> nat \<Rightarrow> bool" where
  "fresh_at L p n \<longleftrightarrow> p \<noteq> NULL \<and> 8 dvd unat p \<and> unat p + n < 2 ^ 31 \<and>
     (\<forall>q old. L q = Some old \<longrightarrow> unat p + n \<le> unat q \<or> unat q + length old \<le> unat p)"

definition holds :: "kstate heap \<Rightarrow> blk list \<Rightarrow> addr \<Rightarrow> u8 list \<Rightarrow> bool" where
  "holds s bs p old \<longleftrightarrow> old \<noteq> [] \<and>
     (\<exists>n sl. blk_at (ubase s) bs (unat p) (Used n sl) \<and> length old + 8 + sl \<le> n) \<and>
     (\<forall>i < length old. umem s (of_nat (unat p + i)) = old ! i)"

definition arrays :: "store \<Rightarrow> kstate heap \<Rightarrow> blk list \<Rightarrow> bool" where
  "arrays L s bs \<longleftrightarrow> uheap_ok s bs \<and> (\<forall>p old. L p = Some old \<longrightarrow> holds s bs p old)"

lemma arraysD: "arrays L s bs \<Longrightarrow> uheap_ok s bs" "arrays L s bs \<Longrightarrow> L p = Some old \<Longrightarrow> holds s bs p old"
  by (simp_all add: arrays_def)

lemma arrays_empty [simp]: "arrays Map.empty s bs \<longleftrightarrow> uheap_ok s bs"
  by (simp add: arrays_def)

section \<open>Blocks and their neighbours\<close>

lemma blk_at_hdr: "blk_at a bs p b \<Longrightarrow> p - 8 \<in> hdrs a bs"
  by (induction bs arbitrary: a) (auto simp: hdr_def)

lemma payloads_apart:
  assumes "blk_at a bs p b" "blk_at a bs q c" "p \<noteq> q" "list_all wf_blk bs"
  shows "p + (bsize b - 8) \<le> q \<or> q + (bsize c - 8) \<le> p"
proof -
  obtain pre post where bs: "bs = pre @ b # post" and p: "p = a + bsizes pre + 8"
    using blk_at_split [OF assms(1)] by blast
  have w: "16 \<le> bsize b" "list_all wf_blk pre" using assms(4) wf_blk_size [of b] by (simp_all add: bs)
  consider "blk_at a pre q c" | "blk_at (a + bsizes pre + bsize b) post q c"
    using assms(2,3) by (auto simp: bs p)
  then show ?thesis
  proof cases
    case 1
    then show ?thesis using kb.blk_at_less [OF 1 w(2)] p by simp
  next
    case 2
    then show ?thesis using kb.blk_at_ge [OF 2] p w(1) by simp
  qed
qed

lemma bsize_free_blk [simp]: "bsize (free_blk b) = bsize b"
  by (cases b) (simp_all add: free_blk.simps)

lemma bsizes_free_blk: "bsizes (set_blk free_blk p a bs) = bsizes bs"
  by (induction bs arbitrary: a) simp_all

lemma set_blk_keeps: "blk_at a bs q b \<Longrightarrow> q \<noteq> p \<Longrightarrow> blk_at a (set_blk free_blk p a bs) q b"
  by (induction bs arbitrary: a) auto

section \<open>Arrays in a heap\<close>

lemma holds_payload:
  assumes "holds s bs p old" "list_all wf_blk bs" "i < length old"
  shows "unat p + i \<in> busy (ubase s) bs" "unat p + i \<notin> hdrs (ubase s) bs"
proof -
  obtain n sl where b: "blk_at (ubase s) bs (unat p) (Used n sl)" "length old + 8 + sl \<le> n"
    using assms(1) by (auto simp: holds_def)
  show "unat p + i \<in> busy (ubase s) bs" using b assms(3) by (intro payload_busy [OF b(1) _ assms(2)]) auto
  show "unat p + i \<notin> hdrs (ubase s) bs" using b assms(3) by (intro payload_not_hdr [OF b(1) assms(2)]) auto
qed

text \<open>An array is kept when its block stays and its bytes do.\<close>

lemma holds_keep:
  assumes "holds s bs p old" "ubase s' = ubase s"
    and "\<And>n sl. blk_at (ubase s) bs (unat p) (Used n sl) \<Longrightarrow> blk_at (ubase s) bs' (unat p) (Used n sl)"
    and "\<And>i. i < length old \<Longrightarrow> umem s' (of_nat (unat p + i)) = umem s (of_nat (unat p + i))"
  shows "holds s' bs' p old"
  using assms unfolding holds_def by metis

lemma bytes_at_apart:
  assumes "{q - 8..<q + (n - 8)} \<inter> busy (ubase s) bs = {}" "k + 8 \<le> n" "0 < k"
    and "holds s bs p old" "list_all wf_blk bs"
  shows "q + k \<le> unat p \<or> unat p + length old \<le> q"
proof (rule ccontr)
  assume over: "\<not> (q + k \<le> unat p \<or> unat p + length old \<le> q)"
  have old: "old \<noteq> []" using assms(4) by (simp add: holds_def)
  obtain i where i: "i < length old" "q \<le> unat p + i" "unat p + i < q + k"
  proof (cases "unat p < q")
    case True
    then show ?thesis using that [of "q - unat p"] over assms(3) by simp
  next
    case False
    then show ?thesis using that [of 0] over old by simp
  qed
  have "unat p + i \<in> busy (ubase s) bs" using holds_payload(1) [OF assms(4,5) i(1)] .
  moreover have "unat p + i \<in> {q - 8..<q + (n - 8)}" using i assms(2) by (simp, linarith)
  ultimately show False using assms(1) by blast
qed

definition bytes_at :: "mem \<Rightarrow> nat \<Rightarrow> nat \<Rightarrow> u8 list" where
  "bytes_at m p n = map (\<lambda>i. m (of_nat (p + i))) [0..<n]"

lemma bytes_at_simps [simp]:
  "length (bytes_at m p n) = n" "i < n \<Longrightarrow> bytes_at m p n ! i = m (of_nat (p + i))"
  by (simp_all add: bytes_at_def)

text \<open>The block of a successful allocation, in the heap \<open>bs''\<close> that the call leaves.\<close>

lemma fresh_block:
  assumes A: "arrays L s bs"
    and sp: "spec_malloc break_limit (ubase s) bs sz = (Some q, bs')"
    and ok': "uheap_ok s' bs''" "ubase s' = ubase s"
    and keep: "\<And>n sl. blk_at (ubase s) bs' q (Used n sl) \<Longrightarrow> {q - 8..<q + (n - 8)} \<inter> busy (ubase s) bs = {} \<Longrightarrow>
      sz + 8 + sl \<le> n \<Longrightarrow> blk_at (ubase s) bs'' q (Used n sl)"
  obtains n sl where "blk_at (ubase s) bs'' q (Used n sl)" "sz + 8 + sl \<le> n" "sz \<noteq> 0"
    "fresh_at L (of_nat q) sz" "unat (of_nat q :: addr) = q"
proof -
  note ok = arraysD(1) [OF A] and L = arraysD(2) [OF A]
  note W = kb.heap_ok_layout [OF ok] and W' = kb.heap_ok_layout [OF ok'(1)]
  obtain n sl where f: "blk_at (ubase s) bs' q (Used n sl)" "sz + 8 + sl \<le> n"
    "{q - 8..<q + (n - 8)} \<inter> busy (ubase s) bs = {}" "8 dvd q - ubase s" "ubase s + 8 \<le> q"
    using spec_malloc_fresh [OF sp W(2)] by blast
  have sz: "sz \<noteq> 0" using sp by (cases "sz = 0") (auto simp: spec_malloc_def)
  have b: "blk_at (ubase s') bs'' q (Used n sl)" using keep [OF f(1,3,2)] ok'(2) by simp
  note Q = kb.blk_at_ptr [OF ok'(1) b]
  have u: "unat (of_nat q :: addr) = q" using Q(2) by (simp add: unat_of_nat64)
  have "8 dvd q"
  proof -
    have "8 dvd ubase s" using ok by (simp add: heap_ok_def)
    then show ?thesis using f(4,5) by (metis dvd_diffD1 dvd_diffD le_add1 le_trans)
  qed
  moreover have "q + sz < 2 ^ 31" using kb.blk_at_less [OF b W'(2)] W'(3) f(2) by simp
  moreover have "q + sz \<le> unat p \<or> unat p + length old \<le> q" if "L p = Some old" for p old
    using f(2) sz by (intro bytes_at_apart [OF f(3) _ _ L [OF that] W(2)]) auto
  ultimately have "fresh_at L (of_nat q) sz" using Q(1) u by (simp add: fresh_at_def)
  then show thesis using that b ok'(2) f(2) sz u by simp
qed

lemma holds_bytes_at:
  assumes "blk_at (ubase s) bs (unat r) (Used n sl)" "k + 8 + sl \<le> n" "k \<noteq> 0"
  shows "holds s bs r (bytes_at (umem s) (unat r) k)"
proof -
  have "bytes_at (umem s) (unat r) k \<noteq> []" using assms(3) by (simp flip: length_greater_0_conv)
  moreover have "\<exists>n sl. blk_at (ubase s) bs (unat r) (Used n sl) \<and> length (bytes_at (umem s) (unat r) k) + 8 + sl \<le> n"
    using assms by auto
  ultimately show ?thesis by (simp add: holds_def)
qed

section \<open>Each function\<close>

lemma arrays_alloc:
  assumes A: "arrays L s bs"
    and post: "alloc_post cur_break user_ok s bs (spec_malloc break_limit (ubase s) bs sz) (r, s')"
  shows "ubase s' = ubase s"
    "r = NULL \<and> arrays L s' bs \<or> sz \<noteq> 0 \<and> fresh_at L r sz \<and>
      arrays (L(r \<mapsto> bytes_at (umem s') (unat r) sz)) s' (snd (spec_malloc break_limit (ubase s) bs sz))"
proof -
  obtain res bs' where sp: "spec_malloc break_limit (ubase s) bs sz = (res, bs')" by fastforce
  have P: "r = (case res of None \<Rightarrow> NULL | Some p \<Rightarrow> of_nat p)" "uheap_ok s' bs'" "ubase s' = ubase s"
    "\<And>x. x \<in> busy (ubase s) bs \<Longrightarrow> umem s' (of_nat x) = umem s (of_nat x)"
    using post by (auto simp: alloc_post_def sp)
  note ok = arraysD(1) [OF A] and H = arraysD(2) [OF A]
  note W = kb.heap_ok_layout [OF ok]
  have keep: "holds s' bs' p old" if "L p = Some old" for p old
  proof (rule holds_keep [OF H [OF that] P(3)])
    show "blk_at (ubase s) bs' (unat p) (Used n sl)" if "blk_at (ubase s) bs (unat p) (Used n sl)" for n sl
      using spec_malloc_keeps [OF that, of break_limit sz] by (simp add: sp)
    show "umem s' (of_nat (unat p + i)) = umem s (of_nat (unat p + i))" if "i < length old" for i
      using holds_payload(1) [OF H [OF \<open>L p = Some old\<close>] W(2) that] by (rule P(4))
  qed
  show "ubase s' = ubase s" by (rule P(3))
  show "r = NULL \<and> arrays L s' bs \<or> sz \<noteq> 0 \<and> fresh_at L r sz \<and>
      arrays (L(r \<mapsto> bytes_at (umem s') (unat r) sz)) s' (snd (spec_malloc break_limit (ubase s) bs sz))"
  proof (cases res)
    case None
    then have "bs' = bs" using sp by (auto simp: spec_malloc_def Let_def split: if_splits option.splits)
    then show ?thesis using None keep P(1,2) by (simp add: arrays_def)
  next
    case (Some p)
    obtain n sl where f: "blk_at (ubase s) bs' p (Used n sl)" "sz + 8 + sl \<le> n" "sz \<noteq> 0"
      "fresh_at L (of_nat p) sz" "unat (of_nat p :: addr) = p"
      by (rule fresh_block [OF A sp [unfolded Some] P(2,3)])
    have r: "r = of_nat p" using P(1) Some by simp
    have "holds s' bs' r (bytes_at (umem s') (unat r) sz)"
      using f by (intro holds_bytes_at) (simp_all add: r P(3))
    then show ?thesis using keep P(2) f(3,4) r by (auto simp: arrays_def sp)
  qed
qed

lemma arrays_free:
  assumes A: "arrays L s bs" and p: "p \<in> dom L"
  shows "arrays (L(p := None)) (free s p) (set_blk free_blk (unat p) (ubase s) bs)" "ubase (free s p) = ubase s"
proof -
  note ok = arraysD(1) [OF A] and H = arraysD(2) [OF A]
  note W = kb.heap_ok_layout [OF ok]
  obtain n sl where b: "blk_at (ubase s) bs (unat p) (Used n sl)"
    using p H unfolding holds_def by blast
  note F = kb.free_refines [OF ok b, simplified]
  show "ubase (free s p) = ubase s" by (rule F(3))
  have "holds (free s p) (set_blk free_blk (unat p) (ubase s) bs) q old" if q: "L q = Some old" "q \<noteq> p" for q old
  proof (rule holds_keep [OF H [OF q(1)] F(3)])
    have "unat q \<noteq> unat p" using q(2) by (simp add: word_unat_eq_iff)
    then show "blk_at (ubase s) (set_blk free_blk (unat p) (ubase s) bs) (unat q) (Used m l)"
      if "blk_at (ubase s) bs (unat q) (Used m l)" for m l using set_blk_keeps that by blast
    fix i assume i: "i < length old"
    note P = holds_payload [OF H [OF q(1)] W(2) i]
    have "unat q + i \<noteq> unat p - 8" using P(2) blk_at_hdr [OF b] by auto
    moreover have "unat q + i < 2 ^ 64" using busy_range [OF P(1)] W(3) by simp
    ultimately show "umem (free s p) (of_nat (unat q + i)) = umem s (of_nat (unat q + i))" by (intro F(2)) auto
  qed
  then show "arrays (L(p := None)) (free s p) (set_blk free_blk (unat p) (ubase s) bs)"
    using F(1) by (auto simp: arrays_def)
qed

lemma arrays_defrag:
  assumes A: "arrays L s bs" and i: "initialized s"
  obtains s' where "defrag s = Some s'" "arrays L s' (spec_defrag bs)" "ubase s' = ubase s"
proof -
  note ok = arraysD(1) [OF A] and H = arraysD(2) [OF A]
  note W = kb.heap_ok_layout [OF ok]
  obtain s' where d: "defrag s = Some s'" "uheap_ok s' (spec_defrag bs)" "ubase s' = ubase s"
    "\<forall>x \<in> busy (ubase s) bs. umem s' (of_nat x) = umem s (of_nat x)"
    using kb.defrag_refines [OF ok i] by blast
  have "holds s' (spec_defrag bs) p old" if "L p = Some old" for p old
  proof (rule holds_keep [OF H [OF that] d(3)])
    fix i assume "i < length old"
    then show "umem s' (of_nat (unat p + i)) = umem s (of_nat (unat p + i))"
      using d(4) holds_payload(1) [OF H [OF that] W(2)] by blast
  qed (simp add: blk_at_spec_defrag)
  then show thesis using that d(1-3) by (simp add: arrays_def)
qed

text \<open>Writes inside one array.\<close>

lemma arrays_update:
  assumes A: "arrays L s bs" and p: "L p = Some old"
    and m: "\<And>x. x < 2 ^ 64 \<Longrightarrow> x < unat p \<or> unat p + length old \<le> x \<Longrightarrow> m (of_nat x) = umem s (of_nat x)"
  shows "arrays (L(p \<mapsto> bytes_at m (unat p) (length old))) (s\<lparr>umem := m\<rparr>) bs"
proof -
  let ?s = "s\<lparr>umem := m\<rparr>"
  note ok = arraysD(1) [OF A] and H = arraysD(2) [OF A]
  note W = kb.heap_ok_layout [OF ok]
  obtain n sl where blk: "blk_at (ubase s) bs (unat p) (Used n sl)" "length old + 8 + sl \<le> n" and ne: "old \<noteq> []"
    using H [OF p] by (auto simp: holds_def)
  have "m (of_nat y) = umem s (of_nat y)"
    if "y < 2 ^ 64" "y < unat p \<or> unat p + (bsize (Used n sl) - 8) \<le> y" for y
    using that(2) blk(2) by (intro m [OF that(1)]) auto
  then have "uheap_ok ?s bs" by (rule kb.write_payload [OF ok blk(1)])
  moreover have "holds ?s bs q new" if q: "L q = Some new" "q \<noteq> p" for q new
  proof (rule holds_keep [OF H [OF q(1)]])
    obtain k l where bq: "blk_at (ubase s) bs (unat q) (Used k l)" "length new + 8 + l \<le> k"
      using H [OF q(1)] by (auto simp: holds_def)
    have "unat p \<noteq> unat q" using q(2) by (simp add: word_unat_eq_iff)
    from payloads_apart [OF blk(1) bq(1) this W(2)]
    have out: "unat q + j < unat p \<or> unat p + length old \<le> unat q + j" if "j < length new" for j
      using blk(2) bq(2) that by auto
    fix j assume j: "j < length new"
    have "unat q + j < 2 ^ 64" using busy_range [OF holds_payload(1) [OF H [OF q(1)] W(2) j]] W(3) by simp
    then show "umem ?s (of_nat (unat q + j)) = umem s (of_nat (unat q + j))" using m [OF _ out [OF j]] by simp
  qed simp_all
  moreover have "holds ?s bs p (bytes_at m (unat p) (length old))"
    using holds_bytes_at [of ?s bs p n sl "length old"] blk ne by simp
  ultimately show ?thesis by (simp add: arrays_def)
qed

text \<open>
  \<^verbatim>\<open>realloc\<close> of a live array to a non-zero size: the other arrays, and what becomes of this one.
\<close>

text \<open>Reallocating an array leaves the others: only its own header is written.\<close>

lemma realloc_holds:
  assumes A: "arrays L s bs" and p: "blk_at (ubase s) bs (unat p) (Used n sl)"
    and post: "realloc_post cur_break user_ok s bs (unat p) k spec (r, s')"
    and q: "L q = Some new"
    and b: "\<And>m l. blk_at (ubase s) bs (unat q) (Used m l) \<Longrightarrow> blk_at (ubase s) bs'' (unat q) (Used m l)"
  shows "holds s' bs'' q new"
proof (rule holds_keep [OF arraysD(2) [OF A q] _ b])
  note W = kb.heap_ok_layout [OF arraysD(1) [OF A]]
  show "ubase s' = ubase s" using post by (simp add: realloc_post_def)
  fix i assume "i < length new"
  note P = holds_payload [OF arraysD(2) [OF A q] W(2) this]
  have "unat q + i \<noteq> unat p - 8" using P(2) blk_at_hdr [OF p] by auto
  then show "umem s' (of_nat (unat q + i)) = umem s (of_nat (unat q + i))"
    using post P(1) unfolding realloc_post_def snd_conv by blast
qed

lemma fresh_not_old:
  assumes A: "arrays L s bs" "L p = Some old"
    and sp: "spec_malloc break_limit (ubase s) bs sz = (Some q, bs')"
    and fresh: "{q - 8..<q + (m - 8)} \<inter> busy (ubase s) bs = {}" "sz + 8 + l \<le> m"
  shows "q \<noteq> unat p"
proof
  assume q: "q = unat p"
  note W = kb.heap_ok_layout [OF arraysD(1) [OF A(1)]] and h = arraysD(2) [OF A]
  have "0 < length old" using h by (simp add: holds_def)
  then have "unat p \<in> busy (ubase s) bs" using holds_payload(1) [OF h W(2), of 0] by simp
  moreover have "0 < sz" using sp by (cases "sz = 0") (auto simp: spec_malloc_def)
  then have "unat p \<in> {q - 8..<q + (m - 8)}" using fresh(2) q by auto
  ultimately show False using fresh(1) by blast
qed

lemma arrays_realloc:
  assumes A: "arrays L s bs"
    and p: "L p = Some old" "blk_at (ubase s) bs (unat p) (Used n sl)" "length old + 8 + sl \<le> n"
    and post: "realloc_post cur_break user_ok s bs (unat p) (min (n - 8 - sl) sz)
      (spec_malloc break_limit (ubase s) bs sz) (r, s')"
  shows "ubase s' = ubase s" "r = NULL \<and> arrays L s' bs \<or> sz \<noteq> 0 \<and> fresh_at L r sz \<and>
    (\<forall>i < min (length old) sz. bytes_at (umem s') (unat r) sz ! i = old ! i) \<and>
    arrays (L(p := None, r \<mapsto> bytes_at (umem s') (unat r) sz)) s'
      (set_blk free_blk (unat p) (ubase s) (snd (spec_malloc break_limit (ubase s) bs sz)))" (is ?result)
proof -
  note L = arraysD(2) [OF A] and keep = realloc_holds [OF A p(2) post]
  obtain res bs' where sp: "spec_malloc break_limit (ubase s) bs sz = (res, bs')" by fastforce
  have base: "ubase s' = ubase s" using post by (simp add: realloc_post_def)
  have alloc: "blk_at (ubase s) bs' (unat q) (Used m l)" if "blk_at (ubase s) bs (unat q) (Used m l)" for q :: addr and m l
    using spec_malloc_keeps [OF that, of break_limit sz] by (simp add: sp)
  show "ubase s' = ubase s" by (rule base)
  show ?result
  proof (cases res)
    case None
    then have "uheap_ok s' bs'" "r = NULL" using post by (auto simp: realloc_post_def sp)
    moreover have "bs' = bs" using sp None by (auto simp: spec_malloc_def Let_def split: if_splits option.splits)
    ultimately show ?thesis using keep by (simp add: arrays_def)
  next
    case (Some q)
    let ?bs = "set_blk free_blk (unat p) (ubase s) bs'"
    have P: "r = of_nat q" "uheap_ok s' ?bs"
      "\<And>i. i < min (n - 8 - sl) sz \<Longrightarrow> umem s' (of_nat (q + i)) = umem s (of_nat (unat p + i))"
      using post by (auto simp: realloc_post_def sp Some)
    note qp = fresh_not_old [OF A p(1) sp [unfolded Some]]
    obtain m l where f: "blk_at (ubase s) ?bs q (Used m l)" "sz + 8 + l \<le> m" "sz \<noteq> 0"
      "fresh_at L (of_nat q) sz" "unat (of_nat q :: addr) = q"
      by (rule fresh_block [OF A sp [unfolded Some] P(2) base]) (use qp set_blk_keeps in blast)
    have "bytes_at (umem s') (unat r) sz ! i = old ! i" if "i < min (length old) sz" for i
    proof -
      have "umem s (of_nat (unat p + i)) = old ! i"
        using that L [OF p(1)] unfolding holds_def by simp
      moreover have "i < min (n - 8 - sl) sz" using that p(3) by auto
      ultimately show ?thesis using P(1) P(3) [of i] f(5) that by simp
    qed
    moreover have "holds s' ?bs r (bytes_at (umem s') (unat r) sz)"
      using f P(1) by (intro holds_bytes_at) (simp_all add: base)
    moreover have "holds s' ?bs q' new" if "L q' = Some new" "q' \<noteq> p" for q' new
      using that alloc set_blk_keeps by (intro keep) (auto simp: word_unat_eq_iff)
    ultimately show ?thesis using f(3,4) P(1,2) by (auto simp: arrays_def sp)
  qed
qed

end
