(* ===== verification/Heap_Store.thy ===== *)
theory Heap_Store
  imports Heap_Arrays Interfaces
begin

text \<open>
  The allocator as its clients see it: a store of independent byte arrays. The abstract state
  maps live pointers to the bytes the client asked for; the abstract steps say what each call may
  do to it. The functions of \<^verbatim>\<open>malloc.c\<close> over the kernel's \<^verbatim>\<open>sbrk\<close> refine these steps.
\<close>

section \<open>The specification\<close>

datatype client_op = Malloc u64 | Calloc u64 u64 | Free addr | Realloc addr u64 | Defrag | Write addr nat u8

inductive spec_step :: "store \<Rightarrow> client_op \<Rightarrow> addr \<Rightarrow> store \<Rightarrow> bool" where
  malloc_none: "spec_step L (Malloc n) NULL L"
| malloc_some: "spec_step L (Malloc n) p (L(p \<mapsto> bytes))"
    if "n \<noteq> 0" "fresh_at L p (unat n)" "length bytes = unat n"
| calloc_none: "spec_step L (Calloc n k) NULL L"
| calloc_some: "spec_step L (Calloc n k) p (L(p \<mapsto> replicate (unat n * unat k) 0))"
    if "unat n * unat k \<noteq> 0" "fresh_at L p (unat n * unat k)"
| free_null: "spec_step L (Free NULL) NULL L"
| free_live: "spec_step L (Free p) NULL (L(p := None))" if "p \<in> dom L"
| realloc_null: "spec_step L (Realloc NULL n) r L'" if "spec_step L (Malloc n) r L'"
| realloc_zero: "spec_step L (Realloc p 0) NULL (L(p := None))" if "p \<in> dom L"
| realloc_none: "spec_step L (Realloc p n) NULL L" if "n \<noteq> 0"
| realloc_some: "spec_step L (Realloc p n) q (L(p := None, q \<mapsto> bytes))"
    if "L p = Some old" "n \<noteq> 0" "fresh_at L q (unat n)" "length bytes = unat n"
      "\<forall>i < min (length old) (unat n). bytes ! i = old ! i"
| merge: "spec_step L Defrag NULL L"
| store_byte: "spec_step L (Write p i b) NULL (L(p \<mapsto> old[i := b]))" if "L p = Some old" "i < length old"

text \<open>The calls a client may make: live pointers, and sizes the allocator is specified for.\<close>

fun client_ok :: "store \<Rightarrow> client_op \<Rightarrow> bool" where
  "client_ok L (Malloc n) \<longleftrightarrow> unat n + 16 \<le> 2 ^ 63"
| "client_ok L (Calloc n k) \<longleftrightarrow> 2 ^ 64 \<le> unat n * unat k \<or> unat n * unat k + 16 \<le> 2 ^ 63"
| "client_ok L (Free p) \<longleftrightarrow> p = NULL \<or> p \<in> dom L"
| "client_ok L (Realloc p n) \<longleftrightarrow> (p = NULL \<or> p \<in> dom L) \<and> unat n + 16 \<le> 2 ^ 63"
| "client_ok L Defrag \<longleftrightarrow> True"
| "client_ok L (Write p i b) \<longleftrightarrow> (\<exists>old. L p = Some old \<and> i < length old)"

section \<open>The implementation\<close>

fun exec :: "client_op \<Rightarrow> kstate heap \<Rightarrow> (addr \<times> kstate heap) option" where
  "exec (Malloc n) s = malloc user_sbrk s n"
| "exec (Calloc n k) s = calloc user_sbrk s n k"
| "exec (Free p) s = Some (NULL, free s p)"
| "exec (Realloc p n) s = realloc user_sbrk s p n"
| "exec Defrag s = map_option (\<lambda>s. (NULL, s)) (defrag s)"
| "exec (Write p i b) s = Some (NULL, s\<lparr>umem := (umem s)(p + of_nat i := b)\<rparr>)"

text \<open>Before the first allocation the managed range is empty.\<close>

definition started :: "kstate heap \<Rightarrow> bool" where
  "started s \<longleftrightarrow> initialized s \<or> managed_memory_start s = last_valid_address s"

definition simulates :: "store \<Rightarrow> kstate heap \<Rightarrow> bool" where
  "simulates L s \<longleftrightarrow> started s \<and> (\<exists>bs. arrays L s bs)"

lemma simulatesE:
  assumes "simulates L s"
  obtains bs where "started s" "arrays L s bs"
  using assms unfolding simulates_def by blast

section \<open>The managed range before the first allocation\<close>

lemma started_umem [simp]: "started (s\<lparr>umem := m\<rparr>) \<longleftrightarrow> started s"
  by (simp add: started_def)

lemma started_free [simp]: "started (free s p) \<longleftrightarrow> started s"
  by (simp add: free_def)

lemma init_started: "init user_sbrk s = Some t \<Longrightarrow> initialized t"
  by (auto simp: init_def split: if_splits Option.bind_splits)

lemma malloc_started:
  assumes "malloc user_sbrk s sz = Some (p, s')" "started s" shows "started s'"
  using assms init_started
  by (auto simp: malloc_def started_def Let_def split: if_splits Option.bind_splits option.splits)

lemma calloc_started:
  assumes "calloc user_sbrk s num sz = Some (p, s')" "started s" shows "started s'"
  using assms malloc_started
  by (fastforce simp: calloc_def Let_def split: if_splits Option.bind_splits)

lemma realloc_started:
  assumes "realloc user_sbrk s p sz = Some (q, s')" "started s" shows "started s'"
  using assms malloc_started [of s sz]
  by (auto simp: realloc_def Let_def split: if_splits Option.bind_splits)

section \<open>Each call\<close>

text \<open>The result of a call on a related heap, and that the abstract step allows it.\<close>

definition refines :: "store \<Rightarrow> client_op \<Rightarrow> (addr \<times> kstate heap) option \<Rightarrow> bool" where
  "refines L op r \<longleftrightarrow> (\<exists>p s' L'. r = Some (p, s') \<and> spec_step L op p L' \<and> simulates L' s')"

lemma malloc_refines_store:
  assumes "simulates L s" "unat sz + 16 \<le> 2 ^ 63"
  shows "refines L (Malloc sz) (malloc user_sbrk s sz)"
proof -
  obtain bs where S: "started s" "arrays L s bs" using assms(1) by (rule simulatesE)
  obtain r s' where m: "malloc user_sbrk s sz = Some (r, s')"
    "alloc_post cur_break user_ok s bs (spec_malloc break_limit (ubase s) bs (unat sz)) (r, s')"
    using kb.malloc_refines [OF arraysD(1) [OF S(2)] assms(2)] by auto
  from arrays_alloc(2) [OF S(2) m(2)] show ?thesis
    using m(1) malloc_started [OF m(1) S(1)] unfolding refines_def simulates_def
    by (auto simp: unat_eq_0 intro: malloc_none malloc_some [OF _ _ bytes_at_simps(1)])
qed

lemma calloc_refines_store:
  assumes "simulates L s" "2 ^ 64 \<le> unat n * unat k \<or> unat n * unat k + 16 \<le> 2 ^ 63"
  shows "refines L (Calloc n k) (calloc user_sbrk s n k)"
proof (cases "2 ^ 64 \<le> unat n * unat k")
  case True
  then show ?thesis using kb.calloc_overflow [OF True] assms(1) by (auto simp: refines_def intro: calloc_none)
next
  case False
  obtain bs where S: "started s" "arrays L s bs" using assms(1) by (rule simulatesE)
  let ?z = "unat n * unat k"
  obtain r s' where m: "calloc user_sbrk s n k = Some (r, s')"
    "alloc_post cur_break user_ok s bs (spec_malloc break_limit (ubase s) bs ?z) (r, s')"
    "r \<noteq> NULL \<longrightarrow> (\<forall>i < ?z. umem s' (r + of_nat i) = 0)"
    using kb.calloc_refines [OF arraysD(1) [OF S(2)], of n k] False assms(2) by auto
  have z: "bytes_at (umem s') (unat r) ?z = replicate ?z 0" if "r \<noteq> NULL"
    using m(3) that by (intro nth_equalityI) simp_all
  have "started s'" by (rule calloc_started [OF m(1) S(1)])
  from arrays_alloc(2) [OF S(2) m(2)] show ?thesis
  proof
    assume "r = NULL \<and> arrays L s' bs"
    then show ?thesis using m(1) \<open>started s'\<close> by (auto simp: refines_def simulates_def intro: calloc_none)
  next
    assume a: "?z \<noteq> 0 \<and> fresh_at L r ?z \<and>
      arrays (L(r \<mapsto> bytes_at (umem s') (unat r) ?z)) s' (snd (spec_malloc break_limit (ubase s) bs ?z))"
    then have "r \<noteq> NULL" by (simp add: fresh_at_def)
    then have "simulates (L(r \<mapsto> replicate ?z 0)) s'" using a z \<open>started s'\<close> by (auto simp: simulates_def)
    then show ?thesis using m(1) a calloc_some unfolding refines_def by blast
  qed
qed

lemma free_simulates:
  assumes "simulates L s" "p \<in> dom L"
  shows "simulates (L(p := None)) (free s p)"
  using assms(1) arrays_free(1) [OF _ assms(2)] unfolding simulates_def started_free by blast

lemma defrag_refines_store:
  assumes "simulates L s"
  shows "refines L Defrag (exec Defrag s)"
proof -
  obtain bs where S: "started s" "arrays L s bs" using assms(1) by (rule simulatesE)
  show ?thesis
  proof (cases "initialized s")
    case False
    then have "defrag_loop (umem s) (last_valid_address s) (managed_memory_start s) = Some (umem s)"
      using S(1) by (subst defrag_loop.simps) (simp add: started_def)
    then show ?thesis using assms by (auto simp: refines_def defrag_def intro: merge)
  next
    case True
    obtain s' where d: "defrag s = Some s'" "arrays L s' (spec_defrag bs)"
      using arrays_defrag [OF S(2) True] by blast
    moreover have "started s'"
      using d(1) S(1) by (auto simp: defrag_def split: Option.bind_splits)
    ultimately show ?thesis by (auto simp: refines_def simulates_def intro: merge)
  qed
qed

lemma write_refines_store:
  assumes "simulates L s" "L p = Some old" "i < length old"
  shows "refines L (Write p i b) (exec (Write p i b) s)"
proof -
  obtain bs where S: "started s" "arrays L s bs" using assms(1) by (rule simulatesE)
  note W = kb.heap_ok_layout [OF arraysD(1) [OF S(2)]] and H = arraysD(2) [OF S(2) assms(2)]
  let ?m = "(umem s)(of_nat (unat p + i) := b)"
  have lt: "unat p + j < 2 ^ 64" if "j < length old" for j
    using busy_range [OF holds_payload(1) [OF H W(2) that]] W(3) by simp
  have "?m (of_nat x) = umem s (of_nat x)" if "x < 2 ^ 64" "x \<noteq> unat p + i" for x
    using of_nat_neq64 [OF that(1) lt [OF assms(3)] that(2)] by simp
  note other = this
  have "bytes_at ?m (unat p) (length old) = old[i := b]"
  proof (rule nth_equalityI)
    fix j assume "j < length (bytes_at ?m (unat p) (length old))"
    then have j: "j < length old" by simp
    show "bytes_at ?m (unat p) (length old) ! j = old[i := b] ! j"
      using H j other [OF lt [OF j]] by (cases "j = i") (simp_all add: holds_def)
  qed simp
  moreover have "?m (of_nat x) = umem s (of_nat x)"
    if "x < 2 ^ 64" "x < unat p \<or> unat p + length old \<le> x" for x
    using that(2) assms(3) by (intro other [OF that(1)]) auto
  ultimately have "simulates (L(p \<mapsto> old[i := b])) (s\<lparr>umem := ?m\<rparr>)"
    using arrays_update [OF S(2) assms(2), of ?m] S(1) by (auto simp: simulates_def)
  then show ?thesis using store_byte [of L p, OF assms(2,3)] by (auto simp: refines_def)
qed

lemma realloc_refines_store:
  assumes "simulates L s" "p = NULL \<or> p \<in> dom L" "unat sz + 16 \<le> 2 ^ 63"
  shows "refines L (Realloc p sz) (realloc user_sbrk s p sz)"
proof (cases "p = NULL")
  case True
  then have "realloc user_sbrk s p sz = malloc user_sbrk s sz" by (simp add: realloc_def)
  then show ?thesis
    using malloc_refines_store [OF assms(1,3)] True by (auto simp: refines_def intro: realloc_null)
next
  case False
  then have d: "p \<in> dom L" using assms(2) by blast
  then obtain old where old: "L p = Some old" by blast
  obtain bs where S: "started s" "arrays L s bs" using assms(1) by (rule simulatesE)
  obtain n sl where b: "blk_at (ubase s) bs (unat p) (Used n sl)" "length old + 8 + sl \<le> n"
    using arraysD(2) [OF S(2) old] unfolding holds_def by blast
  show ?thesis
  proof (cases "sz = 0")
    case True
    then have "realloc user_sbrk s p sz = Some (NULL, free s p)" using False by (simp add: realloc_def)
    then show ?thesis using free_simulates [OF assms(1) d] realloc_zero [OF d] True unfolding refines_def by blast
  next
    case sz: False
    obtain r s' where m: "realloc user_sbrk s p sz = Some (r, s')"
      "realloc_post cur_break user_ok s bs (unat p) (min (n - 8 - sl) (unat sz))
         (spec_malloc break_limit (ubase s) bs (unat sz)) (r, s')"
      using kb.realloc_refines [OF arraysD(1) [OF S(2)] b(1) sz assms(3)] by auto
    have st: "started s'" by (rule realloc_started [OF m(1) S(1)])
    from arrays_realloc(2) [OF S(2) old b m(2)] show ?thesis
    proof
      assume "r = NULL \<and> arrays L s' bs"
      then show ?thesis using m(1) realloc_none [OF sz] st unfolding refines_def simulates_def by blast
    next
      assume a: "unat sz \<noteq> 0 \<and> fresh_at L r (unat sz) \<and>
        (\<forall>i < min (length old) (unat sz). bytes_at (umem s') (unat r) (unat sz) ! i = old ! i) \<and>
        arrays (L(p := None, r \<mapsto> bytes_at (umem s') (unat r) (unat sz))) s'
          (set_blk free_blk (unat p) (ubase s) (snd (spec_malloc break_limit (ubase s) bs (unat sz))))"
      then have "spec_step L (Realloc p sz) r (L(p := None, r \<mapsto> bytes_at (umem s') (unat r) (unat sz)))"
        using sz realloc_some [where L = L and p = p, OF old] by simp
      then show ?thesis using a m(1) st unfolding refines_def simulates_def by blast
    qed
  qed
qed

section \<open>Clients\<close>

text \<open>
  A client is a list of calls, each chosen from the results of the calls before it. It is valid
  when every call it makes is allowed in every store the specification lets it see.
\<close>

type_synonym client = "(addr, client_op) chooser"

lemma exec_refines:
  assumes "simulates L s" "client_ok L op"
  shows "refines L op (exec op s)"
proof (cases op)
  case (Free p)
  then show ?thesis
  proof (cases "p = NULL")
    case True
    then show ?thesis using Free assms(1) by (auto simp: refines_def free_def intro: free_null)
  next
    case False
    then have "p \<in> dom L" using Free assms(2) by simp
    from free_simulates [OF assms(1) this] free_live [OF this] show ?thesis
      using Free unfolding refines_def by (simp only: exec.simps) blast
  qed
qed (use assms malloc_refines_store calloc_refines_store realloc_refines_store defrag_refines_store
       write_refines_store in auto)

interpretation store: implements simulates client_ok spec_step exec
  by unfold_locales (use exec_refines in \<open>simp add: refines_def\<close>)

text \<open>
  C2. The allocator is a store of independent arrays: from a process that has not allocated
  anything, every valid client, whatever it chooses from the results it sees, runs to its end,
  and its results are ones the abstract store allows: every allocation is NULL or an aligned
  address of bytes that no live array has, zeroed when it comes from \<^verbatim>\<open>calloc\<close> and starting
  with the old bytes when it comes from \<^verbatim>\<open>realloc\<close>, and each live array reads back what the
  client wrote to it, however calls of \<^verbatim>\<open>malloc\<close>, \<^verbatim>\<open>free\<close>, \<^verbatim>\<open>realloc\<close> and \<^verbatim>\<open>defrag\<close> on
  other arrays come in between.
\<close>

theorem allocator_refines_store:
  assumes "uheap_ok s []" "started s" "valid_client client_ok spec_step fs [] Map.empty"
  shows "\<exists>rs s' L. run_client exec fs [] s = Some (rs, s') \<and> spec_client spec_step fs [] Map.empty rs L \<and>
    (\<forall>p bytes i. L p = Some bytes \<longrightarrow> i < length bytes \<longrightarrow> umem s' (of_nat (unat p + i)) = bytes ! i)"
proof -
  have "simulates Map.empty s" using assms(1,2) by (auto simp: simulates_def)
  from store.client_refines [OF this assms(3)] obtain rs s' L where
    "run_client exec fs [] s = Some (rs, s')" "spec_client spec_step fs [] Map.empty rs L" "simulates L s'" by blast
  moreover from this(3) have "umem s' (of_nat (unat p + i)) = bytes ! i"
    if "L p = Some bytes" "i < length bytes" for p bytes i
    using that by (auto simp: simulates_def arrays_def holds_def)
  ultimately show ?thesis by blast
qed

text \<open>A client that allocates, writes where it can, allocates again and frees the first array.\<close>

definition small_client :: client where
  "small_client = [\<lambda>rs. Malloc 5, \<lambda>rs. if rs ! 0 = NULL then Defrag else Write (rs ! 0) 4 42,
     \<lambda>rs. Calloc 2 8, \<lambda>rs. Free (rs ! 0)]"

inductive_cases malloc_stepE: "spec_step L (Malloc n) r M"
inductive_cases calloc_stepE: "spec_step L (Calloc n k) r M"
inductive_cases defrag_stepE: "spec_step L Defrag r M"
inductive_cases write_stepE: "spec_step L (Write p i b) r M"

theorem allocator_refines_store_witness:
  "\<exists>rs s' L. run_client exec small_client [] sample_heap = Some (rs, s') \<and> spec_client spec_step small_client [] Map.empty rs L"
proof -
  have "started sample_heap" by (simp add: started_def sample_heap_def)
  moreover have "valid_client client_ok spec_step small_client [] Map.empty"
    by (auto simp: small_client_def fresh_at_def elim!: malloc_stepE calloc_stepE defrag_stepE write_stepE)
  ultimately show ?thesis using allocator_refines_store [OF sample_heap_ok(1)] by blast
qed

end
