(* ===== verification/Heap_Report.thy ===== *)
theory Heap_Report
  imports Heap_Walk Heap_Store
begin

text \<open>
  \<^verbatim>\<open>heap_info\<close> as a whole: its report against the list of blocks, and that taking it disturbs no
  block in use, although it allocates its arrays, and the sort its scratch space, on the same heap.
\<close>

section \<open>States that keep every block in use\<close>

text \<open>
  From the heap \<open>bs\<close> of \<open>s\<close> to the heap \<open>bs'\<close> of \<open>s'\<close>: blocks in use stay where they are, with
  their contents.
\<close>

definition keeps :: "kstate heap \<Rightarrow> blk list \<Rightarrow> kstate heap \<Rightarrow> blk list \<Rightarrow> bool" where
  "keeps s bs s' bs' \<longleftrightarrow> uheap_ok s' bs' \<and> ubase s' = ubase s \<and>
     (\<forall>p b. blk_at (ubase s) bs p b \<and> in_use b \<longrightarrow> blk_at (ubase s) bs' p b) \<and>
     (\<forall>x \<in> busy (ubase s) bs. umem s' (of_nat x) = umem s (of_nat x))"

lemma keepsD:
  assumes "keeps s bs s' bs'"
  shows "uheap_ok s' bs'" "ubase s' = ubase s"
    "blk_at (ubase s) bs p b \<Longrightarrow> in_use b \<Longrightarrow> blk_at (ubase s) bs' p b"
    "x \<in> busy (ubase s) bs \<Longrightarrow> umem s' (of_nat x) = umem s (of_nat x)"
  using assms by (auto simp: keeps_def)

lemma keeps_refl: "uheap_ok s bs \<Longrightarrow> keeps s bs s bs"
  by (simp add: keeps_def)

lemma busy_blk:
  "x \<in> busy a bs \<Longrightarrow> \<exists>p b. blk_at a bs p b \<and> in_use b \<and> p - 8 \<le> x \<and> x < p + (bsize b - 8)"
proof (induction bs arbitrary: a)
  case (Cons b bs)
  show ?case
  proof (cases "x \<in> busy (a + bsize b) bs")
    case True
    then show ?thesis using Cons.IH by fastforce
  next
    case False
    then have "in_use b" "a \<le> x" "x < a + bsize b" using Cons.prems by (auto split: blk.splits)
    then show ?thesis by (intro exI [of _ "a + 8"] exI [of _ b]) auto
  qed
qed simp

lemma blk_busy: "blk_at a bs p b \<Longrightarrow> in_use b \<Longrightarrow> 0 < bsize b \<Longrightarrow> p - 8 \<in> busy a bs"
  by (induction bs arbitrary: a) (auto split: blk.splits)

lemma busy_mono:
  assumes "\<And>p b. blk_at a bs p b \<Longrightarrow> in_use b \<Longrightarrow> blk_at a bs' p b" "list_all wf_blk bs'"
  shows "busy a bs \<subseteq> busy a bs'"
proof
  fix x assume "x \<in> busy a bs"
  then obtain p b where "blk_at a bs p b" "in_use b" "p - 8 \<le> x" "x < p + (bsize b - 8)"
    using busy_blk by blast
  then show "x \<in> busy a bs'" using payload_busy [OF assms(1) _ assms(2)] by blast
qed

lemma keeps_busy: "keeps s bs s' bs' \<Longrightarrow> busy (ubase s) bs \<subseteq> busy (ubase s) bs'"
  using kb.heap_ok_layout(2) by (intro busy_mono) (auto simp: keeps_def)

lemma keeps_trans:
  assumes "keeps s bs t cs" "keeps t cs u ds" shows "keeps s bs u ds"
  using assms keeps_busy [OF assms(1)] by (auto simp: keeps_def)

section \<open>Blocks that are not the client's\<close>

text \<open>A block of \<open>bs\<close> at \<open>p\<close> that is not part of any block in use of \<open>bs0\<close>.\<close>

definition extra :: "nat \<Rightarrow> blk list \<Rightarrow> blk list \<Rightarrow> nat \<Rightarrow> blk \<Rightarrow> bool" where
  "extra a bs0 bs p b \<longleftrightarrow> blk_at a bs p b \<and> in_use b \<and> {p - 8..<p + (bsize b - 8)} \<inter> busy a bs0 = {}"

lemma keeps_extra:
  "extra a bs0 bs p b \<Longrightarrow> keeps s bs s' bs' \<Longrightarrow> a = ubase s \<Longrightarrow> extra a bs0 bs' p b"
  by (auto simp: extra_def keeps_def)

lemma extra_mono: "extra a bs1 bs p b \<Longrightarrow> busy a bs0 \<subseteq> busy a bs1 \<Longrightarrow> extra a bs0 bs p b"
  by (auto simp: extra_def)

lemma bsize_ge16: "blk_at a bs p b \<Longrightarrow> list_all wf_blk bs \<Longrightarrow> 16 \<le> bsize b"
  using blk_at_split [of a bs p b] wf_blk_size [of b] by auto

lemma extra_hdr: "extra a bs0 bs p c \<Longrightarrow> list_all wf_blk bs \<Longrightarrow> 8 \<le> p \<Longrightarrow> p - 8 \<notin> busy a bs0"
proof -
  assume e: "extra a bs0 bs p c" "list_all wf_blk bs" "8 \<le> p"
  then have "16 \<le> bsize c" using bsize_ge16 by (auto simp: extra_def)
  then have "p - 8 \<in> {p - 8..<p + (bsize c - 8)}" using e(3) by simp
  then show ?thesis using e(1) by (auto simp: extra_def)
qed

text \<open>Memory may change anywhere but in headers and in the client's blocks.\<close>

lemma keeps_write:
  assumes "keeps s0 bs0 s bs" "initialized s"
    and "\<And>x. x \<in> hdrs (ubase s0) bs \<Longrightarrow> m (of_nat x) = umem s (of_nat x)"
    and "\<And>x. x \<in> busy (ubase s0) bs0 \<Longrightarrow> m (of_nat x) = umem s (of_nat x)"
  shows "keeps s0 bs0 (s\<lparr>umem := m\<rparr>) bs"
proof -
  note K = keepsD [OF assms(1)] and L = kb.heap_ok_layout [OF keepsD(1) [OF assms(1)]]
  have "layout m (ubase s) bs"
    using L(3) assms(3) K(2) by (intro layout_cong [OF L(1) _ L(2)]) auto
  then have "uheap_ok (s\<lparr>umem := m\<rparr>) bs" by (rule kb.heap_ok_upd(1) [OF K(1) assms(2) refl L(2)])
  then show ?thesis using assms(1,4) by (simp add: keeps_def)
qed

text \<open>The header of an extra block may change state.\<close>

lemma blk_at_set:
  assumes "blk_at a bs p c" "list_all wf_blk bs" "bsize (f c) = bsize c"
  shows "blk_at a (set_blk f p a bs) q b \<longleftrightarrow> (if q = p then b = f c else blk_at a bs q b)"
proof -
  obtain pre post where bs: "bs = pre @ c # post" and p: "p = a + bsizes pre + 8"
    using blk_at_split [OF assms(1)] by blast
  have w: "list_all wf_blk pre" "16 \<le> bsize c" using assms(2) wf_blk_size [of c] by (simp_all add: bs)
  have "\<not> blk_at a pre p d" "\<not> blk_at (a + bsizes pre + bsize c) post p d" for d
    using kb.blk_at_less [of a pre p d] kb.blk_at_ge [of "a + bsizes pre + bsize c" post p d] w p by auto
  then show ?thesis using set_blk_split [OF w(1), of f a c post] assms(3) p by (auto simp: bs)
qed

lemma extra_set:
  assumes "extra a bs0 bs q d" "q \<noteq> p" "blk_at a bs p c" "list_all wf_blk bs" "bsize (f c) = bsize c"
  shows "extra a bs0 (set_blk f p a bs) q d"
  using assms(1,2) blk_at_set [where f = f, OF assms(3-5)] by (simp add: extra_def)

lemma keeps_mark:
  assumes "keeps s0 bs0 s bs" "extra (ubase s0) bs0 bs p c"
    and f: "bsize (f c) = bsize c" "wf_blk (f c)"
    and at: "block_at (set_state (umem s) (of_nat (p - 8)) v) (p - 8) (f c)"
  shows "keeps s0 bs0 (s\<lparr>umem := set_state (umem s) (of_nat (p - 8)) v\<rparr>) (set_blk f p (ubase s0) bs)"
proof -
  note K = keepsD [OF assms(1)]
  have b: "blk_at (ubase s) bs p c" using assms(2) K(2) by (simp add: extra_def)
  note L = kb.heap_ok_layout [OF K(1)] and P = kb.blk_at_ptr [OF K(1) b]
  obtain pre post where bs: "bs = pre @ c # post" and p: "p = ubase s + bsizes pre + 8"
    using blk_at_split [OF b] by blast
  have sb: "set_blk f p (ubase s0) bs = pre @ f c # post"
    using set_blk_split [of pre f "ubase s" c post] L(2) K(2) p by (simp add: bs)
  have ok: "uheap_ok (s\<lparr>umem := set_state (umem s) (of_nat (p - 8)) v\<rparr>) (pre @ f c # post)"
    using kb.mark_block [OF K(1) [unfolded bs] f(1,2)] at p by simp
  have "set_state (umem s) (of_nat (p - 8)) v (of_nat x) = umem s (of_nat x)" if x: "x \<in> busy (ubase s0) bs0" for x
  proof -
    have "x \<noteq> p - 8" using extra_hdr [OF assms(2) L(2) P(3)] x by auto
    moreover have "x < 2 ^ 64"
      using keeps_busy [OF assms(1)] x busy_range [of x "ubase s" bs] L(3) K(2) by fastforce
    ultimately show ?thesis using P(2) by (intro set_state_outside) auto
  qed
  moreover have "blk_at (ubase s0) (set_blk f p (ubase s0) bs) q b" if "blk_at (ubase s0) bs0 q b" "in_use b" for q b
  proof -
    have "blk_at (ubase s) bs q b" using K(3) [OF that] K(2) by simp
    then have "q - 8 \<in> busy (ubase s0) bs0"
      using bsize_ge16 [OF _ L(2), of "ubase s" q b] blk_busy [OF that] by simp
    then have "q \<noteq> p" using extra_hdr [OF assms(2)] L(2) P(3) by auto
    then show ?thesis using K(3) [OF that] blk_at_set [where f = f, OF b L(2) f(1)] K(2) by simp
  qed
  ultimately show ?thesis using ok sb K by (simp add: keeps_def)
qed

text \<open>The three ways in which the code changes the state of such a block.\<close>

definition intern_blk :: "blk \<Rightarrow> blk" where
  "intern_blk b = (case b of Used n sl \<Rightarrow> Internal n sl | _ \<Rightarrow> b)"

lemma intern_blk_simps [simp]: "intern_blk (Used n sl) = Internal n sl" "bsize (intern_blk b) = bsize b"
  by (simp_all add: intern_blk_def split: blk.splits)

lemma extra_header: "extra (ubase s0) bs0 bs p c \<Longrightarrow> keeps s0 bs0 s bs \<Longrightarrow>
    block_at (umem s) (p - 8) c \<and> wf_blk c \<and> header_of (of_nat p) = of_nat (p - 8) \<and> (of_nat p :: addr) \<noteq> NULL"
proof -
  assume e: "extra (ubase s0) bs0 bs p c" and k: "keeps s0 bs0 s bs"
  have b: "blk_at (ubase s) bs p c" using e keepsD(2) [OF k] by (simp add: extra_def)
  note L = kb.heap_ok_layout [OF keepsD(1) [OF k]] and P = kb.blk_at_ptr [OF keepsD(1) [OF k] b]
  obtain pre post where "bs = pre @ c # post" "p = ubase s + bsizes pre + 8"
    using blk_at_split [OF b] by blast
  then show ?thesis using L P kb.header_of_nat [OF P(3)] by simp
qed

lemma keeps_intern:
  assumes "keeps s0 bs0 s bs" "extra (ubase s0) bs0 bs p (Used n sl)"
  shows "keeps s0 bs0 (s\<lparr>umem := set_state (umem s) (header_of (of_nat p)) BLOCK_INTERNAL\<rparr>) (set_blk intern_blk p (ubase s0) bs)"
    "extra (ubase s0) bs0 (set_blk intern_blk p (ubase s0) bs) p (Internal n sl)"
proof -
  note H = extra_header [OF assms(2,1)] and L = kb.heap_ok_layout(2) [OF keepsD(1) [OF assms(1)]]
  have "block_at (set_state (umem s) (of_nat (p - 8)) BLOCK_INTERNAL) (p - 8) (Internal n sl)"
    using H by (simp add: block_at_def Let_def mem_simps)
  then show "keeps s0 bs0 (s\<lparr>umem := set_state (umem s) (header_of (of_nat p)) BLOCK_INTERNAL\<rparr>)
      (set_blk intern_blk p (ubase s0) bs)"
    using H keeps_mark [OF assms, of intern_blk BLOCK_INTERNAL] by simp
  have b: "blk_at (ubase s0) bs p (Used n sl)" using assms(2) by (simp add: extra_def)
  show "extra (ubase s0) bs0 (set_blk intern_blk p (ubase s0) bs) p (Internal n sl)"
    using assms(2) blk_at_set [where f = intern_blk, OF b L] by (simp add: extra_def)
qed

lemma keeps_free:
  assumes "keeps s0 bs0 s bs" "extra (ubase s0) bs0 bs p c"
  shows "keeps s0 bs0 (free s (of_nat p)) (set_blk free_blk p (ubase s0) bs)"
    "x < 2 ^ 64 \<Longrightarrow> x \<notin> hdrs (ubase s0) bs \<Longrightarrow> umem (free s (of_nat p)) (of_nat x) = umem s (of_nat x)"
proof -
  note H = extra_header [OF assms(2,1)] and K = keepsD [OF assms(1)]
  have b: "blk_at (ubase s) bs p c" using assms(2) K(2) by (simp add: extra_def)
  have "block_at (set_state (umem s) (of_nat (p - 8)) BLOCK_FREE) (p - 8) (free_blk c)"
    using H by (simp add: block_at_def Let_def mem_simps)
  moreover have "wf_blk (free_blk c)" using H wf_blk_size [of c] wf_blk_dvd [of c] by simp
  ultimately show "keeps s0 bs0 (free s (of_nat p)) (set_blk free_blk p (ubase s0) bs)"
    using H keeps_mark [OF assms, of free_blk BLOCK_FREE] by (simp add: free_def)
  show "umem (free s (of_nat p)) (of_nat x) = umem s (of_nat x)" if "x < 2 ^ 64" "x \<notin> hdrs (ubase s0) bs"
  proof -
    have "x \<noteq> p - 8" using that(2) blk_at_hdr [OF b] K(2) by auto
    then show ?thesis using kb.free_refines(2) [OF K(1) b that(1)] by simp
  qed
qed

section \<open>The blocks in use as a multiset\<close>

lemma used_pairs_set:
  "set (used_pairs a bs) = {(of_nat (n - 8 - sl), of_nat p) | p n sl. blk_at a bs p (Used n sl)}"
proof (induction bs arbitrary: a)
  case (Cons b bs)
  show ?case
  proof (cases b)
    case (Used n sl)
    have "blk_at a (b # bs) p (Used m k) \<longleftrightarrow> p = a + 8 \<and> m = n \<and> k = sl \<or> blk_at (a + n) bs p (Used m k)" for p m k
      using Used by auto
    then show ?thesis using Cons.IH [of "a + n"] Used by (auto simp del: of_nat_add blk_at.simps)
  qed (use Cons.IH in auto)
qed simp

lemma used_pairs_distinct:
  assumes "list_all wf_blk bs" "a + bsizes bs < 2 ^ 64"
  shows "distinct (used_pairs a bs)"
  using assms
proof (induction bs arbitrary: a)
  case (Cons b bs)
  have w: "16 \<le> bsize b" using Cons.prems(1) wf_blk_size [of b] by simp
  have "(v, of_nat (a + 8)) \<notin> set (used_pairs (a + bsize b) bs)" for v
  proof
    assume "(v, of_nat (a + 8)) \<in> set (used_pairs (a + bsize b) bs)"
    then obtain p n sl where p: "blk_at (a + bsize b) bs p (Used n sl)" "(of_nat (a + 8) :: addr) = of_nat p"
      by (auto simp: used_pairs_set)
    have "a + bsize b + 8 \<le> p" "p \<le> a + bsize b + bsizes bs"
      using kb.blk_at_ge [OF p(1)] kb.blk_at_less [OF p(1)] Cons.prems(1) by auto
    then show False using p(2) of_nat_neq64 [of "a + 8" p] w Cons.prems(2) by auto
  qed
  moreover have "distinct (used_pairs (a + bsize b) bs)" using Cons by (intro Cons.IH) auto
  ultimately show ?case by (auto split: blk.splits)
qed simp

lemma used_pairs_mset:
  assumes "list_all wf_blk bs" "a + bsizes bs < 2 ^ 64" "list_all wf_blk cs" "a + bsizes cs < 2 ^ 64"
    and "\<And>p n sl. blk_at a cs p (Used n sl) \<longleftrightarrow> blk_at a bs p (Used n sl)"
  shows "mset (used_pairs a cs) = mset (used_pairs a bs)"
  using used_pairs_distinct [OF assms(1,2)] used_pairs_distinct [OF assms(3,4)] assms(5)
  by (simp add: used_pairs_set flip: set_eq_iff_mset_eq_distinct)

text \<open>Making a used block internal changes no total of free blocks.\<close>

lemma free_totals_intern:
  "free_total (set_blk intern_blk p a bs) = free_total bs \<and> largest_free (set_blk intern_blk p a bs) = largest_free bs"
proof (induction bs arbitrary: a)
  case (Cons b bs)
  have "is_free (intern_blk b) = is_free b" by (simp add: intern_blk_def split: blk.splits)
  then show ?case using Cons by (simp add: free_total_def)
qed (simp add: free_total_def)

text \<open>After an allocation every block in use was there before, or is the new one.\<close>

lemma spec_malloc_only:
  assumes "spec_malloc lim a bs sz = (res, bs')" "blk_at a bs' q b" "in_use b"
  shows "blk_at a bs q b \<or> res = Some q"
proof (cases "spec_fit (round8 sz + 8) bs")
  case None
  then show ?thesis using assms by (auto simp: spec_malloc_def Let_def split: if_splits)
next
  case (Some t)
  obtain pre n post where t: "t = (pre, n, post)" by (cases t)
  from spec_fit_Some [OF Some [unfolded t]]
  have bs: "bs = pre @ blk.Free n # post" "round8 sz + 8 \<le> n" by auto
  show ?thesis using assms Some t bs
    by (auto simp: spec_malloc_def Let_def spec_place_def add.assoc split: if_splits)
qed

section \<open>Two allocations\<close>

text \<open>
  \<^verbatim>\<open>heap_info\<close> allocates its two arrays, and the sort its two scratch arrays, in the same way: two
  calls of \<^verbatim>\<open>malloc\<close> for the same size, either of which may fail.
\<close>

definition pointer :: "nat option \<Rightarrow> addr" where
  "pointer res = (case res of None \<Rightarrow> NULL | Some p \<Rightarrow> of_nat p)"

lemma pointer_simps [simp]: "pointer None = NULL" "pointer (Some p) = of_nat p"
  by (simp_all add: pointer_def)

text \<open>An array of \<open>k\<close> bytes that is no part of the client's blocks \<open>bs0\<close>, if the allocation succeeded.\<close>

definition array_of :: "nat \<Rightarrow> blk list \<Rightarrow> blk list \<Rightarrow> nat \<Rightarrow> nat option \<Rightarrow> bool" where
  "array_of a bs0 bs k res \<longleftrightarrow>
     (\<forall>p. res = Some p \<longrightarrow> (\<exists>n sl. extra a bs0 bs p (Used n sl) \<and> k + 8 + sl \<le> n))"

lemma array_of_keeps: "array_of (ubase s) bs0 bs k res \<Longrightarrow> keeps s bs s' bs' \<Longrightarrow> array_of (ubase s) bs0 bs' k res"
  unfolding array_of_def using keeps_extra by blast

lemma array_of_mono: "array_of a bs1 bs k res \<Longrightarrow> busy a bs0 \<subseteq> busy a bs1 \<Longrightarrow> array_of a bs0 bs k res"
  unfolding array_of_def using extra_mono by blast

lemma malloc_array:
  assumes "uheap_ok s bs" "unat sz + 16 \<le> 2 ^ 63" "spec_malloc break_limit (ubase s) bs (unat sz) = (res, bs1)"
  obtains s1 where "malloc user_sbrk s sz = Some (pointer res, s1)" "keeps s bs s1 bs1"
    "array_of (ubase s) bs bs1 (unat sz) res"
proof -
  obtain s1 where s1: "malloc user_sbrk s sz = Some (pointer res, s1)" "uheap_ok s1 bs1" "ubase s1 = ubase s"
    "\<And>x. x \<in> busy (ubase s) bs \<Longrightarrow> umem s1 (of_nat x) = umem s (of_nat x)"
    using kb.malloc_result [OF assms] unfolding pointer_def by blast
  have "keeps s bs s1 bs1"
    using s1(2-4) spec_malloc_keeps [of "ubase s" bs _ _ break_limit "unat sz"] assms(3) by (auto simp: keeps_def)
  moreover have "array_of (ubase s) bs bs1 (unat sz) res"
    unfolding array_of_def
  proof (intro allI impI)
    fix p assume "res = Some p"
    with spec_malloc_fresh [of break_limit "ubase s" bs "unat sz" p bs1] assms(3) kb.heap_ok_layout(2) [OF assms(1)]
    show "\<exists>n sl. extra (ubase s) bs bs1 p (Used n sl) \<and> unat sz + 8 + sl \<le> n"
      by (auto simp: extra_def)
  qed
  ultimately show thesis using that s1(1) by blast
qed

lemma malloc_two:
  assumes "uheap_ok s bs" "unat sz + 16 \<le> 2 ^ 63"
    "spec_malloc break_limit (ubase s) bs (unat sz) = (res1, bs1)"
    "spec_malloc break_limit (ubase s) bs1 (unat sz) = (res2, bs2)"
  obtains s1 s2 where "malloc user_sbrk s sz = Some (pointer res1, s1)" "malloc user_sbrk s1 sz = Some (pointer res2, s2)"
    "keeps s bs s2 bs2" "array_of (ubase s) bs bs2 (unat sz) res1" "array_of (ubase s) bs bs2 (unat sz) res2"
    "res1 = None \<or> res1 \<noteq> res2"
proof -
  obtain s1 where 1: "malloc user_sbrk s sz = Some (pointer res1, s1)" "keeps s bs s1 bs1"
    "array_of (ubase s) bs bs1 (unat sz) res1" using malloc_array [OF assms(1-3)] by blast
  have b: "ubase s1 = ubase s" using keepsD(2) [OF 1(2)] .
  obtain s2 where 2: "malloc user_sbrk s1 sz = Some (pointer res2, s2)" "keeps s1 bs1 s2 bs2"
    "array_of (ubase s) bs1 bs2 (unat sz) res2"
    using malloc_array [OF keepsD(1) [OF 1(2)] assms(2)] assms(4) b by auto
  have "res1 \<noteq> res2" if "res1 = Some p" for p
  proof
    assume "res1 = res2"
    then obtain n sl n' sl' where e: "extra (ubase s) bs bs1 p (Used n sl)" "extra (ubase s) bs1 bs2 p (Used n' sl')"
      using 1(3) 2(3) \<open>res1 = Some p\<close> by (auto simp: array_of_def)
    note W = kb.heap_ok_layout(2) [OF keepsD(1) [OF 1(2)]] kb.heap_ok_layout(2) [OF keepsD(1) [OF 2(2)]]
    have "p - 8 \<in> busy (ubase s) bs1" "8 \<le> p"
      using e(1) bsize_ge16 [OF _ W(1)] kb.blk_at_ge blk_busy by (fastforce simp: extra_def)+
    then show False using extra_hdr [OF e(2) W(2)] by simp
  qed
  then have "res1 = None \<or> res1 \<noteq> res2" by (cases res1) auto
  moreover have "array_of (ubase s) bs bs2 (unat sz) res1"
    using array_of_keeps [of s1 bs bs1 "unat sz" res1 s2 bs2] 1(3) 2(2) b by simp
  moreover have "array_of (ubase s) bs bs2 (unat sz) res2" by (rule array_of_mono [OF 2(3) keeps_busy [OF 1(2)]])
  ultimately show thesis using that [OF 1(1) 2(1) keeps_trans [OF 1(2) 2(2)]] by blast
qed

text \<open>Freeing them again, failed allocations included. Their blocks may be internal by then.\<close>

definition owns :: "nat \<Rightarrow> blk list \<Rightarrow> blk list \<Rightarrow> nat \<Rightarrow> nat option \<Rightarrow> bool" where
  "owns a bs0 bs k res \<longleftrightarrow> (\<forall>p. res = Some p \<longrightarrow> (\<exists>b. extra a bs0 bs p b \<and> k + 8 \<le> bsize b))"

lemma owns_array: "array_of a bs0 bs k res \<Longrightarrow> owns a bs0 bs k res"
  unfolding array_of_def owns_def by fastforce

lemma hdrs_set_blk: "(\<And>b. bsize (f b) = bsize b) \<Longrightarrow> hdrs a (set_blk f p a bs) = hdrs a bs"
  by (induction bs arbitrary: a) auto

lemma free_array:
  assumes "keeps s0 bs0 s bs" "owns (ubase s0) bs0 bs k res"
  obtains bs' where "keeps s0 bs0 (free s (pointer res)) bs'" "hdrs (ubase s0) bs' = hdrs (ubase s0) bs"
    "\<And>x. x < 2 ^ 64 \<Longrightarrow> x \<notin> hdrs (ubase s0) bs \<Longrightarrow> umem (free s (pointer res)) (of_nat x) = umem s (of_nat x)"
    "\<And>q. q \<noteq> res \<Longrightarrow> owns (ubase s0) bs0 bs k q \<Longrightarrow> owns (ubase s0) bs0 bs' k q"
proof (cases res)
  case None
  then show thesis using that [of bs] assms(1) by (simp add: free_def)
next
  case (Some p)
  then obtain c where e: "extra (ubase s0) bs0 bs p c" using assms(2) by (auto simp: owns_def)
  then have b: "blk_at (ubase s0) bs p c" by (simp add: extra_def)
  note L = kb.heap_ok_layout(2) [OF keepsD(1) [OF assms(1)]] and F = keeps_free [OF assms(1) e]
  have "owns (ubase s0) bs0 (set_blk free_blk p (ubase s0) bs) k q"
    if ne: "q \<noteq> res" and ar: "owns (ubase s0) bs0 bs k q" for q
    unfolding owns_def
  proof (intro allI impI)
    fix r assume "q = Some r"
    then have "r \<noteq> p" using ne Some by simp
    moreover obtain d where "extra (ubase s0) bs0 bs r d" "k + 8 \<le> bsize d"
      using ar \<open>q = Some r\<close> by (auto simp: owns_def)
    ultimately show "\<exists>d. extra (ubase s0) bs0 (set_blk free_blk p (ubase s0) bs) r d \<and> k + 8 \<le> bsize d"
      using extra_set [where f = free_blk, OF _ _ b L, of bs0 r d] by auto
  qed
  then show thesis
    using that [of "set_blk free_blk p (ubase s0) bs"] F Some hdrs_set_blk [of free_blk "ubase s0" p bs] by simp
qed

lemma free_two:
  assumes "keeps s0 bs0 s bs" "owns (ubase s0) bs0 bs k res1" "owns (ubase s0) bs0 bs k res2"
    "res1 = None \<or> res1 \<noteq> res2"
  obtains bs' where "keeps s0 bs0 (free (free s (pointer res1)) (pointer res2)) bs'"
    "\<And>x. x < 2 ^ 64 \<Longrightarrow> x \<notin> hdrs (ubase s0) bs \<Longrightarrow>
      umem (free (free s (pointer res1)) (pointer res2)) (of_nat x) = umem s (of_nat x)"
proof -
  obtain bs1 where 1: "keeps s0 bs0 (free s (pointer res1)) bs1" "hdrs (ubase s0) bs1 = hdrs (ubase s0) bs"
    "\<And>x. x < 2 ^ 64 \<Longrightarrow> x \<notin> hdrs (ubase s0) bs \<Longrightarrow> umem (free s (pointer res1)) (of_nat x) = umem s (of_nat x)"
    "\<And>q. q \<noteq> res1 \<Longrightarrow> owns (ubase s0) bs0 bs k q \<Longrightarrow> owns (ubase s0) bs0 bs1 k q"
    using free_array [OF assms(1,2)] by blast
  have "owns (ubase s0) bs0 bs1 k res2"
    using assms(3,4) 1(4) [of res2] by (cases "res2 = res1") (auto simp: owns_def)
  from free_array [OF 1(1) this] 1(2,3) that show thesis by metis
qed

text \<open>Marking both internal.\<close>

lemma intern_two:
  assumes "keeps s0 bs0 s bs" "extra (ubase s0) bs0 bs p (Used n sl)" "extra (ubase s0) bs0 bs q (Used n' sl')" "p \<noteq> q"
  defines "bs' \<equiv> set_blk intern_blk q (ubase s0) (set_blk intern_blk p (ubase s0) bs)"
    and "m \<equiv> set_state (set_state (umem s) (header_of (of_nat p)) BLOCK_INTERNAL) (header_of (of_nat q)) BLOCK_INTERNAL"
  shows "keeps s0 bs0 (s\<lparr>umem := m\<rparr>) bs'"
    "extra (ubase s0) bs0 bs' p (Internal n sl)" "extra (ubase s0) bs0 bs' q (Internal n' sl')"
    "blk_at (ubase s0) bs' r (Used k j) \<longleftrightarrow> r \<noteq> p \<and> r \<noteq> q \<and> blk_at (ubase s0) bs r (Used k j)"
    "hdrs (ubase s0) bs' = hdrs (ubase s0) bs"
proof -
  let ?bs = "set_blk intern_blk p (ubase s0) bs"
  note L = kb.heap_ok_layout(2) [OF keepsD(1) [OF assms(1)]] and P = keeps_intern [OF assms(1,2)]
  note L' = kb.heap_ok_layout(2) [OF keepsD(1) [OF P(1)]]
  have b: "blk_at (ubase s0) bs p (Used n sl)" using assms(2) by (simp add: extra_def)
  have q: "extra (ubase s0) bs0 ?bs q (Used n' sl')"
    using extra_set [where f = intern_blk, OF assms(3) _ b L] assms(4) by simp
  then have b': "blk_at (ubase s0) ?bs q (Used n' sl')" by (simp add: extra_def)
  note Q = keeps_intern [OF P(1) q]
  show "keeps s0 bs0 (s\<lparr>umem := m\<rparr>) bs'" using Q(1) by (simp add: bs'_def m_def)
  show "extra (ubase s0) bs0 bs' q (Internal n' sl')" using Q(2) by (simp add: bs'_def)
  show "extra (ubase s0) bs0 bs' p (Internal n sl)"
    using extra_set [where f = intern_blk, OF P(2) _ b' L'] assms(4) by (simp add: bs'_def)
  show "blk_at (ubase s0) bs' r (Used k j) \<longleftrightarrow> r \<noteq> p \<and> r \<noteq> q \<and> blk_at (ubase s0) bs r (Used k j)"
    using blk_at_set [where f = intern_blk, OF b L] blk_at_set [where f = intern_blk, OF b' L'] by (simp add: bs'_def)
  show "hdrs (ubase s0) bs' = hdrs (ubase s0) bs" by (simp add: bs'_def hdrs_set_blk)
qed

section \<open>Writing arrays\<close>

definition stores :: "(nat \<times> u64 list) list \<Rightarrow> mem \<Rightarrow> mem" where
  "stores l m = fold (\<lambda>(p, xs) m. store64s m (of_nat p) xs) l m"

definition slots :: "nat \<times> u64 list \<Rightarrow> nat set" where
  "slots e = {fst e..<fst e + 8 * length (snd e)}"

lemma stores_other:
  "list_all (\<lambda>e. fst e + 8 * length (snd e) \<le> 2 ^ 64 \<and> x \<notin> slots e) l \<Longrightarrow> x < 2 ^ 64 \<Longrightarrow>
   stores l m (of_nat x) = m (of_nat x)"
proof (induction l arbitrary: m)
  case (Cons e l)
  obtain p xs where e: "e = (p, xs)" by (cases e)
  have "store64s m (of_nat p) xs (of_nat x) = m (of_nat x)"
    using Cons.prems by (intro store64s_other) (auto simp: e slots_def)
  then show ?case using Cons by (simp add: stores_def e)
qed (simp add: stores_def)

lemma stores_load:
  assumes "list_all (\<lambda>e. fst e + 8 * length (snd e) \<le> 2 ^ 64) l" "sorted_wrt (\<lambda>e f. slots e \<inter> slots f = {}) l"
    "(p, xs) \<in> set l"
  shows "load64s (stores l m) (of_nat p) (length xs) = xs"
  using assms
proof (induction l arbitrary: m)
  case (Cons e l)
  show ?case
  proof (cases "e = (p, xs)")
    case True
    let ?m = "store64s m (of_nat p) xs"
    have "stores l ?m (of_nat x) = ?m (of_nat x)" if "p \<le> x" "x < p + 8 * length xs" for x
      using Cons.prems(1,2) that by (intro stores_other) (auto simp: True slots_def list_all_iff)
    then have "load64s (stores l ?m) (of_nat p) (length xs) = load64s ?m (of_nat p) (length xs)"
      using Cons.prems(1) by (intro load64s_cong) (auto simp: True)
    also have "\<dots> = xs" using Cons.prems(1) by (intro load_store64s) (simp add: True)
    finally show ?thesis by (simp add: stores_def True)
  next
    case False
    then show ?thesis using Cons by (cases e) (auto simp: stores_def)
  qed
qed simp

lemma payload_clear:
  assumes "extra a bs0 bs p b" "list_all wf_blk bs" "p \<le> x" "x < p + (bsize b - 8)"
  shows "x \<notin> hdrs a bs" "x \<notin> busy a bs0"
proof -
  show "x \<notin> hdrs a bs" using assms payload_not_hdr [of a bs p b x] by (simp add: extra_def)
  have "p - 8 \<le> x" using assms(3) by simp
  then have "x \<in> {p - 8..<p + (bsize b - 8)}" using assms(4) by (simp only: atLeastLessThan_iff)
  then show "x \<notin> busy a bs0" using assms(1) by (auto simp: extra_def)
qed

text \<open>Arrays in different extra blocks.\<close>

lemma write_arrays:
  assumes k: "keeps s0 bs0 s bs"
    and l: "list_all (\<lambda>e. \<exists>b. extra (ubase s0) bs0 bs (fst e) b \<and> 8 * length (snd e) + 8 \<le> bsize b) l"
    and d: "distinct (map fst l)" "l \<noteq> []"
  shows "keeps s0 bs0 (s\<lparr>umem := stores l (umem s)\<rparr>) bs"
    "(p, xs) \<in> set l \<Longrightarrow> load64s (stores l (umem s)) (of_nat p) (length xs) = xs"
proof -
  note K = keepsD [OF k] and L = kb.heap_ok_layout [OF keepsD(1) [OF k]]
  obtain e0 where "e0 \<in> set l" using d(2) by (cases l) auto
  then obtain b0 where "blk_at (ubase s) bs (fst e0) b0" using l K(2) by (auto simp: list_all_iff extra_def)
  then have i: "initialized s" by (rule kb.heap_ok_initialized [OF K(1)])
  have inside: "fst e + 8 * length (snd e) < 2 ^ 31 \<and> slots e \<inter> hdrs (ubase s0) bs = {} \<and> slots e \<inter> busy (ubase s0) bs0 = {}"
    if e: "e \<in> set l" for e
  proof -
    obtain b where b: "extra (ubase s0) bs0 bs (fst e) b" "8 * length (snd e) + 8 \<le> bsize b"
      using l e by (auto simp: list_all_iff)
    have "fst e + (bsize b - 8) < 2 ^ 31"
      using kb.blk_at_less [of "ubase s" bs "fst e" b] b(1) L K(2) by (simp add: extra_def)
    moreover have "x \<notin> hdrs (ubase s0) bs \<and> x \<notin> busy (ubase s0) bs0" if "x \<in> slots e" for x
    proof -
      have "fst e \<le> x" "x < fst e + (bsize b - 8)" using that b(2) by (auto simp: slots_def)
      then show ?thesis using payload_clear [OF b(1) L(2)] by simp
    qed
    ultimately show ?thesis using b(2) by auto
  qed
  have other: "stores l (umem s) (of_nat x) = umem s (of_nat x)"
    if "x < 2 ^ 64" "x \<in> hdrs (ubase s0) bs \<or> x \<in> busy (ubase s0) bs0" for x
    using inside that by (intro stores_other) (fastforce simp: list_all_iff)+
  have "x < 2 ^ 64" if "x \<in> hdrs (ubase s0) bs \<or> x \<in> busy (ubase s0) bs0" for x
    using that hdrs_range [OF L(2), of x "ubase s"] busy_range [of x "ubase s" bs] keeps_busy [OF k] L(3) K(2) by auto
  with other show "keeps s0 bs0 (s\<lparr>umem := stores l (umem s)\<rparr>) bs" by (intro keeps_write [OF k i]) auto
  have blk: "\<exists>b. blk_at (ubase s) bs (fst e) b \<and> 8 * length (snd e) + 8 \<le> bsize b" if "e \<in> set l" for e
    using l that K(2) by (auto simp: list_all_iff extra_def)
  have "slots e \<inter> slots f = {}" if e: "e \<in> set l" "f \<in> set l" "fst e \<noteq> fst f" for e f
  proof -
    obtain b c where "blk_at (ubase s) bs (fst e) b" "8 * length (snd e) + 8 \<le> bsize b"
      "blk_at (ubase s) bs (fst f) c" "8 * length (snd f) + 8 \<le> bsize c"
      using blk [OF e(1)] blk [OF e(2)] by blast
    then show ?thesis using payloads_apart [of "ubase s" bs "fst e" b "fst f" c] e(3) L(2) by (auto simp: slots_def)
  qed
  then have "sorted_wrt (\<lambda>e f. slots e \<inter> slots f = {}) l"
    using d(1) by (auto simp: sorted_wrt_iff_nth_less distinct_conv_nth)
  moreover have "list_all (\<lambda>e. fst e + 8 * length (snd e) \<le> 2 ^ 64) l" using inside by (fastforce simp: list_all_iff)
  ultimately show "(p, xs) \<in> set l \<Longrightarrow> load64s (stores l (umem s)) (of_nat p) (length xs) = xs"
    by (intro stores_load)
qed

section \<open>The sort\<close>

text \<open>The results are stored, then the scratch arrays are freed.\<close>

lemma store_and_free:
  assumes k: "keeps s0 bs0 t cs"
    and l: "list_all (\<lambda>e. \<exists>b. extra (ubase s0) bs0 cs (fst e) b \<and> 8 * length (snd e) + 8 \<le> bsize b) l" "distinct (map fst l)"
    and o: "owns (ubase s0) bs0 cs k res1" "owns (ubase s0) bs0 cs k res2" "res1 = None \<or> res1 \<noteq> res2"
    and e: "l \<noteq> []" and s': "s' = free (free (t\<lparr>umem := stores l (umem t)\<rparr>) (pointer res1)) (pointer res2)"
  obtains bs' where "keeps s0 bs0 s' bs'" "\<And>p xs. (p, xs) \<in> set l \<Longrightarrow> load64s (umem s') (of_nat p) (length xs) = xs"
proof -
  note W = write_arrays [OF k l e] and L = kb.heap_ok_layout [OF keepsD(1) [OF k]] and b = keepsD(2) [OF k]
  obtain bs' where bs': "keeps s0 bs0 s' bs'"
    "\<And>x. x < 2 ^ 64 \<Longrightarrow> x \<notin> hdrs (ubase s0) cs \<Longrightarrow> umem s' (of_nat x) = stores l (umem t) (of_nat x)"
    using free_two [OF W(1) o] unfolding s' by auto
  have "load64s (umem s') (of_nat p) (length xs) = xs" if px: "(p, xs) \<in> set l" for p xs
  proof -
    obtain c where c: "extra (ubase s0) bs0 cs p c" "8 * length xs + 8 \<le> bsize c"
      using l(1) px by (auto simp: list_all_iff)
    have "p + (bsize c - 8) < 2 ^ 31" using kb.blk_at_less [of "ubase t" cs p c] c(1) L b by (simp add: extra_def)
    then have "load64s (umem s') (of_nat p) (length xs) = load64s (stores l (umem t)) (of_nat p) (length xs)"
      using c payload_clear(1) [OF c(1) L(2)] by (intro load64s_cong bs'(2)) auto
    then show ?thesis using W(2) [OF px] by simp
  qed
  then show thesis using that bs'(1) by blast
qed

text \<open>An array in a block in use is kept.\<close>

lemma keeps_load:
  assumes "keeps s bs s' bs'" "blk_at (ubase s) bs p b" "in_use b" "8 * n + 8 \<le> bsize b" "uheap_ok s bs"
  shows "load64s (umem s') (of_nat p) n = load64s (umem s) (of_nat p) n" "p + 8 * n < 2 ^ 31"
proof -
  note L = kb.heap_ok_layout [OF assms(5)]
  show lt: "p + 8 * n < 2 ^ 31" using kb.blk_at_less [OF assms(2) L(2)] L(3) assms(4) by simp
  show "load64s (umem s') (of_nat p) n = load64s (umem s) (of_nat p) n"
    using lt assms(4) payload_busy [OF assms(2,3) L(2)] keepsD(4) [OF assms(1)] by (intro load64s_cong) auto
qed

lemma extra_neq: "extra a bs cs r b \<Longrightarrow> list_all wf_blk cs \<Longrightarrow> blk_at a bs p c \<Longrightarrow> in_use c \<Longrightarrow> 0 < bsize c \<Longrightarrow> r \<noteq> p"
  using blk_busy [of a bs p c] extra_hdr [of a bs cs r b] kb.blk_at_ge [of a bs p c] by auto

text \<open>
  Either sort on two arrays in memory, with scratch arrays \<open>l\<close> of its own or none: what it stores is a
  descending permutation of what was there.
\<close>

context pair_sort begin

lemma sorted_in_place:
  assumes k: "keeps s0 bs0 s bs" and at: "blk_at (ubase s) bs p b" "in_use b" "8 * n + 8 \<le> bsize b"
      "blk_at (ubase s) bs q c" "in_use c" "8 * n + 8 \<le> bsize c"
    and k2: "keeps s bs t cs" and sorted: "sorts n (load64s (umem t) (of_nat p) n) (load64s (umem t) (of_nat q) n) xs ys"
    and l: "list_all (\<lambda>e. \<exists>b. extra (ubase s0) bs0 cs (fst e) b \<and> 8 * length (snd e) + 8 \<le> bsize b) ((p, xs) # (q, ys) # l)"
      "distinct (map fst ((p, xs) # (q, ys) # l))"
    and o: "owns (ubase s0) bs0 cs (8 * n) res1" "owns (ubase s0) bs0 cs (8 * n) res2" "res1 = None \<or> res1 \<noteq> res2"
    and s': "s' = free (free (t\<lparr>umem := stores ((p, xs) # (q, ys) # l) (umem t)\<rparr>) (pointer res1)) (pointer res2)"
  shows "\<exists>bs'. keeps s0 bs0 s' bs' \<and>
    mset (zip (load64s (umem s') (of_nat p) n) (load64s (umem s') (of_nat q) n)) =
      mset (zip (load64s (umem s) (of_nat p) n) (load64s (umem s) (of_nat q) n)) \<and>
    desc (zip (load64s (umem s') (of_nat p) n) (load64s (umem s') (of_nat q) n))"
proof -
  have load: "load64s (umem t) (of_nat p) n = load64s (umem s) (of_nat p) n" "load64s (umem t) (of_nat q) n = load64s (umem s) (of_nat q) n"
    using keeps_load(1) [OF k2 at(1-3) keepsD(1) [OF k]] keeps_load(1) [OF k2 at(4-6) keepsD(1) [OF k]] by simp_all
  note M = sorts_pairs [OF sorted length_load64s length_load64s]
  obtain bs' where "keeps s0 bs0 s' bs'"
    "\<And>a zs. (a, zs) \<in> set ((p, xs) # (q, ys) # l) \<Longrightarrow> load64s (umem s') (of_nat a) (length zs) = zs"
    using store_and_free [OF keeps_trans [OF k k2] l o list.distinct(2) s'] by blast
  then show ?thesis using M load by (intro exI [of _ bs']) (metis list.set_intros)
qed

end

text \<open>With scratch arrays: the merge sort.\<close>

lemma merge_sort_keeps:
  assumes k: "keeps s0 bs0 s bs" and p: "extra (ubase s0) bs0 bs p b" "8 * n + 8 \<le> bsize b"
    and q: "extra (ubase s0) bs0 bs q c" "8 * n + 8 \<le> bsize c" and pq: "p \<noteq> q"
    and k2: "keeps s bs s2 bs2" and r: "extra (ubase s) bs bs2 r1 (Used n1 j1)" "8 * n + 8 + j1 \<le> n1"
      "extra (ubase s) bs bs2 r2 (Used n2 j2)" "8 * n + 8 + j2 \<le> n2" "r1 \<noteq> r2"
    and m: "m = set_state (set_state (umem s2) (header_of (of_nat r1)) BLOCK_INTERNAL) (header_of (of_nat r2)) BLOCK_INTERNAL"
    and sorted: "merge_sort_descending 0 n (load64s m (of_nat p) n, load64s m (of_nat q) n,
        load64s m (of_nat r1) n, load64s m (of_nat r2) n) = (xs, ys, ts, tp)"
    and s': "s' = free (free (s2\<lparr>umem := stores [(p, xs), (q, ys), (r1, ts), (r2, tp)] m\<rparr>) (of_nat r1)) (of_nat r2)"
  shows "\<exists>bs'. keeps s0 bs0 s' bs' \<and>
    mset (zip (load64s (umem s') (of_nat p) n) (load64s (umem s') (of_nat q) n)) =
      mset (zip (load64s (umem s) (of_nat p) n) (load64s (umem s) (of_nat q) n)) \<and>
    desc (zip (load64s (umem s') (of_nat p) n) (load64s (umem s') (of_nat q) n))"
proof -
  note K = keepsD [OF k] and L = kb.heap_ok_layout(2) [OF keepsD(1) [OF k]]
  let ?bs3 = "set_blk intern_blk r2 (ubase s) (set_blk intern_blk r1 (ubase s) bs2)" and ?s3 = "s2\<lparr>umem := m\<rparr>"
  note I = intern_two [OF k2 r(1,3,5), folded m] and L3 = kb.heap_ok_layout(2) [OF keepsD(1) [OF intern_two(1) [OF k2 r(1,3,5)]]]
  have at: "blk_at (ubase s) bs p b" "in_use b" "blk_at (ubase s) bs q c" "in_use c"
    using p(1) q(1) K(2) by (simp_all add: extra_def)
  have ex: "extra (ubase s0) bs0 ?bs3 p b" "extra (ubase s0) bs0 ?bs3 q c"
    "extra (ubase s0) bs0 ?bs3 r1 (Internal n1 j1)" "extra (ubase s0) bs0 ?bs3 r2 (Internal n2 j2)"
    using keeps_extra [OF p(1) I(1)] keeps_extra [OF q(1) I(1)] extra_mono [OF I(2)] extra_mono [OF I(3)]
      keeps_busy [OF k] K(2) by simp_all
  have "16 \<le> bsize b" "16 \<le> bsize c" using bsize_ge16 [OF at(1) L] bsize_ge16 [OF at(3) L] .
  then have apart: "r1 \<noteq> p" "r1 \<noteq> q" "r2 \<noteq> p" "r2 \<noteq> q"
    using extra_neq [OF I(2) L3 at(1,2)] extra_neq [OF I(2) L3 at(3,4)] extra_neq [OF I(3) L3 at(1,2)]
      extra_neq [OF I(3) L3 at(3,4)] by simp_all
  have "arr_ok n (load64s m (of_nat p) n, load64s m (of_nat q) n, load64s m (of_nat r1) n, load64s m (of_nat r2) n)"
    by (simp add: arr_ok_def)
  from merge_sort_sorts(1) [OF this sorted] have len: "length xs = n" "length ys = n" "length ts = n" "length tp = n"
    by (simp_all add: arr_ok_def)
  let ?l = "[(p, xs), (q, ys), (r1, ts), (r2, tp)]"
  have l: "list_all (\<lambda>e. \<exists>b. extra (ubase s0) bs0 ?bs3 (fst e) b \<and> 8 * length (snd e) + 8 \<le> bsize b) ?l"
    using ex p(2) q(2) r(2,4) by (fastforce simp: len)
  have o: "owns (ubase s0) bs0 ?bs3 (8 * n) (Some r1)" "owns (ubase s0) bs0 ?bs3 (8 * n) (Some r2)"
    using ex(3,4) r(2,4) by (fastforce simp: owns_def)+
  have d: "distinct (map fst ?l)" "Some r1 = None \<or> Some r1 \<noteq> Some r2" using pq apart r(5) by auto
  have "merge_sorts n (load64s m (of_nat p) n) (load64s m (of_nat q) n) xs ys"
    unfolding merge_sorts_def using sorted length_load64s by blast
  then have "merge_sorts n (load64s (umem ?s3) (of_nat p) n) (load64s (umem ?s3) (of_nat q) n) xs ys" by simp
  from merging.sorted_in_place [OF k at(1,2) p(2) at(3,4) q(2) I(1) this l d(1) o d(2), of s'] s'
  show ?thesis by simp
qed

text \<open>Without: the selection sort in place.\<close>

lemma selection_sort_keeps:
  assumes k: "keeps s0 bs0 s bs" and p: "extra (ubase s0) bs0 bs p b" "8 * n + 8 \<le> bsize b"
    and q: "extra (ubase s0) bs0 bs q c" "8 * n + 8 \<le> bsize c" and pq: "p \<noteq> q"
    and k2: "keeps s bs s2 bs2" and r: "owns (ubase s) bs bs2 (8 * n) res1" "owns (ubase s) bs bs2 (8 * n) res2" "res1 = None \<or> res1 \<noteq> res2"
    and sorted: "selection_sort n (load64s (umem s2) (of_nat p) n, load64s (umem s2) (of_nat q) n) = (xs, ys)"
    and s': "s' = free (free (s2\<lparr>umem := stores [(p, xs), (q, ys)] (umem s2)\<rparr>) (pointer res1)) (pointer res2)"
  shows "\<exists>bs'. keeps s0 bs0 s' bs' \<and>
    mset (zip (load64s (umem s') (of_nat p) n) (load64s (umem s') (of_nat q) n)) =
      mset (zip (load64s (umem s) (of_nat p) n) (load64s (umem s) (of_nat q) n)) \<and>
    desc (zip (load64s (umem s') (of_nat p) n) (load64s (umem s') (of_nat q) n))"
proof -
  note K = keepsD [OF k]
  have at: "blk_at (ubase s) bs p b" "in_use b" "blk_at (ubase s) bs q c" "in_use c"
    using p(1) q(1) K(2) by (simp_all add: extra_def)
  have ex: "extra (ubase s0) bs0 bs2 p b" "extra (ubase s0) bs0 bs2 q c"
    using keeps_extra [OF p(1) k2] keeps_extra [OF q(1) k2] K(2) by simp_all
  have "owns (ubase s0) bs0 bs2 (8 * n) res" if "owns (ubase s) bs bs2 (8 * n) res" for res
    using that extra_mono keeps_busy [OF k] K(2) unfolding owns_def by metis
  then have o: "owns (ubase s0) bs0 bs2 (8 * n) res1" "owns (ubase s0) bs0 bs2 (8 * n) res2" using r by blast+
  have "length xs = n" "length ys = n" using selection_sort_spec [OF length_load64s length_load64s sorted] by simp_all
  then have l: "list_all (\<lambda>e. \<exists>b. extra (ubase s0) bs0 bs2 (fst e) b \<and> 8 * length (snd e) + 8 \<le> bsize b) [(p, xs), (q, ys)]"
    using ex p(2) q(2) by fastforce
  have d: "distinct (map fst [(p, xs), (q, ys)])" using pq by simp
  have "selection_sorts n (load64s (umem s2) (of_nat p) n) (load64s (umem s2) (of_nat q) n) xs ys"
    using sorted by (simp add: selection_sorts_def)
  from selecting.sorted_in_place [OF k at(1,2) p(2) at(3,4) q(2) k2 this l d o r(3) s'] show ?thesis .
qed

lemma sort_descending_keeps:
  assumes k: "keeps s0 bs0 s bs" and p: "extra (ubase s0) bs0 bs p b" "8 * n + 8 \<le> bsize b"
    and q: "extra (ubase s0) bs0 bs q c" "8 * n + 8 \<le> bsize c" and pq: "p \<noteq> q"
  obtains s' bs' where "sort_descending user_sbrk s (of_nat p) (of_nat q) n = Some s'" "keeps s0 bs0 s' bs'"
    "mset (zip (load64s (umem s') (of_nat p) n) (load64s (umem s') (of_nat q) n)) =
     mset (zip (load64s (umem s) (of_nat p) n) (load64s (umem s) (of_nat q) n))"
    "desc (zip (load64s (umem s') (of_nat p) n) (load64s (umem s') (of_nat q) n))"
proof -
  note K = keepsD [OF k] and L = kb.heap_ok_layout [OF keepsD(1) [OF k]]
  have at: "blk_at (ubase s) bs p b" "in_use b" "blk_at (ubase s) bs q c" "in_use c"
    using p(1) q(1) K(2) by (simp_all add: extra_def)
  let ?S = "load64s (umem s) (of_nat p) n" and ?T = "load64s (umem s) (of_nat q) n"
  have "p + 8 * n < 2 ^ 31" by (rule keeps_load(2) [OF keeps_refl [OF K(1)] at(1,2) p(2) K(1)])
  then have sz: "unat (8 * of_nat n :: u64) = 8 * n" using unat_of_nat64 [of "8 * n"] by simp
  obtain res1 bs1 where sp1: "spec_malloc break_limit (ubase s) bs (8 * n) = (res1, bs1)" by fastforce
  obtain res2 bs2 where sp2: "spec_malloc break_limit (ubase s) bs1 (8 * n) = (res2, bs2)" by fastforce
  obtain s1 s2 where m: "malloc user_sbrk s (8 * of_nat n) = Some (pointer res1, s1)"
    "malloc user_sbrk s1 (8 * of_nat n) = Some (pointer res2, s2)" and k2: "keeps s bs s2 bs2"
    and a: "array_of (ubase s) bs bs2 (8 * n) res1" "array_of (ubase s) bs bs2 (8 * n) res2" and ne: "res1 = None \<or> res1 \<noteq> res2"
    using malloc_two [OF K(1), of "8 * of_nat n" res1 bs1 res2 bs2] sp1 sp2 sz \<open>p + 8 * n < 2 ^ 31\<close> by auto
  note L2 = kb.heap_ok_layout(2) [OF keepsD(1) [OF k2]]
  show thesis
  proof (cases "res1 = None \<or> res2 = None")
    case True
    obtain xs ys where xy: "selection_sort n (load64s (umem s2) (of_nat p) n, load64s (umem s2) (of_nat q) n) = (xs, ys)"
      by fastforce
    then have run: "sort_descending user_sbrk s (of_nat p) (of_nat q) n =
        Some (free (free (s2\<lparr>umem := stores [(p, xs), (q, ys)] (umem s2)\<rparr>) (pointer res1)) (pointer res2))"
      using True m by (auto simp: sort_descending_def stores_def)
    show thesis
      using selection_sort_keeps [OF k p q pq k2 owns_array [OF a(1)] owns_array [OF a(2)] ne xy refl] that [OF run] by metis
  next
    case False
    then obtain r1 r2 where r: "res1 = Some r1" "res2 = Some r2" "r1 \<noteq> r2" using ne by auto
    obtain n1 j1 n2 j2 where e: "extra (ubase s) bs bs2 r1 (Used n1 j1)" "8 * n + 8 + j1 \<le> n1"
      "extra (ubase s) bs bs2 r2 (Used n2 j2)" "8 * n + 8 + j2 \<le> n2" using a r by (auto simp: array_of_def)
    have nn: "(of_nat r1 :: addr) \<noteq> NULL" "(of_nat r2 :: addr) \<noteq> NULL"
      using extra_header [OF e(1) k2] extra_header [OF e(3) k2] by simp_all
    define m' where "m' = set_state (set_state (umem s2) (header_of (of_nat r1)) BLOCK_INTERNAL) (header_of (of_nat r2)) BLOCK_INTERNAL"
    obtain xs ys ts tp where xy: "merge_sort_descending 0 n (load64s m' (of_nat p) n, load64s m' (of_nat q) n,
        load64s m' (of_nat r1) n, load64s m' (of_nat r2) n) = (xs, ys, ts, tp)" by (metis prod_cases4)
    then have run: "sort_descending user_sbrk s (of_nat p) (of_nat q) n =
        Some (free (free (s2\<lparr>umem := stores [(p, xs), (q, ys), (r1, ts), (r2, tp)] m'\<rparr>) (of_nat r1)) (of_nat r2))"
      using m r nn by (simp add: sort_descending_def stores_def flip: m'_def)
    show thesis using merge_sort_keeps [OF k p q pq k2 e r(3) m'_def xy refl] that [OF run] by metis
  qed
qed

end
