(* ===== verification/Heap_Info_Props.thy ===== *)
theory Heap_Info_Props
  imports Heap_Report
begin

text \<open>
  The report of \<^verbatim>\<open>heap_info\<close> over the kernel's \<^verbatim>\<open>sbrk\<close>, from the walks of \<open>Heap_Walk\<close> and the array
  and sort lemmas of \<open>Heap_Report\<close>.
\<close>

section \<open>The walks on a process's heap\<close>

lemma heap_ends:
  assumes "uheap_ok s bs" "initialized s"
  shows "managed_memory_start s = of_nat (ubase s)" "unat (last_valid_address s) = ubase s + bsizes bs"
  using assms by (simp_all add: heap_ok_def heap_base_def)

lemma count_used_heap:
  assumes "uheap_ok s bs" "initialized s"
  shows "count_used (umem s) (last_valid_address s) (managed_memory_start s) 0 = Some (length (used_pairs (ubase s) bs))"
  using count_used_spec [OF kb.heap_ok_layout(1,2) [OF assms(1)] heap_ends(2) [OF assms], of 0] heap_ends(1) [OF assms]
  by simp

text \<open>The walk that fills two arrays in blocks that are not the client's.\<close>

lemma info_walk_heap:
  assumes k: "keeps s0 bs0 s bs" and p: "extra (ubase s0) bs0 bs p b" "8 * n + 8 \<le> bsize b"
    and q: "extra (ubase s0) bs0 bs q c" "8 * n + 8 \<le> bsize c" "p \<noteq> q"
    and n: "length (used_pairs (ubase s0) bs) = n"
  obtains m where "info_walk (umem s) (last_valid_address s) (managed_memory_start s) (of_nat p) (of_nat q) 0 0 0 =
      Some (m, n, int (free_total bs), int (largest_free bs))"
    "keeps s0 bs0 (s\<lparr>umem := m\<rparr>) bs"
    "zip (load64s m (of_nat p) n) (load64s m (of_nat q) n) = used_pairs (ubase s0) bs"
proof -
  note K = keepsD [OF k] and L = kb.heap_ok_layout [OF keepsD(1) [OF k]]
  have at: "blk_at (ubase s) bs p b" "blk_at (ubase s) bs q c" using p(1) q(1) K(2) by (simp_all add: extra_def)
  have i: "initialized s" by (rule kb.heap_ok_initialized [OF K(1) at(1)])
  note E = heap_ends [OF K(1) i]
  have ap: "apart n p q"
    using payloads_apart [OF at q(3) L(2)] kb.blk_at_less [OF at(1) L(2)] kb.blk_at_less [OF at(2) L(2)] L(3) p(2) q(2)
    by (auto simp: apart_def)
  have out: "outside n p q x" if "x \<in> hdrs (ubase s) bs \<or> x \<in> busy (ubase s0) bs0" for x
  proof -
    have "x < 2 ^ 64"
      using that hdrs_range [OF L(2), of x "ubase s"] busy_range [of x "ubase s" bs] keeps_busy [OF k] L(3) K(2) by auto
    moreover have "x < p \<or> p + (bsize b - 8) \<le> x" "x < q \<or> q + (bsize c - 8) \<le> x"
      using that payload_clear [OF p(1) L(2)] payload_clear [OF q(1) L(2)] K(2) by (metis not_le)+
    ultimately show ?thesis using p(2) q(2) by (auto simp: outside_def)
  qed
  obtain m where m: "info_walk (umem s) (last_valid_address s) (of_nat (ubase s)) (of_nat p) (of_nat q) 0 0 0 =
      Some (m, n, int (free_total bs), int (largest_free bs))"
    "load64s m (of_nat p) n = map fst (used_pairs (ubase s) bs)" "load64s m (of_nat q) n = map snd (used_pairs (ubase s) bs)"
    "\<And>x. outside n p q x \<Longrightarrow> m (of_nat x) = umem s (of_nat x)"
    using info_walk_spec [OF L(1,2) E(2) L(3) ap out, of 0 0 0] n K(2) by (auto simp: load64s_def)
  have "keeps s0 bs0 (s\<lparr>umem := m\<rparr>) bs" using out m(4) K(2) by (intro keeps_write [OF k i]) auto
  then show thesis using that m(1-3) E(1) K(2) by (simp add: zip_map_fst_snd)
qed

section \<open>Without live allocations\<close>

lemma heap_info_none:
  assumes ok: "uheap_ok s bs" "initialized s" and n: "used_pairs (ubase s) bs = []"
  shows "\<exists>s'. heap_info user_sbrk s = Some (0, \<lparr>num_allocs = 0, size_array = NULL, ptr_array = NULL,
      free_space = int (free_total bs), largest_free_chunk = int (largest_free bs)\<rparr>, s') \<and> keeps s bs s' bs"
proof -
  note L = kb.heap_ok_layout [OF ok(1)] and E = heap_ends [OF ok]
  have "apart 0 0 0" by (simp add: apart_def)
  moreover have "outside 0 0 0 x" if "x \<in> hdrs (ubase s) bs \<or> x \<in> busy (ubase s) bs" for x
    using that hdrs_range [OF L(2), of x "ubase s"] busy_range [of x "ubase s" bs] L(3) by (auto simp: outside_def)
  ultimately obtain m where m: "info_walk (umem s) (last_valid_address s) (of_nat (ubase s)) (of_nat 0) (of_nat 0) 0 0 0 =
      Some (m, 0, int (free_total bs), int (largest_free bs))"
    "\<And>x. x \<in> hdrs (ubase s) bs \<or> x \<in> busy (ubase s) bs \<Longrightarrow> m (of_nat x) = umem s (of_nat x)"
    using info_walk_spec [OF L(1,2) E(2) L(3), of 0 0 0 0 0 0] n by fastforce
  have "keeps s bs (s\<lparr>umem := m\<rparr>) bs" using m(2) by (intro keeps_write [OF keeps_refl [OF ok(1)] ok(2)]) auto
  then show ?thesis using m(1) ok(2) count_used_heap [OF ok] n E(1)
    by (simp add: heap_info_def alloc_arrays_def)
qed

section \<open>With live allocations\<close>

text \<open>The arrays are in no block that the client uses, and marking them internal hides them.\<close>

lemma used_pairs_hidden:
  assumes ok: "uheap_ok s bs" and k: "keeps s bs s2 bs2" and r: "extra (ubase s) bs bs2 p (Used n1 j1)"
      "extra (ubase s) bs bs2 q (Used n2 j2)" "p \<noteq> q"
    and only: "\<And>r b. blk_at (ubase s) bs2 r b \<Longrightarrow> in_use b \<Longrightarrow> blk_at (ubase s) bs r b \<or> r = p \<or> r = q"
  shows "mset (used_pairs (ubase s) (set_blk intern_blk q (ubase s) (set_blk intern_blk p (ubase s) bs2))) =
    mset (used_pairs (ubase s) bs)"
proof -
  let ?bs3 = "set_blk intern_blk q (ubase s) (set_blk intern_blk p (ubase s) bs2)"
  note I = intern_two [OF k r] and L = kb.heap_ok_layout [OF ok] and L2 = kb.heap_ok_layout [OF keepsD(1) [OF k]]
  note L3 = kb.heap_ok_layout [OF keepsD(1) [OF I(1)]]
  have "blk_at (ubase s) ?bs3 x (Used m j) \<longleftrightarrow> blk_at (ubase s) bs x (Used m j)" for x m j
  proof
    assume "blk_at (ubase s) ?bs3 x (Used m j)"
    then show "blk_at (ubase s) bs x (Used m j)" using only [of x "Used m j"] I(4) by auto
  next
    assume b: "blk_at (ubase s) bs x (Used m j)"
    have "p \<noteq> x" "q \<noteq> x"
      using extra_neq [OF r(1) L2(2) b] extra_neq [OF r(2) L2(2) b] bsize_ge16 [OF b L(2)] by auto
    then show "blk_at (ubase s) ?bs3 x (Used m j)" using I(4) keepsD(3) [OF k b] by simp
  qed
  moreover have "ubase s + bsizes ?bs3 < 2 ^ 31" using L3(3) keepsD(2) [OF I(1)] by simp
  ultimately show ?thesis using L(3) by (intro used_pairs_mset [OF L(2) _ L3(2)]) auto
qed

lemma heap_info_some:
  assumes ok: "uheap_ok s bs" "initialized s" and n: "n = length (used_pairs (ubase s) bs)" "0 < n"
    and m: "malloc user_sbrk s (8 * of_nat n) = Some (of_nat p, s1)" "malloc user_sbrk s1 (8 * of_nat n) = Some (of_nat q, s2)"
    and k: "keeps s bs s2 bs2" and r: "extra (ubase s) bs bs2 p (Used n1 j1)" "8 * n + 8 + j1 \<le> n1"
      "extra (ubase s) bs bs2 q (Used n2 j2)" "8 * n + 8 + j2 \<le> n2" "p \<noteq> q"
    and only: "\<And>r b. blk_at (ubase s) bs2 r b \<Longrightarrow> in_use b \<Longrightarrow> blk_at (ubase s) bs r b \<or> r = p \<or> r = q"
  shows "\<exists>s' bs'. heap_info user_sbrk s = Some (0, \<lparr>num_allocs = int n, size_array = of_nat p, ptr_array = of_nat q,
      free_space = int (free_total bs2), largest_free_chunk = int (largest_free bs2)\<rparr>, s') \<and> keeps s bs s' bs' \<and>
    mset (zip (load64s (umem s') (of_nat p) n) (load64s (umem s') (of_nat q) n)) = mset (used_pairs (ubase s) bs) \<and>
    desc (zip (load64s (umem s') (of_nat p) n) (load64s (umem s') (of_nat q) n))"
proof -
  let ?m = "set_state (set_state (umem s2) (header_of (of_nat p)) BLOCK_INTERNAL) (header_of (of_nat q)) BLOCK_INTERNAL"
  let ?s3 = "s2\<lparr>umem := ?m\<rparr>" and ?bs3 = "set_blk intern_blk q (ubase s) (set_blk intern_blk p (ubase s) bs2)"
  note I = intern_two [OF k r(1,3,5)] and H = used_pairs_hidden [OF ok(1) k r(1,3,5) only]
  have nn: "(of_nat p :: addr) \<noteq> NULL" "(of_nat q :: addr) \<noteq> NULL"
    using extra_header [OF r(1) k] extra_header [OF r(3) k] by simp_all
  have arrs: "alloc_arrays user_sbrk s n = Some (Some (of_nat p, of_nat q), ?s3)"
    using n(2) m nn by (simp add: alloc_arrays_def)
  have big: "8 * n + 8 \<le> bsize (Internal n1 j1)" "8 * n + 8 \<le> bsize (Internal n2 j2)" using r(2,4) by simp_all
  have len: "length (used_pairs (ubase s) ?bs3) = n" using arg_cong [OF H, of size] n(1) by simp
  obtain m4 where w: "info_walk (umem ?s3) (last_valid_address ?s3) (managed_memory_start ?s3) (of_nat p) (of_nat q) 0 0 0 =
      Some (m4, n, int (free_total ?bs3), int (largest_free ?bs3))"
    "keeps s bs (?s3\<lparr>umem := m4\<rparr>) ?bs3"
    "zip (load64s m4 (of_nat p) n) (load64s m4 (of_nat q) n) = used_pairs (ubase s) ?bs3"
    by (rule info_walk_heap [OF I(1,2) big(1) I(3) big(2) r(5) len])
  obtain s' bs' where s': "sort_descending user_sbrk (?s3\<lparr>umem := m4\<rparr>) (of_nat p) (of_nat q) n = Some s'" "keeps s bs s' bs'"
    "mset (zip (load64s (umem s') (of_nat p) n) (load64s (umem s') (of_nat q) n)) = mset (used_pairs (ubase s) ?bs3)"
    "desc (zip (load64s (umem s') (of_nat p) n) (load64s (umem s') (of_nat q) n))"
    using sort_descending_keeps [OF w(2) I(2) big(1) I(3) big(2) r(5)] w(3) by simp metis
  have "heap_info user_sbrk s = Some (0, \<lparr>num_allocs = int n, size_array = of_nat p, ptr_array = of_nat q,
      free_space = int (free_total bs2), largest_free_chunk = int (largest_free bs2)\<rparr>, s')"
    using ok(2) count_used_heap [OF ok] arrs w(1) s'(1) n free_totals_intern by (simp add: heap_info_def)
  then show ?thesis using s'(2-4) H by auto
qed

lemma used_pairs_length: "list_all wf_blk bs \<Longrightarrow> 16 * length (used_pairs a bs) \<le> bsizes bs"
proof (induction bs arbitrary: a)
  case (Cons b bs)
  have "16 * length (used_pairs (a + bsize b) bs) \<le> bsizes bs" using Cons.prems by (intro Cons.IH) simp
  moreover have "16 \<le> bsize b" using Cons.prems by (intro wf_blk_size) simp
  ultimately show ?case by (cases b) simp_all
qed simp

text \<open>Both arrays, as the two calls of \<^verbatim>\<open>malloc\<close> give them.\<close>

lemma arrays_allocated:
  assumes ok: "uheap_ok s bs" and n: "n = length (used_pairs (ubase s) bs)"
    and sp: "spec_malloc break_limit (ubase s) bs (8 * n) = (res1, bs1)"
      "spec_malloc break_limit (ubase s) bs1 (8 * n) = (res2, bs2)"
  obtains s1 s2 where "malloc user_sbrk s (8 * of_nat n) = Some (pointer res1, s1)"
    "malloc user_sbrk s1 (8 * of_nat n) = Some (pointer res2, s2)" "keeps s bs s2 bs2"
    "array_of (ubase s) bs bs2 (8 * n) res1" "array_of (ubase s) bs bs2 (8 * n) res2" "res1 = None \<or> res1 \<noteq> res2"
proof -
  note L = kb.heap_ok_layout [OF ok]
  have "16 * n \<le> bsizes bs" unfolding n by (rule used_pairs_length [OF L(2)])
  then have sz: "unat (8 * of_nat n :: u64) = 8 * n" "8 * n + 16 \<le> 2 ^ 63"
    using L(3) unat_of_nat64 [of "8 * n"] by simp_all
  then show thesis using malloc_two [OF ok, of "8 * of_nat n" res1 bs1 res2 bs2] sp that by auto
qed

lemma heap_info_fails:
  assumes ok: "uheap_ok s bs" "initialized s" and n: "n = length (used_pairs (ubase s) bs)" "0 < n"
    and sp: "spec_malloc break_limit (ubase s) bs (8 * n) = (res1, bs1)"
      "spec_malloc break_limit (ubase s) bs1 (8 * n) = (res2, bs2)" and f: "res1 = None \<or> res2 = None"
  shows "\<exists>s' bs'. heap_info user_sbrk s = Some (- 1, zero_info, s') \<and> keeps s bs s' bs'"
proof -
  obtain s1 s2 where m: "malloc user_sbrk s (8 * of_nat n) = Some (pointer res1, s1)"
    "malloc user_sbrk s1 (8 * of_nat n) = Some (pointer res2, s2)" and k: "keeps s bs s2 bs2"
    and a: "array_of (ubase s) bs bs2 (8 * n) res1" "array_of (ubase s) bs bs2 (8 * n) res2" and ne: "res1 = None \<or> res1 \<noteq> res2"
    by (rule arrays_allocated [OF ok(1) n(1) sp])
  obtain bs' where kf: "keeps s bs (free (free s2 (pointer res1)) (pointer res2)) bs'"
    using free_two [OF k owns_array [OF a(1)] owns_array [OF a(2)] ne] by blast
  have "alloc_arrays user_sbrk s n = Some (None, free (free s2 (pointer res1)) (pointer res2))"
    using n(2) m disjE [OF f, of "pointer res1 = NULL \<or> pointer res2 = NULL"] by (simp add: alloc_arrays_def)
  then have "heap_info user_sbrk s = Some (- 1, zero_info, free (free s2 (pointer res1)) (pointer res2))"
    using ok(2) count_used_heap [OF ok] by (simp add: heap_info_def flip: n(1))
  then show ?thesis using kf by blast
qed

lemma heap_info_reports:
  assumes ok: "uheap_ok s bs" "initialized s" and n: "n = length (used_pairs (ubase s) bs)" "0 < n"
    and sp: "spec_malloc break_limit (ubase s) bs (8 * n) = (Some p, bs1)"
      "spec_malloc break_limit (ubase s) bs1 (8 * n) = (Some q, bs2)"
  shows "\<exists>s' bs'. heap_info user_sbrk s = Some (0, \<lparr>num_allocs = int n, size_array = of_nat p, ptr_array = of_nat q,
      free_space = int (free_total bs2), largest_free_chunk = int (largest_free bs2)\<rparr>, s') \<and> keeps s bs s' bs' \<and>
    mset (zip (load64s (umem s') (of_nat p) n) (load64s (umem s') (of_nat q) n)) = mset (used_pairs (ubase s) bs) \<and>
    desc (zip (load64s (umem s') (of_nat p) n) (load64s (umem s') (of_nat q) n))"
proof -
  obtain s1 s2 where m: "malloc user_sbrk s (8 * of_nat n) = Some (of_nat p, s1)"
    "malloc user_sbrk s1 (8 * of_nat n) = Some (of_nat q, s2)" and k: "keeps s bs s2 bs2"
    and a: "array_of (ubase s) bs bs2 (8 * n) (Some p)" "array_of (ubase s) bs bs2 (8 * n) (Some q)" and ne: "p \<noteq> q"
    by (rule arrays_allocated [OF ok(1) n(1) sp, unfolded pointer_simps]) auto
  obtain n1 j1 n2 j2 where e: "extra (ubase s) bs bs2 p (Used n1 j1)" "8 * n + 8 + j1 \<le> n1"
    "extra (ubase s) bs bs2 q (Used n2 j2)" "8 * n + 8 + j2 \<le> n2" using a by (auto simp: array_of_def)
  have "blk_at (ubase s) bs r b \<or> r = p \<or> r = q" if "blk_at (ubase s) bs2 r b" "in_use b" for r b
    using spec_malloc_only [OF sp(2) that] spec_malloc_only [OF sp(1) _ that(2)] by blast
  from heap_info_some [OF ok n m k e ne this] show ?thesis by blast
qed

section \<open>The property\<close>

text \<open>
  C14. The report of \<^verbatim>\<open>heap_info\<close> on a well-formed heap. It fails exactly when one of its two arrays,
  of 8 bytes for each live allocation, cannot be allocated. Otherwise it gives the number of live
  allocations, the total and the largest of the free blocks that are left once the arrays exist,
  and two arrays whose (size, pointer) pairs are those of the live allocations, in descending
  order of size. In every case the blocks in use keep their places and contents, and blocks of
  the report itself are not counted.
\<close>

theorem heap_info_correct:
  assumes ok: "uheap_ok s bs" "initialized s" and n: "n = length (used_pairs (ubase s) bs)"
    and sp: "spec_malloc break_limit (ubase s) bs (8 * n) = (res1, bs1)"
      "spec_malloc break_limit (ubase s) bs1 (8 * n) = (res2, bs2)"
  shows "\<exists>r info s' bs'. heap_info user_sbrk s = Some (r, info, s') \<and> keeps s bs s' bs' \<and>
    (if 0 < n \<and> (res1 = None \<or> res2 = None) then r = - 1 \<and> info = zero_info
     else r = 0 \<and> num_allocs info = int n \<and> free_space info = int (free_total bs2) \<and>
       largest_free_chunk info = int (largest_free bs2) \<and>
       (let w = zip (load64s (umem s') (size_array info) n) (load64s (umem s') (ptr_array info) n)
        in mset w = mset (used_pairs (ubase s) bs) \<and> desc w))"
proof -
  consider "n = 0" | "0 < n" "res1 = None \<or> res2 = None" | p q where "0 < n" "res1 = Some p" "res2 = Some q" by fastforce
  then show ?thesis
  proof cases
    case 1
    then have "bs2 = bs" "used_pairs (ubase s) bs = []" using sp n by (simp_all add: spec_malloc_def)
    moreover from heap_info_none [OF ok this(2)] obtain s' where h: "heap_info user_sbrk s = Some (0, \<lparr>num_allocs = 0,
        size_array = NULL, ptr_array = NULL, free_space = int (free_total bs), largest_free_chunk = int (largest_free bs)\<rparr>, s')"
      "keeps s bs s' bs" by blast
    ultimately show ?thesis using 1 by - (intro exI conjI, rule h(1), rule h(2), simp add: load64s_def desc_def)
  next
    case 2
    then obtain s' bs' where h: "heap_info user_sbrk s = Some (- 1, zero_info, s')" "keeps s bs s' bs'"
      using heap_info_fails [OF ok n _ sp] by auto
    show ?thesis using 2 by - (intro exI conjI, rule h(1), rule h(2), simp)
  next
    case (3 p q)
    then obtain s' bs' where h: "heap_info user_sbrk s = Some (0, \<lparr>num_allocs = int n, size_array = of_nat p, ptr_array = of_nat q,
        free_space = int (free_total bs2), largest_free_chunk = int (largest_free bs2)\<rparr>, s')" "keeps s bs s' bs'"
      "mset (zip (load64s (umem s') (of_nat p) n) (load64s (umem s') (of_nat q) n)) = mset (used_pairs (ubase s) bs)"
      "desc (zip (load64s (umem s') (of_nat p) n) (load64s (umem s') (of_nat q) n))"
      using heap_info_reports [OF ok n, of p bs1 q bs2] sp by auto
    show ?thesis by (intro exI conjI, rule h(1), rule h(2)) (simp add: 3 h(3,4))
  qed
qed

text \<open>One live allocation of 7 bytes.\<close>

theorem heap_info_correct_witness:
  "\<exists>s info s'. heap_info user_sbrk s = Some (0, info, s') \<and> num_allocs info = 1 \<and>
     load64s (umem s') (size_array info) 1 = [7] \<and> load64s (umem s') (ptr_array info) 1 = [0x122008]"
proof -
  have sp: "spec_malloc break_limit (ubase sample_heap) [] (unat (7 :: u64)) = (Some 0x122008, [Used 16 1])"
    by (simp add: sample_heap_ok spec_malloc_def round8_def break_limit_def)
  obtain s where s: "uheap_ok s [Used 16 1]" "ubase s = 0x122000"
    using kb.malloc_result [OF sample_heap_ok(1) _ sp] sample_heap_ok(2) by auto
  have b: "blk_at (ubase s) [Used 16 1] 0x122008 (Used 16 1)" by (simp add: s(2))
  have i: "initialized s" by (rule kb.heap_ok_initialized [OF s(1) b])
  have n: "1 = length (used_pairs (ubase s) [Used 16 1])" by simp
  have sp2: "spec_malloc break_limit (ubase s) [Used 16 1] (8 * 1) = (Some 0x122018, [Used 16 1, Used 16 0])"
    "spec_malloc break_limit (ubase s) [Used 16 1, Used 16 0] (8 * 1) = (Some 0x122028, [Used 16 1, Used 16 0, Used 16 0])"
    by (simp_all add: s(2) spec_malloc_def round8_def break_limit_def)
  obtain info s' where h: "heap_info user_sbrk s = Some (0, info, s')" "num_allocs info = 1"
    "mset (zip (load64s (umem s') (size_array info) 1) (load64s (umem s') (ptr_array info) 1)) = {#(7, 0x122008)#}"
    using heap_info_correct [OF s(1) i n sp2] by (auto simp: s(2) Let_def)
  then show ?thesis by (auto simp: load64s_def)
qed

end
