(* ===== verification/Isolation.thy ===== *)
theory Isolation
  imports Faults Invariants
begin

text \<open>
  Isolation of processes by page tables. A process writes memory only through the table in
  \<^verbatim>\<open>%cr3\<close>; \<open>isolated\<close> says, for every process, that the pages it may write are its own data pages
  or device memory. Then whatever it writes, no page table changes, so the checked invariants and
  the isolation of every process persist, and no other process's page changes.
\<close>

section \<open>The pages of a table\<close>

text \<open>
  The table pages reached from \<open>pt\<close> through nonzero entries, as \<^verbatim>\<open>check_page_table_ownership_level\<close>
  visits them.
\<close>

fun reaches :: "nat \<Rightarrow> mem \<Rightarrow> addr \<Rightarrow> addr \<Rightarrow> bool" where
  "reaches 0 m pt q \<longleftrightarrow> q = pt"
| "reaches (Suc l) m pt q \<longleftrightarrow> q = pt \<or>
     (\<exists>i < 512. read64 m (pt + 8 * of_nat i) \<noteq> 0 \<and> reaches l m (PTE_ADDR (read64 m (pt + 8 * of_nat i))) q)"

lemma reaches_refl [simp]: "reaches l m pt pt"
  by (cases l) simp_all

lemma aligned_PTE_ADDR [simp]: "aligned (PTE_ADDR x)"
  by (simp add: aligned_iff PTE_ADDR_nat)

lemma PAGENUMBER_page: "PAGENUMBER (PTE_ADDR x) = PAGENUMBER x"
proof -
  have "drop_bit 12 (PTE_ADDR x) = drop_bit 12 x"
    by (rule word_eq_unatI) (simp add: unat_drop12 PTE_ADDR_nat)
  then show ?thesis by (simp add: PAGENUMBER_def PAGEOFFBITS_def)
qed

lemma reaches_aligned: "reaches l m pt q \<Longrightarrow> aligned pt \<Longrightarrow> aligned q"
proof (induction l arbitrary: pt)
  case (Suc l)
  then show ?case by (auto intro: Suc.IH)
qed simp

lemma tables_held_page: "tables_held l s pt own count \<Longrightarrow> page_held s pt own count"
  by (cases l) simp_all

lemma reaches_held:
  "tables_held l s pt own count \<Longrightarrow> reaches l (pmem s) pt q \<Longrightarrow> \<exists>c. page_held s q own c \<and> (c = count \<or> c = 1)"
proof (induction l arbitrary: pt count)
  case (Suc l)
  then show ?case using tables_held_page [OF Suc.prems(1)] by fastforce
qed auto

text \<open>An entry lies in its table's page.\<close>

lemma entry_page:
  assumes "aligned q" "i < 512" "b \<in> region (q + 8 * of_nat i) 8"
  shows "PTE_ADDR b = q"
proof -
  obtain k where k: "unat q = 4096 * k" using assms(1) by (auto simp: aligned_iff elim: dvdE)
  have "unat q < 2 ^ 64" by (rule order.strict_trans2 [OF unsigned_less]) simp
  then have fit: "unat q + 4096 \<le> 2 ^ 64" using k by simp
  have "unat (8 * of_nat i :: u64) = 8 * i" using assms(2) unat_of_nat64 [of "8 * i"] by simp
  then have a: "unat (q + 8 * of_nat i) = unat q + 8 * i" using fit assms(2) by (simp add: to_nat)
  have "unat q + 8 * i \<le> unat b \<and> unat b < unat q + 8 * i + 8"
    using assms(2,3) fit a region_no_wrap [of "q + 8 * of_nat i" 8 b] by simp
  then have "unat b div 4096 = k" using k assms(2) by (intro div_nat_eqI) auto
  then show ?thesis using k by (intro word_eq_unatI) (simp add: PTE_ADDR_nat)
qed

section \<open>Memories with the same tables\<close>

definition same_tables :: "nat \<Rightarrow> mem \<Rightarrow> mem \<Rightarrow> addr \<Rightarrow> bool" where
  "same_tables l m m' pt \<longleftrightarrow>
     (\<forall>q i. reaches l m pt q \<longrightarrow> i < 512 \<longrightarrow> read64 m' (q + 8 * of_nat i) = read64 m (q + 8 * of_nat i))"

lemma same_tables_top: "same_tables l m m' pt \<Longrightarrow> i < 512 \<Longrightarrow> read64 m' (pt + 8 * of_nat i) = read64 m (pt + 8 * of_nat i)"
  by (simp add: same_tables_def)

lemma same_tables_next:
  "same_tables (Suc l) m m' pt \<Longrightarrow> i < 512 \<Longrightarrow> read64 m (pt + 8 * of_nat i) \<noteq> 0 \<Longrightarrow>
    same_tables l m m' (PTE_ADDR (read64 m (pt + 8 * of_nat i)))"
  by (auto simp: same_tables_def)

lemma same_tables_writes:
  assumes "aligned pt" "\<And>a. m' a \<noteq> m a \<Longrightarrow> \<not> reaches l m pt (PTE_ADDR a)"
  shows "same_tables l m m' pt"
  unfolding same_tables_def
proof (intro allI impI read64_cong)
  fix q :: addr and i :: nat and b
  assume "reaches l m pt q" "i < 512" "b \<in> region (q + 8 * of_nat i) 8"
  then have "reaches l m pt (PTE_ADDR b)" using entry_page reaches_aligned assms(1) by metis
  then show "m' b = m b" using assms(2) by blast
qed

lemma reaches_same: "same_tables l m m' pt \<Longrightarrow> reaches l m' pt q \<longleftrightarrow> reaches l m pt q"
proof (induction l arbitrary: pt)
  case (Suc l)
  then show ?case by (auto simp: same_tables_top same_tables_next)
qed simp

lemma tables_held_same:
  "same_tables l (pmem s) (pmem t) pt \<Longrightarrow> (\<And>q c. reaches l (pmem s) pt q \<Longrightarrow> page_held t q own c \<longleftrightarrow> page_held s q own c) \<Longrightarrow>
    tables_held l t pt own count \<longleftrightarrow> tables_held l s pt own count"
proof (induction l arbitrary: pt count)
  case (Suc l)
  have "tables_held l t (PTE_ADDR (read64 (pmem s) (pt + 8 * of_nat i))) own 1 =
      tables_held l s (PTE_ADDR (read64 (pmem s) (pt + 8 * of_nat i))) own 1"
    if "i < 512" "read64 (pmem s) (pt + 8 * of_nat i) \<noteq> 0" for i
    using that Suc.prems(2) by (intro Suc.IH same_tables_next [OF Suc.prems(1)]) auto
  then show ?case using Suc.prems by (auto simp: same_tables_top)
qed simp

lemma pageindex_lt: "pageindex va l < 512"
  by (simp add: pageindex_nat)

lemma same_pte: "same_tables l m m' pt \<Longrightarrow> pte m' pt va i = pte m pt va i"
  by (simp add: pte_def pte_at_def same_tables_top pageindex_lt)

lemma same_tables_pte:
  assumes "same_tables (Suc l) m m' pt" "pte m pt va i AND PTE_P \<noteq> 0"
  shows "same_tables l m m' (PTE_ADDR (pte m pt va i))"
proof -
  have "pte m pt va i \<noteq> 0" using assms(2) by auto
  then show ?thesis using same_tables_next [OF assms(1) pageindex_lt] by (simp add: pte_def pte_at_def)
qed

lemma lookup_levels_same:
  "same_tables l m m' pt \<Longrightarrow> length levels \<le> Suc l \<Longrightarrow> lookup_levels levels m' pt pe va = lookup_levels levels m pt pe va"
proof (induction levels arbitrary: l pt pe)
  case (Cons i levels)
  let ?e = "pte m pt va i"
  show ?case
  proof (cases "pe AND PTE_P = 0")
    case False
    note L = levels_present [OF False, of i levels]
    show ?thesis
    proof (cases "levels = [] \<or> ?e AND PTE_P = 0")
      case True
      then show ?thesis unfolding L same_pte [OF Cons.prems(1)] using masked_present [of ?e pe]
        by (auto simp: levels_absent simp del: lookup_levels.simps(2))
    next
      case e: False
      then obtain k where k: "l = Suc k" using Cons.prems(2) by (cases l) auto
      have "same_tables k m m' (PTE_ADDR ?e)" using same_tables_pte Cons.prems(1) e k by simp
      from Cons.IH [OF this] show ?thesis unfolding L same_pte [OF Cons.prems(1)] using Cons.prems(2) k by simp
    qed
  qed simp
qed simp

lemma lookup_same: "same_tables 3 m m' pt \<Longrightarrow> virtual_memory_lookup m' pt va = virtual_memory_lookup m pt va"
  using lookup_levels_same [of 3 m m' pt "[0, 1, 2, 3]"] by (simp add: virtual_memory_lookup_def del: lookup_levels.simps)

lemma same_tables_walk:
  assumes "same_tables 3 m m' pt"
  shows "hw_walk m' pt va = hw_walk m pt va"
proof -
  define e0 where "e0 = pte m pt va 0"
  define e1 where "e1 = pte m (PTE_ADDR e0) va 1"
  define e2 where "e2 = pte m (PTE_ADDR e1) va 2"
  define e3 where "e3 = pte m (PTE_ADDR e2) va 3"
  define f1 where "f1 = pte m' (PTE_ADDR e0) va 1"
  define f2 where "f2 = pte m' (PTE_ADDR f1) va 2"
  define f3 where "f3 = pte m' (PTE_ADDR f2) va 3"
  have s3: "same_tables (Suc (Suc (Suc 0))) m m' pt" using assms by (simp add: numeral_3_eq_3)
  have p: "path m pt va = (e0, e1, e2, e3)" "path m' pt va = (e0, f1, f2, f3)"
    using same_pte [OF assms] by (simp_all add: path_def Let_def e0_def e1_def e2_def e3_def f1_def f2_def f3_def)
  show ?thesis
  proof (cases "e0 AND PTE_P = 0")
    case True
    then show ?thesis by (simp add: walk_path [OF p(1)] walk_path [OF p(2)])
  next
    case False
    then have s2: "same_tables (Suc (Suc 0)) m m' (PTE_ADDR e0)" using same_tables_pte [OF s3] by (simp add: e0_def)
    then have f1: "f1 = e1" by (simp add: same_pte f1_def e1_def)
    show ?thesis
    proof (cases "e1 AND PTE_P = 0")
      case True
      then show ?thesis by (simp add: walk_path [OF p(1)] walk_path [OF p(2)] f1)
    next
      case False
      then have s1: "same_tables (Suc 0) m m' (PTE_ADDR e1)" using same_tables_pte [OF s2] by (simp add: e1_def)
      then have f2: "f2 = e2" by (simp add: same_pte f1 f2_def e2_def)
      show ?thesis
      proof (cases "e2 AND PTE_P = 0")
        case True
        then show ?thesis by (simp add: walk_path [OF p(1)] walk_path [OF p(2)] f1 f2)
      next
        case False
        then have "same_tables 0 m m' (PTE_ADDR e2)" using same_tables_pte [OF s1] by (simp add: e2_def)
        then have "f3 = e3" by (simp add: same_pte f2 f3_def e3_def)
        then show ?thesis using p f1 f2 by (simp add: walk_path)
      qed
    qed
  qed
qed

section \<open>Isolated processes\<close>

definition table_of :: "kstate \<Rightarrow> nat \<Rightarrow> addr" where
  "table_of s i = p_pagetable (processes s ! i)"

definition in_use_proc :: "kstate \<Rightarrow> nat \<Rightarrow> bool" where
  "in_use_proc s i \<longleftrightarrow> i < NPROC \<and> p_state (processes s ! i) \<noteq> P_FREE"

text \<open>The bytes that an application may write through a page table.\<close>

definition user_writable :: "mem \<Rightarrow> addr \<Rightarrow> addr \<Rightarrow> bool" where
  "user_writable m pt pa \<longleftrightarrow>
     (\<exists>va flags. hw_walk m pt va = Some (pa, flags) \<and> flags AND (PTE_W OR PTE_U) = PTE_W OR PTE_U)"

text \<open>
  The bytes that are process \<open>i\<close>'s to write: device memory, and the pages it owns other than the
  pages of its own page table.
\<close>

definition own_data :: "kstate \<Rightarrow> nat \<Rightarrow> addr \<Rightarrow> bool" where
  "own_data s i pa \<longleftrightarrow> 0 \<le> PAGENUMBER pa \<and> PAGENUMBER pa < int NPAGES \<and>
     (let w = owner (pageinfo s ! nat (PAGENUMBER pa))
      in w = PO_RESERVED \<or> w = int i \<and> \<not> reaches 3 (pmem s) (table_of s i) (PTE_ADDR pa))"

definition confined :: "kstate \<Rightarrow> nat \<Rightarrow> bool" where
  "confined s i \<longleftrightarrow> (\<forall>pa. user_writable (pmem s) (table_of s i) pa \<longrightarrow> own_data s i pa)"

definition isolated :: "kstate \<Rightarrow> bool" where
  "isolated s \<longleftrightarrow> os_invariant s \<and> (\<forall>i. in_use_proc s i \<longrightarrow> confined s i)"

text \<open>The tables in force: the kernel's and that of every process in use.\<close>

definition live_table :: "kstate \<Rightarrow> addr \<Rightarrow> bool" where
  "live_table s pt \<longleftrightarrow> pt = kernel_pagetable s \<or> (\<exists>i. in_use_proc s i \<and> pt = table_of s i)"

lemma live_table_kernel [simp]: "live_table s (kernel_pagetable s)"
  by (simp add: live_table_def)

lemma live_table_proc: "in_use_proc s i \<Longrightarrow> live_table s (table_of s i)"
  by (auto simp: live_table_def)

lemma aligned_self: "PTE_ADDR pt = pt \<Longrightarrow> aligned pt"
  using aligned_PTE_ADDR [of pt] by simp

lemma live_table_aligned:
  assumes "os_invariant s" "live_table s pt" shows "aligned pt"
proof (cases "pt = kernel_pagetable s")
  case True
  then show ?thesis using assms(1) aligned_self by (simp add: os_invariant_def kernel_mapped_def)
next
  case False
  then obtain i where "in_use_proc s i" "pt = table_of s i" using assms(2) by (auto simp: live_table_def)
  then show ?thesis using False assms(1) aligned_self
    by (auto simp: os_invariant_def kernel_mapped_def in_use_proc_def table_of_def)
qed

text \<open>The owner of a page of a table: the kernel, or the one process whose table it is.\<close>

lemma live_table_owner:
  assumes "os_invariant s" "live_table s pt" "reaches 3 (pmem s) pt q"
  shows "\<exists>own c. page_held s q own c \<and> 1 \<le> c \<and>
    (own = PO_KERNEL \<and> pt = kernel_pagetable s \<or> (\<exists>i. own = int i \<and> in_use_proc s i \<and> pt = table_of s i))"
proof (cases "pt = kernel_pagetable s")
  case True
  then have "tables_held 3 s pt PO_KERNEL (1 + int (kernel_table_users s))"
    using assms(1) by (simp add: os_invariant_def)
  from reaches_held [OF this assms(3)] show ?thesis using True by force
next
  case False
  then obtain i where i: "in_use_proc s i" "pt = table_of s i" using assms(2) by (auto simp: live_table_def)
  then have "tables_held 3 s pt (int i) 1"
    using False assms(1) by (auto simp: os_invariant_def in_use_proc_def table_of_def)
  from reaches_held [OF this assms(3)] show ?thesis using i by force
qed

lemma own_data_not_table:
  assumes "os_invariant s" "own_data s i pa" "live_table s pt"
  shows "\<not> reaches 3 (pmem s) pt (PTE_ADDR pa)"
proof
  assume r: "reaches 3 (pmem s) pt (PTE_ADDR pa)"
  obtain own c where o: "page_held s (PTE_ADDR pa) own c"
    "own = PO_KERNEL \<or> (\<exists>j. own = int j \<and> in_use_proc s j \<and> pt = table_of s j)"
    using live_table_owner [OF assms(1,3) r] by auto
  then show False using assms(2) r
    by (auto simp: own_data_def page_held_def PAGENUMBER_page PO_KERNEL_def PO_RESERVED_def)
qed

section \<open>Writes of a process\<close>

text \<open>States that differ in memory outside the tables, and in what no table depends on.\<close>

definition same_vm :: "kstate \<Rightarrow> kstate \<Rightarrow> bool" where
  "same_vm s t \<longleftrightarrow> img t = img s \<and> kernel_pagetable t = kernel_pagetable s \<and> processes t = processes s \<and>
     pageinfo t = pageinfo s \<and> (\<forall>pt. live_table s pt \<longrightarrow> same_tables 3 (pmem s) (pmem t) pt)"

lemma same_vmD:
  assumes "same_vm s t"
  shows "live_table t = live_table s" "in_use_proc t = in_use_proc s" "table_of t = table_of s"
    "page_held t = page_held s" "pageinfo t = pageinfo s"
    "live_table s pt \<Longrightarrow> same_tables 3 (pmem s) (pmem t) pt"
  using assms by (auto simp: same_vm_def live_table_def in_use_proc_def table_of_def page_held_def fun_eq_iff)

lemma same_vm_mapped: "same_vm s t \<Longrightarrow> live_table s pt \<Longrightarrow> kernel_mapped t pt \<longleftrightarrow> kernel_mapped s pt"
  using lookup_same [OF same_vmD(6), of s t pt] by (simp add: kernel_mapped_def kernel_page_ok_def same_vm_def)

lemma same_vm_held:
  "same_vm s t \<Longrightarrow> live_table s pt \<Longrightarrow> tables_held 3 t pt own count \<longleftrightarrow> tables_held 3 s pt own count"
  by (rule tables_held_same) (simp_all add: same_vmD)

lemma same_vm_invariant:
  assumes "same_vm s t"
  shows "os_invariant t \<longleftrightarrow> os_invariant s"
proof -
  have f: "kernel_pagetable t = kernel_pagetable s" "processes t = processes s" "pageinfo t = pageinfo s"
    using assms by (simp_all add: same_vm_def)
  have k: "kernel_mapped t (kernel_pagetable s) = kernel_mapped s (kernel_pagetable s)"
    "tables_held 3 t (kernel_pagetable s) own c = tables_held 3 s (kernel_pagetable s) own c" for own c
    using same_vm_mapped [OF assms] same_vm_held [OF assms] by simp_all
  have p: "kernel_mapped t (p_pagetable (processes s ! i)) = kernel_mapped s (p_pagetable (processes s ! i))"
    "tables_held 3 t (p_pagetable (processes s ! i)) own c = tables_held 3 s (p_pagetable (processes s ! i)) own c"
    if "i < NPROC" "p_state (processes s ! i) \<noteq> P_FREE" for i own c
  proof -
    have "live_table s (p_pagetable (processes s ! i))"
      using live_table_proc [of s i] that by (simp add: in_use_proc_def table_of_def)
    then show "kernel_mapped t (p_pagetable (processes s ! i)) = kernel_mapped s (p_pagetable (processes s ! i))"
      "tables_held 3 t (p_pagetable (processes s ! i)) own c = tables_held 3 s (p_pagetable (processes s ! i)) own c"
      using same_vm_mapped [OF assms] same_vm_held [OF assms] by simp_all
  qed
  show ?thesis unfolding os_invariant_def kernel_table_users_def f k using p by blast
qed

lemma same_vm_own_data:
  "same_vm s t \<Longrightarrow> in_use_proc s i \<Longrightarrow> own_data t i a \<longleftrightarrow> own_data s i a"
  using reaches_same [OF same_vmD(6) [OF _ live_table_proc], of s t i]
  by (simp add: own_data_def same_vmD)

lemma same_vm_isolated:
  assumes "same_vm s t" shows "isolated t \<longleftrightarrow> isolated s"
proof -
  have "confined t i \<longleftrightarrow> confined s i" if i: "in_use_proc s i" for i
    using same_tables_walk [OF same_vmD(6) [OF assms live_table_proc [OF i]]] same_vm_own_data [OF assms i]
    by (simp add: confined_def user_writable_def same_vmD [OF assms])
  then show ?thesis by (simp add: isolated_def same_vm_invariant [OF assms] same_vmD [OF assms])
qed

lemma same_vm_trans:
  assumes "same_vm s t" "same_vm t u" shows "same_vm s u"
proof -
  have "same_tables 3 (pmem s) (pmem u) pt" if pt: "live_table s pt" for pt
  proof -
    have "same_tables 3 (pmem s) (pmem t) pt" "same_tables 3 (pmem t) (pmem u) pt"
      using same_vmD(6) [OF assms(1) pt] same_vmD(6) [OF assms(2)] pt same_vmD(1) [OF assms(1)] by simp_all
    then show ?thesis using reaches_same [of 3 "pmem s" "pmem t" pt] by (simp add: same_tables_def)
  qed
  then show ?thesis using assms by (simp add: same_vm_def)
qed

text \<open>A process's step: what it writes is its own data.\<close>

lemma user_mode_in_use:
  assumes "user_mode s"
  shows "in_use_proc s (current s)" "cr3 s = table_of s (current s)"
  using assms by (simp_all add: user_mode_def in_use_proc_def table_of_def cur_proc_def kernel_wf_def)

lemma user_step_isolated:
  assumes "isolated s" "user_mode s" "user_step s t"
  shows "same_vm s t" "user_mode t" "current t = current s"
    "pmem t a \<noteq> pmem s a \<Longrightarrow> own_data s (current s) a"
proof -
  note os = conjunct1 [OF assms(1) [unfolded isolated_def]] and U = user_mode_in_use [OF assms(2)]
  have w: "own_data s (current s) a" if "pmem t a \<noteq> pmem s a" for a
    using assms(3)
  proof cases
    case (store va pa flags b)
    then have "user_writable (pmem s) (table_of s (current s)) a" "a = pa"
      using that U(2) by (auto simp: user_writable_def split: if_splits)
    then show ?thesis using assms(1) U(1) by (simp add: isolated_def confined_def)
  qed (use that in simp)
  then show "pmem t a \<noteq> pmem s a \<Longrightarrow> own_data s (current s) a" .
  have "same_tables 3 (pmem s) (pmem t) pt" if "live_table s pt" for pt
    using w own_data_not_table [OF os _ that] by (intro same_tables_writes live_table_aligned [OF os that]) blast
  moreover have "img t = img s \<and> kernel_pagetable t = kernel_pagetable s \<and> processes t = processes s \<and>
      pageinfo t = pageinfo s"
    using assms(3) by cases simp_all
  ultimately show "same_vm s t" by (simp add: same_vm_def)
  show "user_mode t" "current t = current s"
    using assms(3) by (cases; use assms(2) in \<open>simp add: user_mode_def kernel_wf_def cur_proc_def\<close>)+
qed

text \<open>Any number of steps, by the contract of steps that keep an invariant and a frame.\<close>

definition confined_run :: "kstate \<Rightarrow> kstate \<Rightarrow> bool" where
  "confined_run s t \<longleftrightarrow> same_vm s t \<and> current t = current s \<and> (\<forall>a. pmem t a \<noteq> pmem s a \<longrightarrow> own_data s (current s) a)"

lemma confined_run_trans:
  assumes "confined_run s t" "confined_run t u" "user_mode s" shows "confined_run s u"
proof -
  have "own_data s (current s) a" if "pmem u a \<noteq> pmem s a" for a
    using that assms(1,2) same_vm_own_data [OF _ user_mode_in_use(1) [OF assms(3)], of t a]
    by (auto simp: confined_run_def) metis
  then show ?thesis using assms(1,2) same_vm_trans [of s t u] by (simp add: confined_run_def)
qed

interpretation user: framed user_step "\<lambda>s. isolated s \<and> user_mode s" confined_run
proof
  fix s t u
  show "user_step s t \<Longrightarrow> isolated s \<and> user_mode s \<Longrightarrow> isolated t \<and> user_mode t"
    using user_step_isolated(1,2) same_vm_isolated by blast
  show "user_step s t \<Longrightarrow> isolated s \<and> user_mode s \<Longrightarrow> confined_run s t"
    using user_step_isolated by (auto simp: confined_run_def)
  show "isolated s \<and> user_mode s \<Longrightarrow> confined_run s s"
    by (simp add: confined_run_def same_vm_def same_tables_def)
  show "confined_run s t \<Longrightarrow> confined_run t u \<Longrightarrow> isolated s \<and> user_mode s \<Longrightarrow> isolated t \<and> user_mode t \<Longrightarrow> confined_run s u"
    using confined_run_trans by blast
qed

end
