(* ===== verification/Isolation_Page.thy ===== *)
theory Isolation_Page
  imports Isolation
begin

text \<open>
  Isolation on the tables that the process set-up builds: five pages, of which two hold the entries
  of the first 4 MB. A page fault on the heap keeps every process isolated.
\<close>

section \<open>Five tables and nothing else\<close>

definition tables_only :: "mem \<Rightarrow> addr \<Rightarrow> addr \<Rightarrow> addr \<Rightarrow> addr \<times> addr \<Rightarrow> bool" where
  "tables_only m pt t1 t2 ts \<longleftrightarrow> tables_ok m pt t1 t2 ts \<and>
     (\<forall>i < 512. (i \<noteq> 0 \<longrightarrow> read64 m (pt + 8 * of_nat i) = 0 \<and> read64 m (t1 + 8 * of_nat i) = 0) \<and>
       (2 \<le> i \<longrightarrow> read64 m (t2 + 8 * of_nat i) = 0))"

lemma tables_onlyD: "tables_only m pt t1 t2 ts \<Longrightarrow> tables_ok m pt t1 t2 ts"
  by (simp add: tables_only_def)

lemma five_aligned:
  "tables_ok m pt t1 t2 ts \<Longrightarrow> aligned pt \<and> aligned t1 \<and> aligned t2 \<and> aligned (fst ts) \<and> aligned (snd ts)"
  by (simp add: tables_ok_def table_page_def)

lemma entry_7: "aligned t \<Longrightarrow> PTE_ADDR (t OR pwu) = t \<and> t OR pwu \<noteq> 0"
  using entry_bits(1) [of t 7] entry_bits(3) [of t 7 PTE_P] by (auto simp: pwu_eq PTE_P_def)

lemma ex_first: "(\<exists>i < 512. (P :: nat \<Rightarrow> bool) i) \<longleftrightarrow> P 0" if "\<And>i. i < 512 \<Longrightarrow> i \<noteq> 0 \<Longrightarrow> \<not> P i"
  using that by (metis zero_less_numeral)

lemma ex_first_two: "(\<exists>i < 512. (P :: nat \<Rightarrow> bool) i) \<longleftrightarrow> P 0 \<or> P 1" if "\<And>i. i < 512 \<Longrightarrow> 2 \<le> i \<Longrightarrow> \<not> P i"
proof -
  have "P 0 \<or> P 1" if "i < 512" "P i" for i
    using \<open>\<And>i. i < 512 \<Longrightarrow> 2 \<le> i \<Longrightarrow> \<not> P i\<close> [of i] that by (cases "i = 0 \<or> i = 1") auto
  then show ?thesis by (auto intro: exI [of _ 0] exI [of _ 1])
qed

lemma tables_reach:
  assumes "tables_only m pt t1 t2 ts"
  shows "reaches 3 m pt q \<longleftrightarrow> q \<in> {pt, t1, t2, fst ts, snd ts}"
proof -
  note ok = tables_onlyD [OF assms] and A = five_aligned [OF tables_onlyD [OF assms]]
  have R: "read64 m pt = t1 OR pwu" "read64 m t1 = t2 OR pwu" "read64 m t2 = fst ts OR pwu" "read64 m (t2 + 8) = snd ts OR pwu"
    using ok by (simp_all add: tables_ok_def)
  have Z: "read64 m (pt + 8 * of_nat i) = 0" "read64 m (t1 + 8 * of_nat i) = 0" if "i < 512" "i \<noteq> 0" for i
    using assms that by (simp_all add: tables_only_def)
  have Z2: "read64 m (t2 + 8 * of_nat i) = 0" if "i < 512" "2 \<le> i" for i
    using assms that by (simp add: tables_only_def)
  have "reaches (Suc 0) m t2 q \<longleftrightarrow> q \<in> {t2, fst ts, snd ts}"
    by (subst reaches.simps, subst ex_first_two) (use Z2 R A entry_7 in auto)
  moreover have "reaches (Suc (Suc 0)) m t1 q \<longleftrightarrow> q = t1 \<or> reaches (Suc 0) m t2 q"
    by (subst reaches.simps, subst ex_first) (use Z R A entry_7 [of t2] in \<open>auto simp del: reaches.simps\<close>)
  moreover have "reaches (Suc (Suc (Suc 0))) m pt q \<longleftrightarrow> q = pt \<or> reaches (Suc (Suc 0)) m t1 q"
    by (subst reaches.simps, subst ex_first) (use Z R A entry_7 [of t1] in \<open>auto simp del: reaches.simps\<close>)
  ultimately show ?thesis by (auto simp: numeral_3_eq_3 simp del: reaches.simps)
qed

lemma tables_held_iff:
  assumes "tables_only (pmem s) pt t1 t2 ts"
  shows "tables_held 3 s pt own c \<longleftrightarrow> page_held s pt own c \<and> (\<forall>q \<in> {t1, t2, fst ts, snd ts}. page_held s q own 1)"
proof -
  let ?m = "pmem s"
  note ok = tables_onlyD [OF assms] and A = five_aligned [OF tables_onlyD [OF assms]]
  have R: "read64 ?m pt = t1 OR pwu" "read64 ?m t1 = t2 OR pwu" "read64 ?m t2 = fst ts OR pwu" "read64 ?m (t2 + 8) = snd ts OR pwu"
    using ok by (simp_all add: tables_ok_def)
  have Z: "read64 ?m (pt + 8 * of_nat i) = 0" "read64 ?m (t1 + 8 * of_nat i) = 0" if "i < 512" "i \<noteq> 0" for i
    using assms that by (simp_all add: tables_only_def)
  have Z2: "read64 ?m (t2 + 8 * of_nat i) = 0" if "i < 512" "2 \<le> i" for i
    using assms that by (simp add: tables_only_def)
  have all1: "(\<forall>i < 512. read64 ?m (t + 8 * of_nat i) \<noteq> 0 \<longrightarrow> P (PTE_ADDR (read64 ?m (t + 8 * of_nat i)))) \<longleftrightarrow>
      read64 ?m t \<noteq> 0 \<longrightarrow> P (PTE_ADDR (read64 ?m t))"
    if "\<And>i. i < 512 \<Longrightarrow> i \<noteq> 0 \<Longrightarrow> read64 ?m (t + 8 * of_nat i) = 0" for t P
    using ex_first [of "\<lambda>i. read64 ?m (t + 8 * of_nat i) \<noteq> 0 \<and> \<not> P (PTE_ADDR (read64 ?m (t + 8 * of_nat i)))"] that by auto
  have "tables_held (Suc 0) s t2 own 1 \<longleftrightarrow> (\<forall>q \<in> {t2, fst ts, snd ts}. page_held s q own 1)"
    using ex_first_two [of "\<lambda>i. read64 ?m (t2 + 8 * of_nat i) \<noteq> 0 \<and> \<not> page_held s (PTE_ADDR (read64 ?m (t2 + 8 * of_nat i))) own 1"]
      Z2 R A entry_7 by auto
  moreover have "tables_held (Suc (Suc 0)) s t1 own 1 \<longleftrightarrow> page_held s t1 own 1 \<and> tables_held (Suc 0) s t2 own 1"
    by (subst tables_held.simps, subst all1) (use Z R A entry_7 [of t2] in \<open>auto simp del: tables_held.simps\<close>)
  moreover have "tables_held (Suc (Suc (Suc 0))) s pt own c \<longleftrightarrow> page_held s pt own c \<and> tables_held (Suc (Suc 0)) s t1 own 1"
    by (subst tables_held.simps, subst all1) (use Z R A entry_7 [of t1] in \<open>auto simp del: tables_held.simps\<close>)
  ultimately show ?thesis by (auto simp: numeral_3_eq_3 simp del: tables_held.simps)
qed

section \<open>What an application may write\<close>

lemma walk_cong:
  "(\<And>l. l < 4 \<Longrightarrow> pageindex v l = pageindex va l) \<Longrightarrow> PAGEOFFSET v = PAGEOFFSET va \<Longrightarrow> hw_walk m pt va = hw_walk m pt v"
  by (simp add: hw_walk_def pte_def pte_at_def Let_def)

text \<open>The walk does not read the bits above the 48 that the four levels index.\<close>

lemma walk_48: "hw_walk m pt va = hw_walk m pt (of_nat (unat va mod 2 ^ 48))"
proof -
  have u: "unat (of_nat (unat va mod 2 ^ 48) :: u64) = unat va mod 2 ^ 48"
    by (intro unat_of_nat64) (rule less_trans [OF mod_less_divisor]; simp)
  have "n mod 2 ^ 48 div 2 ^ (12 + (3 - l) * 9) mod 2 ^ 9 = n div 2 ^ (12 + (3 - l) * 9) mod 2 ^ 9" if "l < 4" for n l :: nat
  proof -
    have "9 + (12 + (3 - l) * 9) \<le> 48" using that by auto
    then show ?thesis
      by (simp only: take_bit_drop_bit take_bit_take_bit min_absorb1 flip: take_bit_eq_mod drop_bit_eq_div)
  qed
  then have "pageindex (of_nat (unat va mod 2 ^ 48)) l = pageindex va l" if "l < 4" for l
    using that u by (simp add: pageindex_nat)
  moreover have "PAGEOFFSET (of_nat (unat va mod 2 ^ 48)) = PAGEOFFSET va"
    unfolding PAGEOFFSET_nat u by (simp add: mod_mod_cancel)
  ultimately show ?thesis by (rule walk_cong)
qed

lemma walk_high:
  assumes "tables_only m pt t1 t2 ts" "unat va < 2 ^ 48" "0x400000 \<le> unat va"
  shows "hw_walk m pt va = None"
proof -
  note ok = tables_onlyD [OF assms(1)] and A = five_aligned [OF tables_onlyD [OF assms(1)]]
  have R: "read64 m pt = t1 OR pwu" "read64 m t1 = t2 OR pwu" using ok by (simp_all add: tables_ok_def)
  have Z: "read64 m (pt + 8 * of_nat i) = 0" "read64 m (t1 + 8 * of_nat i) = 0" if "i < 512" "i \<noteq> 0" for i
    using assms(1) that by (simp_all add: tables_only_def)
  have Z2: "read64 m (t2 + 8 * of_nat i) = 0" if "i < 512" "2 \<le> i" for i
    using assms(1) that by (simp add: tables_only_def)
  obtain e0 e1 e2 e3 where p: "path m pt va = (e0, e1, e2, e3)" by (cases "path m pt va")
  note P = pathD [OF p, unfolded pte_def pte_at_def]
  have "e0 = 0 \<or> e1 = 0 \<or> e2 = 0"
  proof (cases "pageindex va 0 = 0")
    case False
    then show ?thesis using Z(1) [OF pageindex_lt] P(1) by simp
  next
    case i0: True
    then have e0: "PTE_ADDR e0 = t1" using P(1) R A entry_7 [of t1] by simp
    show ?thesis
    proof (cases "pageindex va 1 = 0")
      case False
      then show ?thesis using Z(2) [OF pageindex_lt] P(2) e0 by simp
    next
      case i1: True
      then have e1: "PTE_ADDR e1 = t2" using P(2) R A entry_7 [of t2] e0 by simp
      have "2 \<le> pageindex va 2" using i0 i1 assms(2,3) by (simp add: pageindex_nat) 
      then show ?thesis using Z2 [OF pageindex_lt] P(3) e1 by simp
    qed
  qed
  then show ?thesis by (auto simp: walk_path [OF p])
qed

lemma low_page: "p < 1024 \<Longrightarrow> x < 4096 \<Longrightarrow> unat (of_nat (4096 * p + x) :: u64) = 4096 * p + x"
  by (rule unat_of_nat64) simp

lemma in_page:
  assumes "aligned a"
  shows "PTE_ADDR (a + PAGEOFFSET x) = a" "PTE_ADDR x = a \<Longrightarrow> a + PAGEOFFSET x = x"
proof -
  obtain k where k: "unat a = 4096 * k" using assms by (auto simp: aligned_iff elim: dvdE)
  have o: "unat (PAGEOFFSET x) = unat x mod 4096"
    unfolding PAGEOFFSET_nat by (intro unat_of_nat64) (rule less_trans [OF mod_less_divisor]; simp)
  have "unat a < 2 ^ 64" by (rule order.strict_trans2 [OF unsigned_less]) simp
  then have "4096 * k + 4096 \<le> 2 ^ 64" using k by simp
  then have s: "unat (a + PAGEOFFSET x) = 4096 * k + unat x mod 4096"
    using o k mod_less_divisor [of 4096 "unat x"] by (subst unat_add64) auto
  show "PTE_ADDR (a + PAGEOFFSET x) = a" using s k by (intro word_eq_unatI) (simp add: PTE_ADDR_nat)
  assume "PTE_ADDR x = a"
  then have "4096 * k = 4096 * (unat x div 4096)" using k PTE_ADDR_nat [of x] by simp
  then show "a + PAGEOFFSET x = x" using s by (intro word_eq_unatI) simp
qed

lemma pwu_split: "e AND pwu = pwu \<longleftrightarrow> e AND PTE_P \<noteq> 0 \<and> e AND (PTE_W OR PTE_U) = PTE_W OR PTE_U"
proof -
  have m: "PTE_P = mask 1" "pwu = 7" "PTE_W OR PTE_U = 6" by (simp_all add: PTE_P_def pwu_eq PTE_W_def PTE_U_def mask_eq_exp_minus_1)
  have s: "e AND 7 = (e AND 1) OR (e AND (6 :: u64))" by (subst bit.conj_disj_distrib [symmetric]) simp
  have o: "e AND 1 = (if bit e 0 then 1 else 0)" by (simp add: and_one_eq mod_2_eq_odd bit_0)
  show ?thesis
  proof
    assume "e AND pwu = pwu"
    then have e: "e AND 7 = 7" by (simp add: pwu_eq)
    have "e AND 1 = (e AND 7) AND 1" "e AND 6 = (e AND 7) AND 6" by (simp_all only: and.assoc) simp_all
    then show "e AND PTE_P \<noteq> 0 \<and> e AND (PTE_W OR PTE_U) = PTE_W OR PTE_U"
      by (simp add: e PTE_P_def PTE_W_def PTE_U_def)
  next
    assume "e AND PTE_P \<noteq> 0 \<and> e AND (PTE_W OR PTE_U) = PTE_W OR PTE_U"
    then show "e AND pwu = pwu" unfolding pwu_eq s
      by (simp add: PTE_P_def PTE_W_def PTE_U_def o split: if_splits)
  qed
qed

lemma walk_low_entry:
  assumes ok: "tables_ok m pt t1 t2 ts" and va: "unat va < 0x400000"
    and w: "hw_walk m pt va = Some (pa, flags)" "flags AND (PTE_W OR PTE_U) = PTE_W OR PTE_U"
  shows "read64 m (ent ts (unat va div 4096)) AND pwu = pwu"
    "PTE_ADDR pa = PTE_ADDR (read64 m (ent ts (unat va div 4096)))"
proof -
  let ?t = "if unat va < 0x200000 then fst ts else snd ts" and ?e = "read64 m (ent ts (unat va div 4096))"
  have al: "aligned t1" "aligned t2" "aligned ?t" using ok by (auto simp: tables_ok_def table_page_def)
  note W = tables_walk [OF ok va, unfolded pwu_eq] and B = pwu_bits [OF al(1)] pwu_bits [OF al(2)] pwu_bits [OF al(3)]
  have path: "path m pt va = (t1 OR 7, t2 OR 7, ?t OR 7, ?e)"
    by (simp only: path_def Let_def W(1) B(1) W(2) B(10) W(3) B(19) W(4))
  have e: "?e AND PTE_P \<noteq> 0" "pa = PTE_ADDR ?e + PAGEOFFSET va"
    "flags = PTE_FLAGS ((t1 OR 7) AND (t2 OR 7) AND (?t OR 7) AND ?e)"
    using w(1) unfolding walk_path [OF path] by (simp_all only: option.inject prod.inject if_splits split: if_splits) auto
  have "flags AND 7 = ?e AND 7" unfolding e(3) by (rule seven_absorbs)
  moreover have "(x AND 7) AND 6 = x AND (6 :: u64)" for x by (simp add: and.assoc)
  ultimately have "flags AND 6 = ?e AND 6" by metis
  then have "?e AND (PTE_W OR PTE_U) = PTE_W OR PTE_U" using w(2) by (simp add: PTE_W_def PTE_U_def)
  then show "?e AND pwu = pwu" using e(1) pwu_split by blast
  show "PTE_ADDR pa = PTE_ADDR ?e" unfolding e(2) by (rule in_page(1)) simp
qed

lemma writable_iff:
  assumes only: "tables_only m pt t1 t2 ts"
  shows "user_writable m pt pa \<longleftrightarrow>
    (\<exists>p < 1024. read64 m (ent ts p) AND pwu = pwu \<and> PTE_ADDR (read64 m (ent ts p)) = PTE_ADDR pa)"
proof
  assume "user_writable m pt pa"
  then obtain va flags where w: "hw_walk m pt va = Some (pa, flags)" "flags AND (PTE_W OR PTE_U) = PTE_W OR PTE_U"
    by (auto simp: user_writable_def)
  let ?v = "of_nat (unat va mod 2 ^ 48) :: u64"
  have w': "hw_walk m pt ?v = Some (pa, flags)" using w(1) walk_48 by metis
  have lt: "unat ?v < 2 ^ 48" by (subst unat_of_nat64; rule less_trans [OF mod_less_divisor] mod_less_divisor; simp)
  have low: "unat ?v < 0x400000" using walk_high [OF only lt] w' by (cases "unat ?v < 0x400000") auto
  note walk_low_entry [OF tables_onlyD [OF only] low w' w(2)]
  moreover have "unat ?v div 4096 < 1024" using low by auto
  ultimately show "\<exists>p < 1024. read64 m (ent ts p) AND pwu = pwu \<and> PTE_ADDR (read64 m (ent ts p)) = PTE_ADDR pa" by metis
next
  assume "\<exists>p < 1024. read64 m (ent ts p) AND pwu = pwu \<and> PTE_ADDR (read64 m (ent ts p)) = PTE_ADDR pa"
  then obtain p where p: "p < 1024" "read64 m (ent ts p) AND pwu = pwu" "PTE_ADDR (read64 m (ent ts p)) = PTE_ADDR pa"
    by blast
  let ?x = "unat pa mod 4096"
  have u: "unat (of_nat (4096 * p + ?x) :: u64) = 4096 * p + ?x" using p(1) by (intro low_page) simp_all
  have va: "unat (of_nat (4096 * p + ?x) :: u64) < 0x400000" "unat (of_nat (4096 * p + ?x) :: u64) div 4096 = p"
    using p(1) mod_less_divisor [of 4096 "unat pa"] unfolding u by auto
  have off: "PAGEOFFSET (of_nat (4096 * p + ?x)) = PAGEOFFSET pa" unfolding PAGEOFFSET_nat u by simp
  obtain flags where f: "hw_walk m pt (of_nat (4096 * p + ?x)) = Some (PTE_ADDR pa + PAGEOFFSET pa, flags)" "flags AND pwu = pwu"
    using walk_low [OF tables_onlyD [OF only] va(1) refl] p(2,3) va(2) off by auto
  then have "hw_walk m pt (of_nat (4096 * p + ?x)) = Some (pa, flags)" using in_page(2) [of "PTE_ADDR pa" pa] by simp
  then show "user_writable m pt pa" using f(2) pwu_split unfolding user_writable_def by blast
qed

section \<open>A new page for a process\<close>

lemma kernel_table_page:
  assumes "os_invariant s" "reaches 3 (pmem s) (kernel_pagetable s) q"
  shows "\<exists>c \<ge> 1. page_held s q PO_KERNEL c"
proof -
  have "tables_held 3 s (kernel_pagetable s) PO_KERNEL (1 + int (kernel_table_users s))"
    using assms(1) by (simp add: os_invariant_def)
  from reaches_held [OF this assms(2)] obtain c where "page_held s q PO_KERNEL c" "1 \<le> c" by auto
  then show ?thesis by blast
qed

lemma process_table_page:
  assumes "os_invariant s" "in_use_proc s j" "table_of s j \<noteq> kernel_pagetable s" "reaches 3 (pmem s) (table_of s j) q"
  shows "page_held s q (int j) 1"
proof -
  have "tables_held 3 s (table_of s j) (int j) 1"
    using assms(1-3) by (auto simp: os_invariant_def in_use_proc_def table_of_def)
  from reaches_held [OF this assms(4)] show ?thesis by auto
qed

text \<open>Pages of other tables are not pages of this one.\<close>

lemma other_table_page:
  assumes os: "os_invariant s" and i: "in_use_proc s i" "table_of s i \<noteq> kernel_pagetable s"
    and pt: "live_table s pt" "pt \<noteq> table_of s i" and q: "reaches 3 (pmem s) (table_of s i) q"
  shows "\<not> reaches 3 (pmem s) pt q"
proof
  assume r: "reaches 3 (pmem s) pt q"
  have o: "page_held s q (int i) 1" by (rule process_table_page [OF os i q])
  show False
  proof (cases "pt = kernel_pagetable s")
    case True
    then show False using kernel_table_page [OF os] r o by (auto simp: page_held_def PO_KERNEL_def)
  next
    case False
    then obtain j where j: "in_use_proc s j" "pt = table_of s j" using pt(1) by (auto simp: live_table_def)
    then have "page_held s q (int j) 1" using process_table_page [OF os] r False by simp
    then show False using o j(2) pt(2) by (auto simp: page_held_def)
  qed
qed

lemma in_use_not_zero: "os_invariant s \<Longrightarrow> in_use_proc s i \<Longrightarrow> i \<noteq> 0"
  by (auto simp: os_invariant_def in_use_proc_def intro: ccontr)

lemma live_table_held:
  "os_invariant s \<Longrightarrow> live_table s pt \<Longrightarrow> reaches 3 (pmem s) pt q \<Longrightarrow> \<exists>own c. page_held s q own c \<and> 1 \<le> c"
  using live_table_owner by blast

text \<open>A free page \<open>n\<close> for page \<open>q\<close> of process \<open>i\<close>'s address space, and the state after mapping it.\<close>

definition free_slot :: "kstate \<Rightarrow> nat \<Rightarrow> addr \<Rightarrow> addr \<Rightarrow> addr \<times> addr \<Rightarrow> nat \<Rightarrow> nat \<Rightarrow> bool" where
  "free_slot s i t1 t2 ts q n \<longleftrightarrow> isolated s \<and> in_use_proc s i \<and> table_of s i \<noteq> kernel_pagetable s \<and>
     tables_only (pmem s) (table_of s i) t1 t2 ts \<and> q < 1024 \<and> q \<noteq> 0x7F \<and> unat (end_at (img s)) \<le> 4096 * q \<and>
     n < NPAGES \<and> length (pageinfo s) = NPAGES \<and> pageinfo s ! n = \<lparr>owner = PO_FREE, refcount = 0\<rparr>"

definition with_page :: "kstate \<Rightarrow> nat \<Rightarrow> addr \<times> addr \<Rightarrow> nat \<Rightarrow> nat \<Rightarrow> kstate" where
  "with_page s i ts q n = s\<lparr>pageinfo := (pageinfo s)[n := \<lparr>owner = int i, refcount = 1\<rparr>],
     pmem := write64 (pmem s) (ent ts q) (of_nat (4096 * n) OR pwu)\<rparr>"

lemma free_slotD:
  assumes "free_slot s i t1 t2 ts q n"
  shows "os_invariant s" "in_use_proc s i" "table_of s i \<noteq> kernel_pagetable s"
    "tables_only (pmem s) (table_of s i) t1 t2 ts" "q < 1024" "live_table s (table_of s i)"
  using assms live_table_proc by (auto simp: free_slot_def isolated_def)

lemma with_page_same [simp]:
  "live_table (with_page s i ts q n) = live_table s" "in_use_proc (with_page s i ts q n) = in_use_proc s"
  "table_of (with_page s i ts q n) = table_of s" "kernel_pagetable (with_page s i ts q n) = kernel_pagetable s"
  "processes (with_page s i ts q n) = processes s" "img (with_page s i ts q n) = img s"
  "pageinfo (with_page s i ts q n) = (pageinfo s)[n := \<lparr>owner = int i, refcount = 1\<rparr>]"
  by (auto simp: with_page_def live_table_def in_use_proc_def table_of_def fun_eq_iff)

text \<open>Pages in use are not the new page.\<close>

lemma held_with_page:
  "free_slot s i t1 t2 ts q n \<Longrightarrow> page_held s x own c \<Longrightarrow> 1 \<le> c \<Longrightarrow> nat (PAGENUMBER x) \<noteq> n"
  by (auto simp: free_slot_def page_held_def)

lemma page_held_with_page:
  "nat (PAGENUMBER x) \<noteq> n \<Longrightarrow> page_held (with_page s i ts q n) x own c \<longleftrightarrow> page_held s x own c"
  by (simp add: page_held_def with_page_def)

lemma table_page_other:
  assumes "free_slot s i t1 t2 ts q n" "live_table s pt" "reaches 3 (pmem s) pt x"
  shows "nat (PAGENUMBER x) \<noteq> n"
  using live_table_held [OF free_slotD(1) [OF assms(1)] assms(2,3)] held_with_page [OF assms(1)] by blast

lemma with_page_writes:
  assumes "free_slot s i t1 t2 ts q n" "pmem (with_page s i ts q n) a \<noteq> pmem s a"
  shows "PTE_ADDR a \<in> {fst ts, snd ts}" "reaches 3 (pmem s) (table_of s i) (PTE_ADDR a)"
proof -
  note only = free_slotD(4) [OF assms(1)]
  let ?t = "if q < 512 then fst ts else snd ts"
  have "a \<in> region (?t + 8 * of_nat (q mod 512)) 8"
    by (rule ccontr) (use assms(2) in \<open>simp add: with_page_def ent_def write64_other split: if_splits\<close>)
  then have "PTE_ADDR a = ?t" using five_aligned [OF tables_onlyD [OF only]] by (intro entry_page) auto
  then show "PTE_ADDR a \<in> {fst ts, snd ts}" by simp
  then show "reaches 3 (pmem s) (table_of s i) (PTE_ADDR a)" unfolding tables_reach [OF only] by simp
qed

lemma others_with_page:
  assumes "free_slot s i t1 t2 ts q n" "live_table s pt" "pt \<noteq> table_of s i"
  shows "same_tables 3 (pmem s) (pmem (with_page s i ts q n)) pt"
proof (rule same_tables_writes)
  show "aligned pt" by (rule live_table_aligned [OF free_slotD(1) [OF assms(1)] assms(2)])
qed (use with_page_writes [OF assms(1)] other_table_page [OF free_slotD(1-3) [OF assms(1)] assms(2,3)] in blast)

text \<open>The process's own tables: the same five, with one entry changed.\<close>

lemma own_tables_with_page:
  assumes "free_slot s i t1 t2 ts q n"
  shows "tables_only (pmem (with_page s i ts q n)) (table_of s i) t1 t2 ts"
    "p < 1024 \<Longrightarrow> read64 (pmem (with_page s i ts q n)) (ent ts p) =
      (if p = q then of_nat (4096 * n) OR pwu else read64 (pmem s) (ent ts p))"
proof -
  note only = free_slotD(4) [OF assms] and q = free_slotD(5) [OF assms]
  note ok = tables_onlyD [OF only]
  have "read64 (write64 (pmem s) (ent ts q) v) (t + 8 * of_nat j) = read64 (pmem s) (t + 8 * of_nat j)"
    if "t \<in> {table_of s i, t1, t2}" "j < 512" for t j v
    unfolding ent_def using that ok by (intro read64_write64_other entries_disjoint) (auto simp: tables_ok_def)
  then show "tables_only (pmem (with_page s i ts q n)) (table_of s i) t1 t2 ts"
    using only upper_write [OF ok q] by (simp add: tables_only_def with_page_def)
  show "p < 1024 \<Longrightarrow> read64 (pmem (with_page s i ts q n)) (ent ts p) =
      (if p = q then of_nat (4096 * n) OR pwu else read64 (pmem s) (ent ts p))"
    using ok ent_disjoint [of ts p q] q by (auto simp: with_page_def tables_ok_def read64_write64_other)
qed

lemma lookup_with_page:
  assumes "free_slot s i t1 t2 ts q n" "unat x < 0x400000" "unat x div 4096 \<noteq> q"
  shows "virtual_memory_lookup (pmem (with_page s i ts q n)) (table_of s i) x =
    virtual_memory_lookup (pmem s) (table_of s i) x"
  using lookup_low [OF tables_onlyD [OF own_tables_with_page(1) [OF assms(1)]] assms(2)]
    lookup_low [OF tables_onlyD [OF free_slotD(4) [OF assms(1)]] assms(2)]
    own_tables_with_page(2) [OF assms(1), of "unat x div 4096"] assms(2,3) by auto

lemma mapped_with_page:
  assumes f: "free_slot s i t1 t2 ts q n" and pt: "live_table s pt"
  shows "kernel_mapped (with_page s i ts q n) pt \<longleftrightarrow> kernel_mapped s pt"
proof -
  have L: "virtual_memory_lookup (pmem (with_page s i ts q n)) pt x = virtual_memory_lookup (pmem s) pt x"
    if x: "x = 0x7F000 \<or> (\<exists>a. x = of_nat a \<and> a < unat (end_at (img s)))" for x
  proof (cases "pt = table_of s i")
    case True
    have q: "4096 * q < 0x400000" "q \<noteq> 0x7F" "unat (end_at (img s)) \<le> 4096 * q" using f by (simp_all add: free_slot_def)
    consider "unat x = 0x7F000" | "unat x < 4096 * q"
    proof (cases "x = 0x7F000")
      case False
      then obtain a where a: "x = of_nat a" "a < unat (end_at (img s))" using x by blast
      then have "unat x = a" using q by (simp add: unat_of_nat64)
      then show ?thesis using a q(3) that(2) by simp
    qed (use that in simp)
    then have "unat x < 0x400000" "unat x div 4096 \<noteq> q" using q by (cases; auto)+
    then show ?thesis using lookup_with_page [OF f] True by simp
  next
    case False
    then show ?thesis by (rule lookup_same [OF others_with_page [OF f pt]])
  qed
  have "kernel_page_ok (with_page s i ts q n) pt (of_nat a) \<longleftrightarrow> kernel_page_ok s pt (of_nat a)"
    if "a \<in> pages_from 0x40000 (unat (end_at (img s)))" for a
  proof -
    have "a < unat (end_at (img s))" using that by (simp add: pages_from_def)
    then have "virtual_memory_lookup (pmem (with_page s i ts q n)) pt (of_nat a) = virtual_memory_lookup (pmem s) pt (of_nat a)"
      by (intro L) blast
    then show ?thesis by (simp add: kernel_page_ok_def)
  qed
  then show ?thesis using L [of "0x7F000"] by (simp add: kernel_mapped_def)
qed

lemma held_tables_with_page:
  assumes f: "free_slot s i t1 t2 ts q n" and pt: "live_table s pt"
  shows "tables_held 3 (with_page s i ts q n) pt own c \<longleftrightarrow> tables_held 3 s pt own c"
proof (cases "pt = table_of s i")
  case True
  have "page_held (with_page s i ts q n) x own c = page_held s x own c"
    if "x \<in> {table_of s i, t1, t2, fst ts, snd ts}" for x c
    using that table_page_other [OF f free_slotD(6) [OF f]] tables_reach [OF free_slotD(4) [OF f], of x]
    by (intro page_held_with_page) blast
  then show ?thesis
    unfolding True tables_held_iff [OF free_slotD(4) [OF f]] tables_held_iff [OF own_tables_with_page(1) [OF f]] by simp
next
  case False
  show ?thesis
    by (rule tables_held_same [OF others_with_page [OF f pt False]]) (rule page_held_with_page [OF table_page_other [OF f pt]])
qed

lemma invariant_with_page:
  assumes f: "free_slot s i t1 t2 ts q n"
  shows "os_invariant (with_page s i ts q n)"
proof -
  let ?t = "with_page s i ts q n"
  note os = free_slotD(1) [OF f] and K = mapped_with_page [OF f] held_tables_with_page [OF f]
  have u: "kernel_table_users ?t = kernel_table_users s" by (simp add: kernel_table_users_def)
  have p: "kernel_mapped ?t (p_pagetable (processes s ! j)) \<and> tables_held 3 ?t (p_pagetable (processes s ! j)) (int j) 1"
    if "j < NPROC" "p_state (processes s ! j) \<noteq> P_FREE" "p_pagetable (processes s ! j) \<noteq> kernel_pagetable s" for j
  proof -
    have "live_table s (p_pagetable (processes s ! j))"
      using live_table_proc [of s j] that by (simp add: in_use_proc_def table_of_def)
    from K [OF this] show ?thesis using os that by (simp add: os_invariant_def)
  qed
  have n: "(pageinfo s)[n := \<lparr>owner = int i, refcount = 1\<rparr>] ! x = (if x = n then \<lparr>owner = int i, refcount = 1\<rparr> else pageinfo s ! x)" for x
    using f by (simp add: free_slot_def nth_list_update)
  have "p_state (processes s ! i) \<noteq> P_FREE" using f by (simp add: free_slot_def in_use_proc_def)
  then have "p_state (processes s ! nat (owner (pageinfo ?t ! x))) \<noteq> P_FREE"
    if "x < NPAGES" "0 < refcount (pageinfo ?t ! x)" "0 \<le> owner (pageinfo ?t ! x)" for x
    using os that by (cases "x = n") (simp_all add: n os_invariant_def)
  then show ?thesis
    using os p K [OF live_table_kernel] unfolding os_invariant_def by (simp only: with_page_same u) blast
qed

text \<open>The new page is free, so it is no process's data yet; afterwards it is \<open>i\<close>'s.\<close>

lemma own_data_with_page:
  assumes f: "free_slot s i t1 t2 ts q n" and j: "in_use_proc s j" and o: "own_data s j a"
  shows "own_data (with_page s i ts q n) j a"
proof -
  have "j \<noteq> 0" by (rule in_use_not_zero [OF free_slotD(1) [OF f] j])
  then have "nat (PAGENUMBER a) \<noteq> n" using f o by (auto simp: own_data_def free_slot_def PO_FREE_def PO_RESERVED_def)
  moreover have "reaches 3 (pmem (with_page s i ts q n)) (table_of s j) x \<longleftrightarrow> reaches 3 (pmem s) (table_of s j) x" for x
  proof (cases "table_of s j = table_of s i")
    case True
    then show ?thesis using tables_reach [OF free_slotD(4) [OF f]] tables_reach [OF own_tables_with_page(1) [OF f]] by simp
  next
    case False
    show ?thesis by (rule reaches_same [OF others_with_page [OF f live_table_proc [OF j] False]])
  qed
  ultimately show ?thesis using o by (simp add: own_data_def)
qed

lemma new_page_own_data:
  assumes f: "free_slot s i t1 t2 ts q n" and a: "PTE_ADDR a = of_nat (4096 * n)"
  shows "own_data (with_page s i ts q n) i a"
proof -
  have n: "n < 512" "length (pageinfo s) = 512" using f by (simp_all add: free_slot_def NPAGES_def)
  then have u: "unat (of_nat (4096 * n) :: u64) = 4096 * n" by (intro unat_of_nat64) simp
  have "PAGENUMBER a = PAGENUMBER (of_nat (4096 * n))" using PAGENUMBER_page [of a] a by simp
  also have "\<dots> = int n" using n u PAGENUMBER_nat [of "of_nat (4096 * n)"] by simp
  finally have p: "PAGENUMBER a = int n" .
  have "\<not> reaches 3 (pmem (with_page s i ts q n)) (table_of s i) (PTE_ADDR a)"
    using table_page_other [OF f free_slotD(6) [OF f], of "PTE_ADDR a"] p
      tables_reach [OF free_slotD(4) [OF f]] tables_reach [OF own_tables_with_page(1) [OF f]] PAGENUMBER_page [of a] by auto
  then show ?thesis using n p f by (simp add: own_data_def NPAGES_def free_slot_def)
qed

lemma isolated_with_page:
  assumes f: "free_slot s i t1 t2 ts q n"
  shows "isolated (with_page s i ts q n)"
proof -
  let ?t = "with_page s i ts q n"
  have iso: "confined s j" if "in_use_proc s j" for j using f that by (simp add: free_slot_def isolated_def)
  have "own_data ?t j a" if j: "in_use_proc s j" and w: "user_writable (pmem ?t) (table_of s j) a" for j a
  proof (cases "table_of s j = table_of s i")
    case False
    then have "user_writable (pmem s) (table_of s j) a"
      using w same_tables_walk [OF others_with_page [OF f live_table_proc [OF j] False]] by (simp add: user_writable_def)
    then show ?thesis using iso [OF j] own_data_with_page [OF f j] by (simp add: confined_def)
  next
    case True
    have "j = i"
    proof -
      have "page_held s (table_of s i) (int j) 1" "page_held s (table_of s i) (int i) 1"
        using process_table_page [OF free_slotD(1) [OF f] j] process_table_page [OF free_slotD(1-3) [OF f]] True free_slotD(3) [OF f]
        by simp_all
      then show ?thesis by (simp add: page_held_def)
    qed
    obtain p where p: "p < 1024" "read64 (pmem ?t) (ent ts p) AND pwu = pwu" "PTE_ADDR (read64 (pmem ?t) (ent ts p)) = PTE_ADDR a"
      using w writable_iff [OF own_tables_with_page(1) [OF f]] True by auto
    show ?thesis
    proof (cases "p = q")
      case True
      have "n < 512" using f by (simp add: free_slot_def NPAGES_def)
      then have "aligned (of_nat (4096 * n))" by (simp add: aligned_iff unat_of_nat64 del: of_nat_mult)
      then have "PTE_ADDR (of_nat (4096 * n) OR pwu) = of_nat (4096 * n)" using entry_bits(1) [of _ pwu] by (simp add: pwu_eq)
      then have "PTE_ADDR a = of_nat (4096 * n)" using p own_tables_with_page(2) [OF f, of p] True by (simp del: of_nat_mult)
      then show ?thesis using new_page_own_data [OF f] \<open>j = i\<close> by simp
    next
      case False
      then have "user_writable (pmem s) (table_of s i) a"
        using p own_tables_with_page(2) [OF f, of p] writable_iff [OF free_slotD(4) [OF f]] by auto
      then show ?thesis using iso [OF j] own_data_with_page [OF f j] \<open>j = i\<close> by (simp add: confined_def)
    qed
  qed
  then show ?thesis using invariant_with_page [OF f] by (simp add: isolated_def confined_def)
qed

end
