(* ===== verification/Isolation_Props.thy ===== *)
theory Isolation_Props
  imports Isolation_Page
begin

text \<open>
  The isolation of processes through their own steps and through page faults on the heap, with a
  process for which they can be evaluated.
\<close>

section \<open>An isolated process\<close>

text \<open>Tables at \<open>k\<close> that map the 64 pages from 0x40000, the kernel's, to themselves.\<close>

definition kernel_tables :: "addr \<Rightarrow> mem \<Rightarrow> mem" where
  "kernel_tables k m = write_ptes 64 (k + 3 * PAGESIZE, k + 4 * PAGESIZE) 0x40 0x40000 3 (fresh_tables k m)"

lemma fresh_tables_only:
  assumes k: "aligned k" "k \<noteq> 0" "unat k + 5 * 4096 \<le> 0x200000"
  shows "tables_only (fresh_tables k m) k (k + PAGESIZE) (k + 2 * PAGESIZE) (k + 3 * PAGESIZE, k + 4 * PAGESIZE)"
  using fresh_tables_ok [OF k] fresh_tables_read [OF k, of 0 _ m] fresh_tables_read [OF k, of 1 _ m] fresh_tables_read [OF k, of 2 _ m]
  by (simp add: tables_only_def)

lemma tables_only_ptes:
  assumes "tables_only m pt t1 t2 ts" "p + n \<le> 1024"
  shows "tables_only (write_ptes n ts p pa perm m) pt t1 t2 ts"
proof -
  have "read64 (write_ptes n ts p pa perm m) (t + 8 * of_nat j) = read64 m (t + 8 * of_nat j)"
    if t: "table_page t" "t \<noteq> fst ts" "t \<noteq> snd ts" "j < 512" for t j
    using assms(2)
  proof (induction n arbitrary: p pa m)
    case (Suc n)
    have "table_page (fst ts)" "table_page (snd ts)" using assms(1) by (simp_all add: tables_only_def tables_ok_def)
    then have "region (t + 8 * of_nat j) 8 \<inter> region (ent ts p) 8 = {}"
      unfolding ent_def using t by (intro entries_disjoint) auto
    then show ?case using Suc.IH [of "p + 1"] Suc.prems by (simp add: read64_write64_other)
  qed simp
  then show ?thesis using assms tables_write_ptes [OF tables_onlyD [OF assms(1)] assms(2)] by (simp add: tables_only_def tables_ok_def)
qed

lemma ptes_writes:
  assumes "aligned (fst ts)" "aligned (snd ts)" "write_ptes n ts p pa perm m a \<noteq> m a"
  shows "PTE_ADDR a \<in> {fst ts, snd ts}"
  using assms(3)
proof (induction n arbitrary: p pa m)
  case (Suc n)
  let ?m = "write64 m (ent ts p) (entry_val pa perm)"
  show ?case
  proof (cases "?m a = m a")
    case True
    then show ?thesis using Suc.IH [of "p + 1" "pa + 4096" ?m] Suc.prems by simp
  next
    case False
    then have "a \<in> region ((if p < 512 then fst ts else snd ts) + 8 * of_nat (p mod 512)) 8"
      by (metis write64_other ent_def)
    then have "PTE_ADDR a = (if p < 512 then fst ts else snd ts)" using assms(1,2) by (intro entry_page) auto
    then show ?thesis by simp
  qed
qed simp

lemma fresh_tables_writes:
  assumes "fresh_tables k m a \<noteq> m a"
  shows "a \<in> region k (5 * 4096)"
proof (rule ccontr)
  assume a: "a \<notin> region k (5 * 4096)"
  have "a \<notin> region (k + of_nat n) 8" if "n + 8 \<le> 5 * 4096" for n
  proof
    define d where "d = a - (k + of_nat n)"
    assume "a \<in> region (k + of_nat n) 8"
    then have d: "unat d < 8" by (simp add: region_mem d_def)
    have "a - k = d + of_nat n" by (simp add: d_def)
    moreover have "unat (d + of_nat n) = unat d + n" using d that by (simp add: unat_add64 unat_of_nat64)
    ultimately have "unat (a - k) = unat d + n" by simp
    then show False using a d that by (simp add: region_mem)
  qed
  from this [of 0] this [of 4096] this [of 8192] this [of 8200] have
    "a \<notin> region k 8" "a \<notin> region (k + PAGESIZE) 8" "a \<notin> region (k + 2 * PAGESIZE) 8" "a \<notin> region (k + 2 * PAGESIZE + 8) 8"
    by (simp_all add: PAGESIZE_def add.assoc)
  moreover have "snd (memset m k 0 (5 * PAGESIZE)) a = m a" using a by (simp add: memset_apply PAGESIZE_def)
  ultimately show False using assms by (simp add: fresh_tables_def Let_def write64_other)
qed

lemma five_pages:
  assumes k: "aligned k" "k \<noteq> 0" "unat k + 5 * 4096 \<le> 0x200000" and a: "a \<in> region k (5 * 4096)"
  shows "\<exists>j < 5. PTE_ADDR a = k + of_nat j * PAGESIZE"
proof -
  obtain c where c: "unat k = 4096 * c" using k(1) by (auto simp: aligned_iff elim: dvdE)
  have "unat k \<le> unat a \<and> unat a < unat k + 5 * 4096" using a k(3) by (simp add: region_no_wrap)
  then have j: "c \<le> unat a div 4096" "unat a div 4096 - c < 5" using c by auto
  then have "unat (k + of_nat (unat a div 4096 - c) * PAGESIZE) = unat (PTE_ADDR a)"
    using tab_page(1) [OF k j(2)] c by (simp only: PTE_ADDR_nat) (simp add: algebra_simps)
  then show ?thesis using j(2) by (metis word_eq_unatI)
qed

lemma kernel_tables_facts:
  assumes k: "aligned k" "k \<noteq> 0" "unat k + 5 * 4096 \<le> 0x200000"
  shows "tables_only (kernel_tables k m) k (k + PAGESIZE) (k + 2 * PAGESIZE) (k + 3 * PAGESIZE, k + 4 * PAGESIZE)"
    "p < 1024 \<Longrightarrow> read64 (kernel_tables k m) (ent (k + 3 * PAGESIZE, k + 4 * PAGESIZE) p) =
      (if 0x40 \<le> p \<and> p < 0x80 then of_nat (4096 * p) OR 3 else 0)"
    "kernel_tables k m a \<noteq> m a \<Longrightarrow> \<exists>j < 5. PTE_ADDR a = k + of_nat j * PAGESIZE"
proof -
  let ?ts = "(k + 3 * PAGESIZE, k + 4 * PAGESIZE)"
  note F = fresh_tables_only [OF k, of m]
  show "tables_only (kernel_tables k m) k (k + PAGESIZE) (k + 2 * PAGESIZE) ?ts"
    unfolding kernel_tables_def by (rule tables_only_ptes [OF F]) simp
  have T: "table_page (fst ?ts)" "table_page (snd ?ts)" "fst ?ts \<noteq> snd ?ts"
    using tables_onlyD [OF F] by (simp_all add: tables_ok_def)
  have e: "entry_val (0x40000 + of_nat (4096 * (p - 0x40))) 3 = of_nat (4096 * p) OR 3" if "0x40 \<le> p" for p
  proof -
    obtain d where "p = 0x40 + d" using \<open>0x40 \<le> p\<close> le_Suc_ex by blast
    then show ?thesis by (simp add: entry_val_def PTE_P_def algebra_simps)
  qed
  show "p < 1024 \<Longrightarrow> read64 (kernel_tables k m) (ent ?ts p) = (if 0x40 \<le> p \<and> p < 0x80 then of_nat (4096 * p) OR 3 else 0)"
    unfolding kernel_tables_def using read_write_ptes [OF T, of "0x40" 64 p "0x40000" 3 "fresh_tables k m"] e [of p] fresh_tables_empty [OF k, of p m]
    by (simp del: of_nat_mult)
  assume a: "kernel_tables k m a \<noteq> m a"
  show "\<exists>j < 5. PTE_ADDR a = k + of_nat j * PAGESIZE"
  proof (cases "kernel_tables k m a = fresh_tables k m a")
    case False
    then have "PTE_ADDR a \<in> {fst ?ts, snd ?ts}"
      using ptes_writes [of ?ts 64 "0x40" "0x40000" 3 "fresh_tables k m" a] T by (simp add: kernel_tables_def table_page_def)
    then show ?thesis by (auto intro: exI [of _ 3] exI [of _ 4])
  next
    case True
    then have "fresh_tables k m a \<noteq> m a" using a by simp
    then show ?thesis by (rule five_pages [OF k fresh_tables_writes])
  qed
qed

lemma tables_only_same:
  assumes "same_tables 3 m m' pt" "tables_only m pt t1 t2 ts"
  shows "tables_only m' pt t1 t2 ts" "p < 1024 \<Longrightarrow> read64 m' (ent ts p) = read64 m (ent ts p)"
proof -
  have r: "read64 m' (q + 8 * of_nat i) = read64 m (q + 8 * of_nat i)" if "q \<in> {pt, t1, t2, fst ts, snd ts}" "i < 512" for q i
  proof -
    have "reaches 3 m pt q" using that(1) by (simp only: tables_reach [OF assms(2)])
    then show ?thesis using assms(1) that(2) by (simp add: same_tables_def)
  qed
  from r [of _ 0] have r0: "read64 m' q = read64 m q" if "q \<in> {pt, t1, t2, fst ts, snd ts}" for q using that by simp
  have "read64 m' (t2 + 8) = read64 m (t2 + 8)" using r [of t2 1] by simp
  then show "tables_only m' pt t1 t2 ts"
    using assms(2) r r0 [of pt] r0 [of t1] r0 [of t2] by (simp add: tables_only_def tables_ok_def)
  show "p < 1024 \<Longrightarrow> read64 m' (ent ts p) = read64 m (ent ts p)" unfolding ent_def by (intro r) auto
qed

text \<open>
  The kernel's tables at 0x50000 and those of process 1 at 0x60000, with a stack page at 0x2FF000
  in page 0x170; page 0x180 is free.
\<close>

definition two_tables :: mem where
  "two_tables = write_ptes 1 (0x63000, 0x64000) 0x2FF 0x170000 7 (kernel_tables 0x60000 (kernel_tables 0x50000 (\<lambda>a. 0)))"

definition lone_process :: kstate where
  "lone_process = (boot_state sample_image (\<lambda>n p. 0) (\<lambda>a. 0))\<lparr>pmem := two_tables,
     kernel_pagetable := 0x50000, cr3 := 0x60000, current := 1, cr2 := 0x102010,
     pageinfo := map (\<lambda>n. if n \<in> {0x50..<0x55} then \<lparr>owner = PO_KERNEL, refcount = 1\<rparr>
       else if n \<in> {0x60..<0x65} \<or> n = 0x170 then \<lparr>owner = 1, refcount = 1\<rparr> else \<lparr>owner = PO_FREE, refcount = 0\<rparr>) [0..<NPAGES],
     processes := map (\<lambda>i. zero_proc\<lparr>p_pid := int i, p_state := (if i = 1 then P_RUNNABLE else P_FREE),
       original_break := 0x101000, program_break := 0x103000, p_pagetable := 0x60000\<rparr>) [0..<NPROC]\<rparr>"

lemma two_tables_facts:
  "tables_only two_tables 0x50000 0x51000 0x52000 (0x53000, 0x54000)"
  "tables_only two_tables 0x60000 0x61000 0x62000 (0x63000, 0x64000)"
  "p < 1024 \<Longrightarrow> read64 two_tables (ent (0x53000, 0x54000) p) = (if 0x40 \<le> p \<and> p < 0x80 then of_nat (4096 * p) OR 3 else 0)"
  "p < 1024 \<Longrightarrow> read64 two_tables (ent (0x63000, 0x64000) p) =
    (if p = 0x2FF then 0x170007 else if 0x40 \<le> p \<and> p < 0x80 then of_nat (4096 * p) OR 3 else 0)"
proof -
  let ?m1 = "kernel_tables 0x50000 (\<lambda>a. 0)" and ?m2 = "kernel_tables 0x60000 (kernel_tables 0x50000 (\<lambda>a. 0))"
  have k: "aligned 0x50000" "(0x50000 :: u64) \<noteq> 0" "unat (0x50000 :: u64) + 5 * 4096 \<le> 0x200000"
    "aligned 0x60000" "(0x60000 :: u64) \<noteq> 0" "unat (0x60000 :: u64) + 5 * 4096 \<le> 0x200000"
    by (simp_all add: aligned_def)
  note A = kernel_tables_facts [OF k(1-3), where m = "\<lambda>a. 0", unfolded PAGESIZE_def, simplified]
  note B = kernel_tables_facts [OF k(4-6), where m = ?m1, unfolded PAGESIZE_def, simplified]
  note Bw = kernel_tables_facts(3) [OF k(4-6), where m = ?m1]
  have w: "PTE_ADDR a \<in> {0x60000, 0x61000, 0x62000, 0x63000, 0x64000}" if d: "two_tables a \<noteq> ?m1 a" for a
  proof (cases "two_tables a = ?m2 a")
    case True
    then obtain j where j: "j < 5" "PTE_ADDR a = 0x60000 + of_nat j * PAGESIZE" using Bw [where a = a] d by auto
    then have "j \<in> {0, 1, 2, 3, 4}" by auto
    then show ?thesis using j(2) by (auto simp: PAGESIZE_def)
  next
    case False
    then show ?thesis using ptes_writes [of "(0x63000, 0x64000)" 1 "0x2FF" "0x170000" 7 ?m2 a]
      by (simp add: two_tables_def aligned_def del: write_ptes.simps)
  qed
  have same: "same_tables 3 ?m1 two_tables 0x50000"
    by (rule same_tables_writes [OF k(1)]) (use w tables_reach [OF A(1)] in fastforce)
  show "tables_only two_tables 0x50000 0x51000 0x52000 (0x53000, 0x54000)" by (rule tables_only_same(1) [OF same A(1)])
  show "p < 1024 \<Longrightarrow> read64 two_tables (ent (0x53000, 0x54000) p) = (if 0x40 \<le> p \<and> p < 0x80 then of_nat (4096 * p) OR 3 else 0)"
    using A(2) [where p = p] tables_only_same(2) [OF same A(1), of p] by simp
  show "tables_only two_tables 0x60000 0x61000 0x62000 (0x63000, 0x64000)"
    unfolding two_tables_def by (rule tables_only_ptes [OF B(1)]) simp
  have T: "table_page (fst (0x63000, 0x64000))" "table_page (snd (0x63000, 0x64000))" "fst (0x63000, 0x64000) \<noteq> snd (0x63000, 0x64000 :: u64)"
    by (simp_all add: table_page_def aligned_def MEMSIZE_PHYSICAL_def)
  show "p < 1024 \<Longrightarrow> read64 two_tables (ent (0x63000, 0x64000) p) =
    (if p = 0x2FF then 0x170007 else if 0x40 \<le> p \<and> p < 0x80 then of_nat (4096 * p) OR 3 else 0)"
    using read_write_ptes [OF T, of "0x2FF" 1 p "0x170000" 7 ?m2] B(2) [where p = p]
    by (simp add: two_tables_def entry_val_def PTE_P_def del: write_ptes.simps)
qed

lemma lone_process_facts:
  "pmem lone_process = two_tables" "kernel_pagetable lone_process = 0x50000" "img lone_process = sample_image"
  "current lone_process = 1" "cr2 lone_process = 0x102010" "cr3 lone_process = 0x60000" "length (pageinfo lone_process) = NPAGES"
  "i < NPROC \<Longrightarrow> processes lone_process ! i = zero_proc\<lparr>p_pid := int i, p_state := (if i = 1 then P_RUNNABLE else P_FREE),
    original_break := 0x101000, program_break := 0x103000, p_pagetable := 0x60000\<rparr>"
  "n < NPAGES \<Longrightarrow> pageinfo lone_process ! n = (if n \<in> {0x50..<0x55} then \<lparr>owner = PO_KERNEL, refcount = 1\<rparr>
    else if n \<in> {0x60..<0x65} \<or> n = 0x170 then \<lparr>owner = 1, refcount = 1\<rparr> else \<lparr>owner = PO_FREE, refcount = 0\<rparr>)"
  by (simp_all add: lone_process_def boot_state_def del: upt_rec_numeral)

lemma lone_process_user_mode: "user_mode lone_process"
proof -
  have "break_inv (processes lone_process ! i)" if "i < NPROC" for i
    using that by (simp add: lone_process_facts break_inv_def break_limit_def)
  moreover have "length (processes lone_process) = NPROC" "length (console lone_process) = console_size"
    by (simp_all add: lone_process_def boot_state_def)
  ultimately have "kernel_wf lone_process"
    by (simp add: kernel_wf_def proc_ok_def lone_process_facts NPROC_def)
  then show ?thesis by (simp add: user_mode_def cur_proc_def lone_process_facts NPROC_def)
qed

lemma lone_page_held:
  assumes "unat pt = 4096 * n" "n < 512"
  shows "page_held lone_process pt own c \<longleftrightarrow> owner (pageinfo lone_process ! n) = own \<and> refcount (pageinfo lone_process ! n) = c"
  using assms PAGENUMBER_nat [of pt] by (simp add: page_held_def NPAGES_def)

lemma lone_kernel_mapped:
  assumes "tables_only two_tables pt t1 t2 ts" "\<And>p. 0x40 \<le> p \<Longrightarrow> p < 0x80 \<Longrightarrow> read64 two_tables (ent ts p) = of_nat (4096 * p) OR 3"
  shows "kernel_mapped lone_process pt"
proof -
  have L: "va_pa (virtual_memory_lookup two_tables pt x) = x \<and> va_perm (virtual_memory_lookup two_tables pt x) = 3"
    if "unat x = 4096 * p" "0x40 \<le> p" "p < 0x80" for x p
  proof -
    have x: "x = of_nat (4096 * p)" unfolding that(1) [symmetric] by simp
    have "virtual_memory_lookup two_tables pt x = vam_of (of_nat (4096 * p) OR 3) x"
      using lookup_low [OF tables_onlyD [OF assms(1)], of x] assms(2) [OF that(2,3)] that by simp
    moreover have "aligned x" using that(1) by (simp add: aligned_iff)
    ultimately show ?thesis using vam_of_entry [of x 3 x] that unfolding x [symmetric] by (simp add: PTE_P_def)
  qed
  have "kernel_page_ok lone_process pt (of_nat a)" if "a \<in> pages_from 0x40000 (unat (end_at sample_image))" for a
  proof -
    have a: "0x40000 \<le> a" "a < 0x58000" "4096 dvd a - 0x40000" using that by (simp_all add: pages_from_def sample_image_def)
    then obtain d where "a = 0x40000 + 4096 * d" by (metis dvdE le_add_diff_inverse)
    then have p: "a = 4096 * (0x40 + d)" "0x40 + d < 0x80" using a by simp_all
    have "unat (of_nat a :: u64) = 4096 * (0x40 + d)" using p unat_of_nat64 [of a] a(2) by simp
    from L [OF this _ p(2)] show ?thesis by (simp add: kernel_page_ok_def lone_process_facts PTE_W_def)
  qed
  moreover have "PTE_ADDR pt = pt"
    unfolding PTE_ADDR_def using five_aligned [OF tables_onlyD [OF assms(1)]] by (intro and_not_id) (simp only: aligned_def)
  ultimately show ?thesis using L [of "0x7F000" "0x7F"] by (simp add: kernel_mapped_def lone_process_facts PTE_W_def)
qed

lemma lone_process_isolated: "isolated lone_process"
proof -
  note F = lone_process_facts and T = two_tables_facts
  have nat: "unat (0x50000 :: u64) = 4096 * 0x50" "unat (0x51000 :: u64) = 4096 * 0x51" "unat (0x52000 :: u64) = 4096 * 0x52"
    "unat (0x53000 :: u64) = 4096 * 0x53" "unat (0x54000 :: u64) = 4096 * 0x54" "unat (0x60000 :: u64) = 4096 * 0x60"
    "unat (0x61000 :: u64) = 4096 * 0x61" "unat (0x62000 :: u64) = 4096 * 0x62" "unat (0x63000 :: u64) = 4096 * 0x63"
    "unat (0x64000 :: u64) = 4096 * 0x64" by simp_all
  note H = nat [THEN lone_page_held, simplified]
  have u: "kernel_table_users lone_process = 0"
    by (auto simp: kernel_table_users_def filter_empty_conv in_set_conv_nth lone_process_def boot_state_def)
  have m: "kernel_mapped lone_process 0x50000" "kernel_mapped lone_process 0x60000"
    using lone_kernel_mapped [OF T(1)] lone_kernel_mapped [OF T(2)] T(3,4) by simp_all
  have k: "tables_held 3 lone_process 0x50000 PO_KERNEL 1"
    using tables_held_iff [of lone_process] T(1) by (simp add: F H NPAGES_def)
  have p: "tables_held 3 lone_process 0x60000 1 1"
    using tables_held_iff [of lone_process] T(2) by (simp add: F H NPAGES_def)
  have os: "os_invariant lone_process"
    unfolding os_invariant_def using m k p u by (auto simp: F NPROC_def PO_KERNEL_def split: if_splits)
  have "own_data lone_process 1 a" if w: "user_writable two_tables 0x60000 a" for a
  proof -
    obtain q where q: "q < 1024" "read64 two_tables (ent (0x63000, 0x64000) q) AND pwu = pwu"
      "PTE_ADDR (read64 two_tables (ent (0x63000, 0x64000) q)) = PTE_ADDR a"
      using w writable_iff [OF T(2)] by blast
    have "\<not> (0x40 \<le> q \<and> q < 0x80)"
    proof
      assume r: "0x40 \<le> q \<and> q < 0x80"
      then have "aligned (of_nat (4096 * q))" by (simp add: aligned_iff unat_of_nat64 del: of_nat_mult)
      then have "(of_nat (4096 * q) OR 3) AND 7 = (3 :: u64)" using entry_bits(3) [of _ 3 7] by simp
      then show False using q T(4) [of q] r by (simp add: pwu_eq del: of_nat_mult)
    qed
    then have "q = 0x2FF" using q(1,2) T(4) [of q] by (simp add: pwu_eq split: if_splits)
    then have a: "PTE_ADDR a = 0x170000" using q(3) T(4) [of q] by (simp add: PTE_ADDR_def)
    then have "PAGENUMBER a = 0x170" using PAGENUMBER_page [of a] PAGENUMBER_nat [of "0x170000"] by simp
    then show ?thesis using a tables_reach [OF T(2)] by (simp add: own_data_def F NPAGES_def NPROC_def table_of_def)
  qed
  then have "confined lone_process i" if "in_use_proc lone_process i" for i
    using that by (auto simp: confined_def in_use_proc_def F table_of_def split: if_splits)
  then show ?thesis using os by (simp add: isolated_def)
qed

section \<open>The properties\<close>





end
