(* ===== verification/Alloctests.thy ===== *)
theory Alloctests
  imports Heap_Info_Props Program_Props
begin

text \<open>
  \<^verbatim>\<open>uspace/p-alloctests.c\<close> runs to its end: allocation, resizing, zeroed memory and the heap report
  composed in one program, over the kernel's \<^verbatim>\<open>sbrk\<close>.
\<close>

section \<open>How far the break moves\<close>

text \<open>From the operating system state \<open>k\<close> the break has moved up by at most \<open>d\<close> bytes.\<close>

definition grown :: "nat \<Rightarrow> kstate \<Rightarrow> kstate \<Rightarrow> bool" where
  "grown d k k' \<longleftrightarrow> user_ok k' \<and> unat (cur_break k') \<le> unat (cur_break k) + d"

lemma grown_refl: "user_ok k \<Longrightarrow> grown 0 k k"
  by (simp add: grown_def)

lemma grown_trans: "grown d k k1 \<Longrightarrow> grown e k1 k2 \<Longrightarrow> grown (d + e) k k2"
  by (simp add: grown_def)

lemma grown_mono: "grown d k k1 \<Longrightarrow> d \<le> e \<Longrightarrow> grown e k k1"
  by (simp add: grown_def)

lemma sbrk_grown:
  assumes "user_ok k" "unat d < 2 ^ 63" "user_sbrk k d = Some (r, k')"
  shows "grown (unat d) k k'"
proof -
  have "unat (cur_break k + d) \<le> unat (cur_break k) + unat d" by (simp add: unat_word_ariths(1))
  then show ?thesis using user_sbrk_grow [OF assms(1,2)] assms(3) by (auto simp: grown_def split: if_splits)
qed

lemma init_grown: "user_ok (os s) \<Longrightarrow> init user_sbrk s = Some s' \<Longrightarrow> grown 0 (os s) (os s')"
  using sbrk_grown [of "os s" 0] grown_refl by (auto simp: init_def split: if_splits Option.bind_splits)

lemma malloc_grown:
  assumes "user_ok (os s)" "unat sz + 16 \<le> 2 ^ 63" "malloc user_sbrk s sz = Some (p, s')"
  shows "grown (round8 (unat sz) + 8) (os s) (os s')"
proof (cases "sz = 0")
  case True
  then show ?thesis using assms grown_refl grown_mono [of 0] by (auto simp: malloc_def)
next
  case False
  note N = kb.need_slop(1,6) [OF False assms(2)]
  obtain s1 where s1: "init user_sbrk s = Some s1" using assms(3) False by (auto simp: malloc_def split: Option.bind_splits)
  have g: "grown 0 (os s) (os s1)" by (rule init_grown [OF assms(1) s1])
  then have u: "user_ok (os s1)" by (simp add: grown_def)
  have "os s' = os s1 \<or> (\<exists>r. user_sbrk (os s1) (round_up sz ALIGN + sizeof_header) = Some (r, os s'))"
    using assms(3) False s1 by (auto simp: malloc_def Let_def split: Option.bind_splits option.splits if_splits)
  then show ?thesis
  proof
    assume "os s' = os s1"
    then show ?thesis using grown_mono [OF g] by simp
  next
    assume "\<exists>r. user_sbrk (os s1) (round_up sz ALIGN + sizeof_header) = Some (r, os s')"
    then obtain r where "user_sbrk (os s1) (round_up sz ALIGN + sizeof_header) = Some (r, os s')" by blast
    from sbrk_grown [OF u _ this] have "grown (round8 (unat sz) + 8) (os s1) (os s')" using N by simp
    from grown_trans [OF g this] show ?thesis by simp
  qed
qed

lemma os_free [simp]: "os (free s p) = os s"
  by (simp add: free_def)

lemma two_mallocs_grown:
  assumes "user_ok (os s)" "n \<le> 2 ^ 40" "malloc user_sbrk s (8 * of_nat n) = Some (p, s1)"
    "malloc user_sbrk s1 (8 * of_nat n) = Some (q, s2)"
  shows "grown (16 * n + 16) (os s) (os s2)"
proof -
  have u: "unat (8 * of_nat n :: u64) = 8 * n" using assms(2) unat_of_nat64 [of "8 * n"] by simp
  have r: "round8 (8 * n) = 8 * n" by (simp add: round8_def)
  have "grown (8 * n + 8) (os s) (os s1)" using malloc_grown [OF assms(1) _ assms(3)] assms(2) u r by simp
  moreover from this have "grown (8 * n + 8) (os s1) (os s2)"
    using malloc_grown [OF _ _ assms(4)] assms(2) u r by (simp add: grown_def)
  ultimately show ?thesis using grown_trans by fastforce
qed

lemma alloc_arrays_grown:
  assumes "user_ok (os s)" "n \<le> 2 ^ 40" "alloc_arrays user_sbrk s n = Some (r, s')"
  shows "grown (16 * n + 16) (os s) (os s')"
proof (cases "n = 0")
  case True
  then show ?thesis using assms grown_mono [OF grown_refl] by (simp add: alloc_arrays_def)
next
  case False
  then obtain p s1 q s2 where m: "malloc user_sbrk s (8 * of_nat n) = Some (p, s1)" "malloc user_sbrk s1 (8 * of_nat n) = Some (q, s2)"
    and s': "os s' = os s2"
    using assms(3) by (fastforce simp: alloc_arrays_def split: Option.bind_splits if_splits)
  from two_mallocs_grown [OF assms(1,2) m] show ?thesis by (simp only: s')
qed

lemma sort_grown:
  assumes "user_ok (os s)" "n \<le> 2 ^ 40" "sort_descending user_sbrk s a b n = Some s'"
  shows "grown (16 * n + 16) (os s) (os s')"
proof -
  obtain p s1 q s2 where m: "malloc user_sbrk s (8 * of_nat n) = Some (p, s1)" "malloc user_sbrk s1 (8 * of_nat n) = Some (q, s2)"
    and s': "os s' = os s2"
    using assms(3) by (fastforce simp: sort_descending_def Let_def case_prod_beta split: Option.bind_splits if_splits)
  from two_mallocs_grown [OF assms(1,2) m] show ?thesis by (simp only: s')
qed

lemma heap_info_grown:
  assumes "user_ok (os s)" "heap_info user_sbrk s = Some (0, info, s')" "num_allocs info = int n" "n \<le> 2 ^ 40"
  shows "grown (32 * n + 32) (os s) (os s')"
proof -
  obtain sa pa s1 m space largest where h: "alloc_arrays user_sbrk s n = Some (Some (sa, pa), s1)"
    "(if n > 0 then sort_descending user_sbrk (s1\<lparr>umem := m\<rparr>) sa pa n else Some (s1\<lparr>umem := m\<rparr>)) = Some s'"
    using assms(2,3) by (auto simp: heap_info_def split: if_splits Option.bind_splits option.splits)
  have 1: "grown (16 * n + 16) (os s) (os s1)" by (rule alloc_arrays_grown [OF assms(1,4) h(1)])
  then have u: "user_ok (os (s1\<lparr>umem := m\<rparr>))" by (simp add: grown_def)
  have "grown (16 * n + 16) (os (s1\<lparr>umem := m\<rparr>)) (os s')"
    using h(2) sort_grown [OF u assms(4)] grown_mono [OF grown_refl [OF u]] by (auto split: if_splits)
  with grown_trans [OF 1] show ?thesis by fastforce
qed

section \<open>The pages at the end\<close>

text \<open>Bytes of the heap in blocks in use: what every allocation increases.\<close>

definition used_bytes :: "blk list \<Rightarrow> nat" where
  "used_bytes bs = sum_list (map bsize (filter in_use bs))"

lemma used_bytes_simps [simp]:
  "used_bytes [] = 0" "used_bytes (b # bs) = (if in_use b then bsize b else 0) + used_bytes bs"
  "used_bytes (xs @ ys) = used_bytes xs + used_bytes ys"
  by (simp_all add: used_bytes_def)

lemma used_bytes_le: "used_bytes bs \<le> bsizes bs"
  by (induction bs) auto

lemma malloc_uses:
  assumes "spec_malloc lim a bs sz = (Some p, bs')"
  shows "used_bytes bs < used_bytes bs'"
proof (cases "spec_fit (round8 sz + 8) bs")
  case None
  then show ?thesis using assms by (auto simp: spec_malloc_def Let_def split: if_splits)
next
  case (Some t)
  obtain pre n post where t: "t = (pre, n, post)" by (cases t)
  from spec_fit_Some [OF Some [unfolded t]] show ?thesis
    using assms Some t by (auto simp: spec_malloc_def Let_def spec_place_def split: if_splits)
qed

lemma pages_end:
  assumes "uheap_ok s bs"
  shows "\<exists>pages' time' s'. p_alloctests_pages user_sbrk tsc p pages time s = Some (pages', time', s') \<and> pages \<le> pages' \<and>
    (ubase s + bsizes bs + 4104 < break_limit \<longrightarrow> pages < pages')"
  using assms
proof (induction "break_limit - used_bytes bs" arbitrary: s bs pages time rule: less_induct)
  case less
  let ?time = "time + (case_prod rdtsc (tsc (2 * pages + 1)) - case_prod rdtsc (tsc (2 * pages)))"
  have pg: "unat PAGESIZE = 4096" by (simp add: PAGESIZE_def)
  obtain res bs1 where sp: "spec_malloc break_limit (ubase s) bs 4096 = (res, bs1)" by fastforce
  obtain s1 where m: "malloc user_sbrk s PAGESIZE = Some (pointer res, s1)" "keeps s bs s1 bs1" "array_of (ubase s) bs bs1 4096 res"
    using malloc_array [OF less.prems, of PAGESIZE res bs1] sp pg by auto
  note K = keepsD [OF m(2)] and L = kb.heap_ok_layout [OF keepsD(1) [OF m(2)]]
  show ?case
  proof (cases res)
    case None
    have "\<not> ubase s + bsizes bs + 4104 < break_limit"
      using sp None by (auto simp: spec_malloc_def round8_def split: option.splits if_splits)
    then show ?thesis using m(1) None by (subst p_alloctests_pages.simps) simp
  next
    case (Some q)
    obtain n sl where q: "extra (ubase s) bs bs1 q (Used n sl)" "4096 + 8 + sl \<le> n" using m(3) Some by (auto simp: array_of_def)
    have b: "blk_at (ubase s1) bs1 q (Used n sl)" using q(1) K(2) by (simp add: extra_def)
    have nz: "(of_nat q :: u64) \<noteq> NULL" using extra_header [OF q(1) m(2)] by simp
    have lt: "q + (n - 8) < 2 ^ 31" using kb.blk_at_less [OF b L(2)] L(3) by simp
    let ?s = "s1\<lparr>umem := write32 (umem s1) (of_nat q) p\<rparr>"
    have ok: "uheap_ok ?s bs1"
    proof (rule kb.write_payload [OF K(1) b])
      fix x :: nat assume x: "x < 2 ^ 64" "x < q \<or> q + (bsize (Used n sl) - 8) \<le> x"
      then have "(of_nat x :: u64) \<notin> region (of_nat q) 4" using lt q(2) region_of_nat [of q 4 x] by auto
      then show "write32 (umem s1) (of_nat q) p (of_nat x) = umem s1 (of_nat x)" by (simp add: write32_other)
    qed
    have more: "used_bytes bs < used_bytes bs1" by (rule malloc_uses [OF sp [unfolded Some]])
    have "used_bytes bs1 < break_limit" using used_bytes_le [of bs1] kb.heap_end_bound [OF ok] by simp
    then have "break_limit - used_bytes bs1 < break_limit - used_bytes bs" using more by simp
    from less.hyps [OF this ok, of "pages + 1" ?time] obtain pages' time' s'
      where r: "p_alloctests_pages user_sbrk tsc p (pages + 1) ?time ?s = Some (pages', time', s')" "pages + 1 \<le> pages'"
      by auto
    have "p_alloctests_pages user_sbrk tsc p pages time s = Some (pages', time', s')"
      using m(1) Some nz r(1) by (subst p_alloctests_pages.simps) simp
    then show ?thesis using r(2) by (intro exI conjI) auto
  qed
qed

section \<open>Integers in memory\<close>

lemma read32_copy: "(\<And>j. j < 4 \<Longrightarrow> m' (b + of_nat j) = m (a + of_nat j)) \<Longrightarrow> read32 m' b = read32 m a"
proof -
  assume c: "\<And>j. j < 4 \<Longrightarrow> m' (b + of_nat j) = m (a + of_nat j)"
  from c [of 0] c [of 1] c [of 2] c [of 3] show ?thesis by (simp add: read32_def numeral_eq_Suc add.assoc)
qed

lemma store_ints_Suc: "store_ints a (Suc n) m = write32 (store_ints a n m) (a + 4 * of_nat n) (of_nat n)"
  by (simp add: store_ints_def)

lemma store_ints_facts:
  assumes "p + 4 * n < 2 ^ 31"
  shows "x < 2 ^ 64 \<Longrightarrow> x < p \<or> p + 4 * n \<le> x \<Longrightarrow> store_ints (of_nat p) n m (of_nat x) = m (of_nat x)"
    "i < n \<Longrightarrow> read32 (store_ints (of_nat p) n m) (of_nat p + 4 * of_nat i) = of_nat i"
  using assms
proof (induction n)
  case (Suc n)
  have e: "(of_nat p :: u64) + 4 * of_nat n = of_nat (p + 4 * n)" "(of_nat p :: u64) + 4 * of_nat i = of_nat (p + 4 * i)" by simp_all
  {
    case 1
    then have "(of_nat x :: u64) \<notin> region (of_nat (p + 4 * n)) 4"
      using region_of_nat [of "p + 4 * n" 4 x] by auto
    then show ?case using Suc.IH(1) 1 unfolding store_ints_Suc e by (subst write32_other) auto
  next
    case 2
    show ?case
    proof (cases "i = n")
      case True
      then show ?thesis unfolding store_ints_Suc by simp
    next
      case False
      have "region (of_nat (p + 4 * i)) 4 \<inter> region (of_nat (p + 4 * n)) (4 :: nat) = {}"
        using 2 False by (intro region_disjoint_nat) (auto simp: unat_of_nat64 simp del: of_nat_add of_nat_mult)
      then have "read32 (write32 M (of_nat (p + 4 * n)) v) (of_nat (p + 4 * i)) = read32 M (of_nat (p + 4 * i))" for M v
        by (intro read32_cong write32_other) auto
      then show ?thesis using Suc.IH(2) 2 False unfolding store_ints_Suc e by simp
    qed
  }
qed (simp_all add: store_ints_def)

section \<open>The checks\<close>

text \<open>The array of ten integers, and its copy in a larger block.\<close>

lemma resized_array:
  assumes ok: "uheap_ok s []" and a: "ubase s = a" "a + 4464 < break_limit"
  obtains s1 s2 where "malloc user_sbrk s 40 = Some (of_nat (a + 8), s1)"
    "realloc user_sbrk (s1\<lparr>umem := store_ints (of_nat (a + 8)) 10 (umem s1)\<rparr>) (of_nat (a + 8)) 80 = Some (of_nat (a + 56), s2)"
    "uheap_ok s2 [blk.Free 48, Used 88 0]" "ubase s2 = a"
    "\<And>i. i < 10 \<Longrightarrow> read32 (umem s2) (of_nat (a + 56) + 4 * of_nat i) = of_nat i"
proof -
  let ?p = "a + 8" and ?q = "a + 56"
  have "spec_malloc break_limit (ubase s) [] (unat (40 :: u64)) = (Some ?p, [Used 48 0])"
    using a by (simp add: spec_malloc_def round8_def)
  from kb.malloc_result [OF ok _ this] obtain s1
    where 1: "malloc user_sbrk s 40 = Some (of_nat ?p, s1)" "uheap_ok s1 [Used 48 0]" "ubase s1 = a" using a(1) by auto
  have b: "blk_at (ubase s1) [Used 48 0] ?p (Used 48 0)" using 1(3) by simp
  let ?m = "store_ints (of_nat ?p) 10 (umem s1)"
  note I = store_ints_facts [of ?p 10, where m = "umem s1"]
  have lt: "?p + 4 * 10 < 2 ^ 31" using a by (simp add: break_limit_def)
  have ok2: "uheap_ok (s1\<lparr>umem := ?m\<rparr>) [Used 48 0]" by (rule kb.write_payload [OF 1(2) b]) (use I(1) lt in simp)
  have sp: "spec_malloc break_limit a [Used 48 0] (unat (80 :: u64)) = (Some ?q, [Used 48 0, Used 88 0])"
    using a by (simp add: spec_malloc_def round8_def)
  have b2: "blk_at (ubase (s1\<lparr>umem := ?m\<rparr>)) [Used 48 0] ?p (Used 48 0)" using b by simp
  obtain s2 where 2: "realloc user_sbrk (s1\<lparr>umem := ?m\<rparr>) (of_nat ?p) 80 = Some (of_nat ?q, s2)"
    "uheap_ok s2 [blk.Free 48, Used 88 0]" "ubase s2 = a" "\<And>i. i < 40 \<Longrightarrow> umem s2 (of_nat (?q + i)) = ?m (of_nat (?p + i))"
    using kb.realloc_refines [OF ok2 b2, of 80] sp 1(3) by (auto simp: realloc_post_def)
  have "read32 (umem s2) (of_nat ?q + 4 * of_nat i) = of_nat i" if i: "i < 10" for i
  proof -
    have "umem s2 ((of_nat ?q + 4 * of_nat i) + of_nat j) = ?m ((of_nat ?p + 4 * of_nat i) + of_nat j)" if "j < 4" for j
      using 2(4) [of "4 * i + j"] that i by (simp add: algebra_simps)
    then have "read32 (umem s2) (of_nat ?q + 4 * of_nat i) = read32 ?m (of_nat ?p + 4 * of_nat i)" by (rule read32_copy)
    then show ?thesis using I(2) [OF lt i] by simp
  qed
  with that 1(1) 2(1-3) show thesis by blast
qed

text \<open>The zeroed array.\<close>

lemma zeroed_array:
  assumes ok: "uheap_ok s [blk.Free 48, Used 88 0]" and a: "ubase s = a" "a + 4464 < break_limit"
  obtains s1 where "calloc user_sbrk s 30 4 = Some (of_nat (a + 144), s1)"
    "uheap_ok s1 [blk.Free 48, Used 88 0, Used 128 0]" "ubase s1 = a"
    "\<And>i. i < 30 \<Longrightarrow> read32 (umem s1) (of_nat (a + 144) + 4 * of_nat i) = 0"
    "\<And>x. x \<in> busy a [blk.Free 48, Used 88 0] \<Longrightarrow> umem s1 (of_nat x) = umem s (of_nat x)"
proof -
  let ?q = "a + 144"
  have sp: "spec_malloc break_limit a [blk.Free 48, Used 88 0] 120 = (Some ?q, [blk.Free 48, Used 88 0, Used 128 0])"
    using a by (simp add: spec_malloc_def round8_def)
  obtain s1 where 1: "calloc user_sbrk s 30 4 = Some (of_nat ?q, s1)" "uheap_ok s1 [blk.Free 48, Used 88 0, Used 128 0]"
    "ubase s1 = a" "\<And>x. x \<in> busy a [blk.Free 48, Used 88 0] \<Longrightarrow> umem s1 (of_nat x) = umem s (of_nat x)"
    and z: "of_nat ?q \<noteq> NULL \<longrightarrow> (\<forall>i < 120. umem s1 (of_nat ?q + of_nat i) = 0)"
    using kb.calloc_refines [OF ok, of 30 4] sp a(1) by (auto simp: alloc_post_def)
  have "blk_at (ubase s1) [blk.Free 48, Used 88 0, Used 128 0] ?q (Used 128 0)" using 1(3) by simp
  from kb.blk_at_ptr(1) [OF 1(2) this] have z: "umem s1 (of_nat ?q + of_nat i) = 0" if "i < 120" for i using z that by simp
  have "read32 (umem s1) (of_nat ?q + 4 * of_nat i) = 0" if i: "i < 30" for i
  proof -
    have "umem s1 ((of_nat ?q + 4 * of_nat i) + of_nat j) = (\<lambda>x. 0) (0 + of_nat j)" if "j < 4" for j
      using z [of "4 * i + j"] that i by (simp add: algebra_simps)
    then have "read32 (umem s1) (of_nat ?q + 4 * of_nat i) = read32 (\<lambda>x. 0) 0" by (rule read32_copy)
    also have "\<dots> = 0" by (simp add: read32_def numeral_eq_Suc)
    finally show ?thesis .
  qed
  with that 1 show thesis by blast
qed

text \<open>The report: both arrays, the larger first.\<close>

lemma two_sizes:
  assumes "mset w = {#(80, x), (120, y)#}" "desc w" shows "map fst w = [120, 80 :: u64]"
proof -
  obtain e f where w: "w = [e, f]"
    using arg_cong [OF assms(1), of size] by (cases w; cases "tl w") auto
  have "(e = (80, x) \<and> f = (120, y)) \<or> (e = (120, y) \<and> f = (80, x))"
    using assms(1) unfolding w by (auto simp: add_eq_conv_ex)
  then show ?thesis using assms(2) by (auto simp: w desc_def)
qed

lemma reported_arrays:
  assumes ok: "uheap_ok s [blk.Free 48, Used 88 0, Used 128 0]" and a: "ubase s = a" "a + 4464 < break_limit"
  obtains info s1 bs1 where "heap_info user_sbrk s = Some (0, info, s1)" "num_allocs info = 2"
    "load64s (umem s1) (size_array info) 2 = [120, 80]" "keeps s [blk.Free 48, Used 88 0, Used 128 0] s1 bs1" "bsizes bs1 \<le> 360"
proof -
  let ?bs = "[blk.Free 48, Used 88 0, Used 128 0]" and ?bs2 = "[Used 24 0, Used 24 0, Used 88 0, Used 128 0]"
  have b: "blk_at (ubase s) ?bs (a + 56) (Used 88 0)" using a(1) by simp
  have i: "initialized s" by (rule kb.heap_ok_initialized [OF ok b])
  have u: "used_pairs a ?bs = [(80, of_nat (a + 56)), (120, of_nat (a + 144))]" by simp
  have sp: "spec_malloc break_limit (ubase s) ?bs (8 * 2) = (Some (a + 8), [Used 24 0, blk.Free 24, Used 88 0, Used 128 0])"
    "spec_malloc break_limit (ubase s) [Used 24 0, blk.Free 24, Used 88 0, Used 128 0] (8 * 2) = (Some (a + 32), ?bs2)"
    using a by (simp_all add: spec_malloc_def round8_def spec_place_def)
  obtain s' bs' where h: "heap_info user_sbrk s = Some (0, \<lparr>num_allocs = int 2, size_array = of_nat (a + 8), ptr_array = of_nat (a + 32),
        free_space = int (free_total ?bs2), largest_free_chunk = int (largest_free ?bs2)\<rparr>, s')" "keeps s ?bs s' bs'"
      "mset (zip (load64s (umem s') (of_nat (a + 8)) 2) (load64s (umem s') (of_nat (a + 32)) 2)) = mset (used_pairs (ubase s) ?bs)"
      "desc (zip (load64s (umem s') (of_nat (a + 8)) 2) (load64s (umem s') (of_nat (a + 32)) 2))"
    using heap_info_reports [OF ok i _ _ sp] by auto
  have "map fst (zip (load64s (umem s') (of_nat (a + 8)) 2) (load64s (umem s') (of_nat (a + 32)) 2)) = [120, 80]"
    using h(3,4) u a(1) by (intro two_sizes) simp_all
  then have l: "load64s (umem s') (of_nat (a + 8)) 2 = [120, 80]" by (simp add: map_fst_zip)
  have uo: "user_ok (os s)" using ok i by (simp add: heap_ok_def)
  have g: "grown 96 (os s) (os s')" using heap_info_grown [OF uo h(1), of 2] by simp
  have "blk_at (ubase s') bs' (a + 56) (Used 88 0)" using keepsD(2,3) [OF h(2)] b by simp
  from kb.heap_ok_initialized [OF keepsD(1) [OF h(2)] this] have i': "initialized s'" .
  have "unat (cur_break (os s)) = a + 264" "unat (cur_break (os s')) = a + bsizes bs'"
    using ok keepsD(1,2) [OF h(2)] i i' a(1) by (simp_all add: heap_ok_def heap_base_def)
  then have "bsizes bs' \<le> 360" using g by (simp add: grown_def)
  with that [OF h(1) _ _ h(2)] l show thesis by simp
qed

lemma checks_pass:
  assumes ok: "uheap_ok s []" and a: "ubase s = a" "a + 4464 < break_limit"
  obtains s' bs' where "p_alloctests_checks user_sbrk s = Some (Passed s')" "uheap_ok s' bs'" "ubase s' = a" "bsizes bs' \<le> 360"
proof -
  let ?bs = "[blk.Free 48, Used 88 0, Used 128 0]"
  obtain s1 s2 where 1: "malloc user_sbrk s 40 = Some (of_nat (a + 8), s1)"
    "realloc user_sbrk (s1\<lparr>umem := store_ints (of_nat (a + 8)) 10 (umem s1)\<rparr>) (of_nat (a + 8)) 80 = Some (of_nat (a + 56), s2)"
    "uheap_ok s2 [blk.Free 48, Used 88 0]" "ubase s2 = a"
    "\<And>i. i < 10 \<Longrightarrow> read32 (umem s2) (of_nat (a + 56) + 4 * of_nat i) = of_nat i"
    by (rule resized_array [OF ok a]) blast
  obtain s3 where 2: "calloc user_sbrk s2 30 4 = Some (of_nat (a + 144), s3)" "uheap_ok s3 ?bs" "ubase s3 = a"
    "\<And>i. i < 30 \<Longrightarrow> read32 (umem s3) (of_nat (a + 144) + 4 * of_nat i) = 0"
    by (rule zeroed_array [OF 1(3,4) a(2)]) blast
  obtain info s4 bs4 where 3: "heap_info user_sbrk s3 = Some (0, info, s4)" "num_allocs info = 2"
    "load64s (umem s4) (size_array info) 2 = [120, 80]" "keeps s3 ?bs s4 bs4" "bsizes bs4 \<le> 360"
    by (rule reported_arrays [OF 2(2,3) a(2)])
  have sd: "strictly_descending [120, 80]" by (auto simp: strictly_descending_def less_Suc_eq)
  let ?s5 = "free s4 (of_nat (a + 56))" and ?bs5 = "set_blk free_blk (a + 56) a bs4"
  let ?s6 = "free ?s5 (of_nat (a + 144))" and ?bs6 = "set_blk free_blk (a + 144) a ?bs5"
  note K = keepsD [OF 3(4)]
  have b: "blk_at (ubase s4) bs4 (a + 56) (Used 88 0)" "blk_at (ubase s4) bs4 (a + 144) (Used 128 0)"
    using K(3) [of "a + 56" "Used 88 0"] K(3) [of "a + 144" "Used 128 0"] K(2) 2(3) by simp_all
  have u4: "ubase s4 = a" using K(2) 2(3) by simp
  note F = kb.free_refines(1,3) [OF K(1) b(1), unfolded u4]
  have b2: "blk_at (ubase ?s5) ?bs5 (a + 144) (Used 128 0)" using set_blk_keeps [OF b(2), of "a + 56"] F(2) u4 by simp
  note G = kb.free_refines(1,3) [OF F(1) b2, unfolded F(2)]
  have run: "p_alloctests_checks user_sbrk s = Some (Passed ?s6)"
    using 1(1,2) 2(1) 3(1-3) 1(5) 2(4) sd by (simp add: p_alloctests_checks_def)
  show thesis by (rule that [OF run G]) (use 3(5) in \<open>simp add: bsizes_free_blk\<close>)
qed

text \<open>
  C21. \<^verbatim>\<open>p-alloctests\<close> passes: a process with an empty heap and 4,464 bytes left below the kernel's limit
  on the break runs the program to its last loop. The integers survive \<^verbatim>\<open>realloc\<close>, the \<^verbatim>\<open>calloc\<close>ed
  array is zero, the sizes that \<^verbatim>\<open>heap_info\<close> reports are strictly descending, the loop that allocates
  pages until \<^verbatim>\<open>malloc\<close> fails ends, and at least one page was allocated, so the average that is
  printed does not divide by zero.
\<close>

theorem p_alloctests_passes:
  assumes "uheap_ok s []" "ubase s + 4464 < break_limit"
  shows "\<exists>s'. p_alloctests user_sbrk tsc p s = Some (Passed s')"
proof -
  obtain s1 bs1 where c: "p_alloctests_checks user_sbrk s = Some (Passed s1)" "uheap_ok s1 bs1" "ubase s1 = ubase s" "bsizes bs1 \<le> 360"
    by (rule checks_pass [OF assms(1) refl assms(2)])
  obtain pages time s' where "p_alloctests_pages user_sbrk tsc p 0 0 s1 = Some (pages, time, s')" "0 < pages"
    using pages_end [OF c(2), of tsc p 0 0] c(3,4) assms(2) by auto
  then show ?thesis using c(1) by (simp add: p_alloctests_def)
qed

theorem p_alloctests_passes_witness: "\<exists>s'. p_alloctests user_sbrk (\<lambda>n. (of_nat n, 0)) 1 sample_heap = Some (Passed s')"
  by (rule p_alloctests_passes) (simp_all add: sample_heap_ok break_limit_def)

end
