(* ===== verification/Tests.thy ===== *)
theory Tests
  imports Programs
begin

text \<open>
  Programs of \<^verbatim>\<open>tests/\<close>: the break tests, which use \<^verbatim>\<open>brk\<close> and \<^verbatim>\<open>sbrk\<close> only, and the allocator tests.
  As in \<open>Programs\<close> a failed assertion ends a program with its source line. The calls of \<^verbatim>\<open>getpid\<close>,
  \<^verbatim>\<open>srand\<close> and \<^verbatim>\<open>app_printf\<close> have no effect on what is tested and are left out; \<open>end_addr\<close> and \<open>rsp\<close>
  are the linker's end of the program and its stack pointer.
\<close>

type_synonym 'os brk_call = "'os \<Rightarrow> addr \<Rightarrow> (u32 \<times> 'os) option"

definition call :: "('os \<Rightarrow> ('a \<times> 'os) option) \<Rightarrow> 'os heap \<Rightarrow> ('a \<times> 'os heap) option" where
  "call f s = map_option (\<lambda>(r, k). (r, s\<lparr>os := k\<rparr>)) (f (os s))"

section \<open>Break tests\<close>

text \<open>\<^verbatim>\<open>assert(brk(a) == r); assert(sbrk(0) == b);\<close> on two lines.\<close>

definition brk_gives ::
  "'os brk_call \<Rightarrow> 'os sbrk_call \<Rightarrow> nat \<Rightarrow> addr \<Rightarrow> u32 \<Rightarrow> addr \<Rightarrow> ('os heap \<Rightarrow> 'os verdict option) \<Rightarrow> 'os heap \<Rightarrow> 'os verdict option" where
  "brk_gives brk sbrk line a r b rest s = do {
     (x, s) \<leftarrow> call (\<lambda>k. brk k a) s;
     if x \<noteq> r then Some (Failed line s)
     else do {
       (x, s) \<leftarrow> call (\<lambda>k. sbrk k 0) s;
       if x \<noteq> b then Some (Failed (line + 1) s) else rest s } }"

definition p_brk_simple :: "'os brk_call \<Rightarrow> 'os sbrk_call \<Rightarrow> addr \<Rightarrow> 'os heap \<Rightarrow> 'os verdict option" where
  "p_brk_simple brk sbrk end_addr =
     (let heap_top = ROUNDUP end_addr PAGESIZE
      in brk_gives brk sbrk 23 heap_top 0 heap_top
           (let heap_top = heap_top + 100
            in brk_gives brk sbrk 28 heap_top 0 heap_top
                 (let heap_top = heap_top + 4096
                  in brk_gives brk sbrk 33 heap_top 0 heap_top
                       (let heap_top = heap_top - 4096
                        in brk_gives brk sbrk 38 heap_top 0 heap_top (\<lambda>s. Some (Passed s))))))"

definition p_brk_edge :: "'os brk_call \<Rightarrow> 'os sbrk_call \<Rightarrow> addr \<Rightarrow> addr \<Rightarrow> 'os heap \<Rightarrow> 'os verdict option" where
  "p_brk_edge brk sbrk end_addr rsp =
     (let heap_top = ROUNDUP end_addr PAGESIZE;
          stack_bottom = ROUNDDOWN (rsp - 1) PAGESIZE
      in brk_gives brk sbrk 23 heap_top 0 heap_top
           (brk_gives brk sbrk 27 (heap_top - 4096) (- 1) heap_top
             (brk_gives brk sbrk 31 NULL (- 1) heap_top
               (brk_gives brk sbrk 35 stack_bottom (- 1) heap_top
                 (brk_gives brk sbrk 39 (- 1) (- 1) heap_top (\<lambda>s. Some (Passed s)))))))"

text \<open>\<^verbatim>\<open>break1 = sbrk(d); assert(break1 == b);\<close> with the assertion at \<open>line\<close>.\<close>

definition sbrk_gives ::
  "'os sbrk_call \<Rightarrow> nat \<Rightarrow> u64 \<Rightarrow> addr \<Rightarrow> (addr \<Rightarrow> 'os heap \<Rightarrow> 'os verdict option) \<Rightarrow> 'os heap \<Rightarrow> 'os verdict option" where
  "sbrk_gives sbrk line d b rest s = do {
     (break1, s) \<leftarrow> call (\<lambda>k. sbrk k d) s;
     if break1 \<noteq> b then Some (Failed line s) else rest break1 s }"

definition p_sbrk_simple :: "'os sbrk_call \<Rightarrow> addr \<Rightarrow> 'os heap \<Rightarrow> 'os verdict option" where
  "p_sbrk_simple sbrk end_addr =
     sbrk_gives sbrk 27 0 (ROUNDUP end_addr PAGESIZE) (\<lambda>break2.
       sbrk_gives sbrk 32 10 break2 (\<lambda>break2.
         sbrk_gives sbrk 37 11 (break2 + 10) (\<lambda>break2.
           sbrk_gives sbrk 42 (- 5) (break2 + 11) (\<lambda>break2.
             sbrk_gives sbrk 47 0 (break2 - 5) (\<lambda>_ s. Some (Passed s))))))"

text \<open>
  The two assertions on the calls that must fail assign (\<^verbatim>\<open>break1 = -1\<close>) instead of comparing, so they hold
  whatever the calls return; what is left to test is that the break has not moved.
\<close>

definition p_sbrk_edge :: "'os sbrk_call \<Rightarrow> addr \<Rightarrow> 'os heap \<Rightarrow> 'os verdict option" where
  "p_sbrk_edge sbrk end_addr =
     sbrk_gives sbrk 42 0 (ROUNDUP end_addr PAGESIZE) (\<lambda>break2 s. do {
       (_, s) \<leftarrow> call (\<lambda>k. sbrk k (- 50)) s;
       sbrk_gives sbrk 51 0 break2 (\<lambda>break2 s. do {
         (_, s) \<leftarrow> call (\<lambda>k. sbrk k (1024 * 1024 * 1024)) s;
         sbrk_gives sbrk 60 0 break2 (\<lambda>_ s. Some (Passed s)) s }) s })"

section \<open>One block at a time\<close>

text \<open>
  The loops that allocate, test and free one block of each size: \<open>test i ptr\<close> is the line of the
  assertion that fails, \<open>write i ptr\<close> what the body stores in the block.
\<close>

fun alloc_each ::
  "'os sbrk_call \<Rightarrow> (nat \<Rightarrow> addr \<Rightarrow> nat option) \<Rightarrow> (nat \<Rightarrow> addr \<Rightarrow> mem \<Rightarrow> mem) \<Rightarrow> nat list \<Rightarrow> 'os heap \<Rightarrow> 'os verdict option" where
  "alloc_each sbrk test write [] s = Some (Passed s)"
| "alloc_each sbrk test write (i # is) s = do {
     (ptr, s) \<leftarrow> malloc sbrk s (of_nat i);
     case test i ptr of
       Some line \<Rightarrow> Some (Failed line s)
     | None \<Rightarrow> alloc_each sbrk test write is (free (s\<lparr>umem := write i ptr (umem s)\<rparr>) ptr) }"

definition fill_A :: "nat \<Rightarrow> addr \<Rightarrow> mem \<Rightarrow> mem" where
  "fill_A i ptr m = snd (memset m ptr (of_char CHR ''A'') (of_nat i))"

definition p_malloc_simple :: "'os sbrk_call \<Rightarrow> 'os heap \<Rightarrow> 'os verdict option" where
  "p_malloc_simple sbrk = alloc_each sbrk (\<lambda>i ptr. if ptr = NULL then Some 25 else None) fill_A [1..<512]"

definition p_malloc_simple3 :: "'os sbrk_call \<Rightarrow> 'os heap \<Rightarrow> 'os verdict option" where
  "p_malloc_simple3 sbrk = alloc_each sbrk (\<lambda>i ptr. if ptr = NULL then Some 26 else None) fill_A (rev [1..<4097])"

section \<open>Many blocks at once\<close>

text \<open>The loop that fills \<^verbatim>\<open>ptrs\<close>, with the assertions of \<open>test\<close> on the size and the pointer.\<close>

fun fill_ptrs ::
  "'os sbrk_call \<Rightarrow> (nat \<Rightarrow> addr \<Rightarrow> nat option) \<Rightarrow> (nat \<Rightarrow> addr \<Rightarrow> mem \<Rightarrow> mem) \<Rightarrow> nat list \<Rightarrow> 'os heap \<Rightarrow>
   (addr list \<times> 'os verdict) option" where
  "fill_ptrs sbrk test write [] s = Some ([], Passed s)"
| "fill_ptrs sbrk test write (i # is) s = do {
     (ptr, s) \<leftarrow> malloc sbrk s (of_nat (i + 1));
     case test i ptr of
       Some line \<Rightarrow> Some ([], Failed line s)
     | None \<Rightarrow> do {
         (ptrs, v) \<leftarrow> fill_ptrs sbrk test write is (s\<lparr>umem := write i ptr (umem s)\<rparr>);
         Some (ptr # ptrs, v) } }"

text \<open>The loop that checks every array for corruption and frees it.\<close>

fun check_ptrs :: "(nat \<times> addr) list \<Rightarrow> 'os heap \<Rightarrow> 'os verdict" where
  "check_ptrs [] s = Passed s"
| "check_ptrs ((i, ptr) # ps) s =
     (if \<exists>j \<in> {0..<i + 1}. umem s (ptr + of_nat j) \<noteq> of_nat (i mod 16) then Failed 38 s
      else check_ptrs ps (free s ptr))"

definition fill_index :: "nat \<Rightarrow> addr \<Rightarrow> mem \<Rightarrow> mem" where
  "fill_index i ptr m = snd (memset m ptr (of_nat (i mod 16)) (of_nat (i + 1)))"

definition p_malloc_simple2 :: "'os sbrk_call \<Rightarrow> addr \<Rightarrow> 'os heap \<Rightarrow> 'os verdict option" where
  "p_malloc_simple2 sbrk end_addr s = do {
     (ptrs, v) \<leftarrow> fill_ptrs sbrk (\<lambda>i ptr. if ptr = NULL then Some 27 else None) fill_index [0..<512] s;
     case v of
       Failed line s \<Rightarrow> Some (Failed line s)
     | Passed s \<Rightarrow> do {
         (top, s) \<leftarrow> call (\<lambda>k. sbrk k 0) s;
         if \<not> top > ROUNDUP end_addr PAGESIZE then Some (Failed 33 s)
         else Some (check_ptrs (zip [0..<512] ptrs) s) } }"

section \<open>Alignment\<close>

definition aligned_test :: "nat \<Rightarrow> nat \<Rightarrow> addr \<Rightarrow> nat option" where
  "aligned_test line i ptr =
     (if ptr = NULL \<and> i \<noteq> 0 then Some line else if ptr mod 8 \<noteq> 0 then Some (line + 1) else None)"

text \<open>The test after its loops.\<close>

definition alignment_end :: "'os sbrk_call \<Rightarrow> 'os heap \<Rightarrow> 'os verdict option" where
  "alignment_end sbrk s = do {
     (ptr, s) \<leftarrow> malloc sbrk s 25;
     case aligned_test 57 25 ptr of
       Some line \<Rightarrow> Some (Failed line s)
     | None \<Rightarrow> do {
         (ptr, s) \<leftarrow> realloc sbrk s ptr 25000;
         case aligned_test 61 25000 ptr of
           Some line \<Rightarrow> Some (Failed line s)
         | None \<Rightarrow> do {
             (ptr, s) \<leftarrow> calloc sbrk (free s ptr) 10 10;
             case aligned_test 67 100 ptr of
               Some line \<Rightarrow> Some (Failed line s)
             | None \<Rightarrow> Some (Passed s) } } }"

definition p_malloc_alignment :: "'os sbrk_call \<Rightarrow> 'os heap \<Rightarrow> 'os verdict option" where
  "p_malloc_alignment sbrk s = do {
     v \<leftarrow> alloc_each sbrk (aligned_test 27) (\<lambda>i ptr m. m) [0..<512] s;
     case v of
       Failed line s \<Rightarrow> Some (Failed line s)
     | Passed s \<Rightarrow> do {
         (ptrs, v) \<leftarrow> fill_ptrs sbrk (\<lambda>i. aligned_test 37 (i + 1)) (\<lambda>i ptr m. m) [0..<512] s;
         case v of
           Failed line s \<Rightarrow> Some (Failed line s)
         | Passed s \<Rightarrow> do {
             v \<leftarrow> alloc_each sbrk (aligned_test 49) (\<lambda>i ptr m. m) (rev [1..<4097]) (foldl free s ptrs);
             case v of Failed line s \<Rightarrow> Some (Failed line s) | Passed s \<Rightarrow> alignment_end sbrk s } } }"

section \<open>Boundary calls\<close>

fun malloc_zero :: "'os sbrk_call \<Rightarrow> nat \<Rightarrow> 'os heap \<Rightarrow> 'os heap option" where
  "malloc_zero sbrk 0 s = Some s"
| "malloc_zero sbrk (Suc n) s = do { (ptr, s) \<leftarrow> malloc sbrk s 0; malloc_zero sbrk n (free s ptr) }"

definition p_malloc_edge :: "'os sbrk_call \<Rightarrow> 'os heap \<Rightarrow> 'os verdict option" where
  "p_malloc_edge sbrk s = do {
     s \<leftarrow> malloc_zero sbrk 10000 s;
     let s = ((\<lambda>s. free s NULL) ^^ 10000) s;
     (ptr, s) \<leftarrow> malloc sbrk s (1024 * 1024);
     Some (if ptr = NULL then Failed 37 s else Passed s) }"

section \<open>realloc\<close>

definition bytes_are :: "mem \<Rightarrow> addr \<Rightarrow> nat \<Rightarrow> u8 \<Rightarrow> bool" where
  "bytes_are m ptr n c \<longleftrightarrow> (\<forall>i \<in> {0..<n}. m (ptr + of_nat i) = c)"

text \<open>The loop that shrinks the second array byte by byte.\<close>

fun shrink_each :: "'os sbrk_call \<Rightarrow> nat list \<Rightarrow> addr \<Rightarrow> 'os heap \<Rightarrow> (addr \<times> 'os verdict) option" where
  "shrink_each sbrk [] ptr2 s = Some (ptr2, Passed s)"
| "shrink_each sbrk (i # is) ptr2 s = do {
     (ptr2, s) \<leftarrow> realloc sbrk s ptr2 (of_nat i);
     if \<not> bytes_are (umem s) ptr2 i (of_char CHR ''B'') then Some (ptr2, Failed 43 s)
     else shrink_each sbrk is ptr2 s }"

definition p_realloc :: "'os sbrk_call \<Rightarrow> 'os heap \<Rightarrow> 'os verdict option" where
  "p_realloc sbrk s = do {
     (ptr, s) \<leftarrow> malloc sbrk s 25;
     if ptr = NULL then Some (Failed 23 s)
     else do {
       (ptr, s) \<leftarrow> realloc sbrk (s\<lparr>umem := fill_A 25 ptr (umem s)\<rparr>) ptr 25000;
       if ptr = NULL then Some (Failed 28 s)
       else if \<not> bytes_are (umem s) ptr 25 (of_char CHR ''A'') then Some (Failed 32 s)
       else do {
         (ptr2, s) \<leftarrow> malloc sbrk (s\<lparr>umem := fill_A 25000 ptr (umem s)\<rparr>) 1024;
         (ptr2, v) \<leftarrow> shrink_each sbrk (rev [1..<513]) ptr2
                        (s\<lparr>umem := snd (memset (umem s) ptr2 (of_char CHR ''B'') 1024)\<rparr>);
         case v of
           Failed line s \<Rightarrow> Some (Failed line s)
         | Passed s \<Rightarrow> do {
             (ptr2, s) \<leftarrow> realloc sbrk s ptr2 0;
             (ptr2, s) \<leftarrow> realloc sbrk s NULL 0;
             Some (if \<not> bytes_are (umem s) ptr 25000 (of_char CHR ''A'') then Failed 52 s else Passed (free s ptr)) } } } }"

end
