(* ===== verification/Break_Tests.thy ===== *)
theory Break_Tests
  imports Heap_Props Tests
begin

text \<open>
  The break tests on the kernel's system calls: \<^verbatim>\<open>p-brk-simple\<close>, \<^verbatim>\<open>p-brk-edge\<close>, \<^verbatim>\<open>p-sbrk-simple\<close> and
  \<^verbatim>\<open>p-sbrk-edge\<close> pass, whatever pages of the heap are mapped.
\<close>

section \<open>The calls\<close>

text \<open>\<^verbatim>\<open>brk\<close> as a process sees it: the address in \<^verbatim>\<open>%rdi\<close>, the low half of \<^verbatim>\<open>%rax\<close> as the result.\<close>

definition user_brk :: "kstate \<Rightarrow> addr \<Rightarrow> (u32 \<times> kstate) option" where
  "user_brk s a =
     (case sys_brk (set_rdi a s) of
        Inl e \<Rightarrow> None
      | Inr (x, s') \<Rightarrow> Some (ucast (reg_rax (p_registers (cur_proc s'))), s'))"

text \<open>The current process has its break at \<open>b\<close>, above \<open>base\<close>, and a page table that the kernel built.\<close>

definition proc_at :: "addr \<Rightarrow> addr \<Rightarrow> kstate \<Rightarrow> bool" where
  "proc_at base b s \<longleftrightarrow>
     user_ok s \<and> original_break (cur_proc s) = base \<and> cur_break s = b \<and>
     (\<exists>t1 t2 ts. tables_ok (pmem s) (p_pagetable (cur_proc s)) t1 t2 ts) \<and>
     backed (pmem s) (p_pagetable (cur_proc s)) \<and> length (pageinfo s) = NPAGES"

lemma proc_at_regs [simp]:
  "proc_at base b (set_rdi v s) \<longleftrightarrow> proc_at base b s" "proc_at base b (set_rax v s) \<longleftrightarrow> proc_at base b s"
  "current (set_rdi v s) = current s"
  by (cases "current s < length (processes s)"; auto simp: proc_at_def user_ok_def cur_proc_def cur_break_def
      break_ok_def set_rdi_def set_rax_def)+

lemma proc_at_simps:
  assumes "proc_at base b s"
  shows "program_break (cur_proc s) = b" "current s < length (processes s)"
    "reg_rdi (p_registers (cur_proc (set_rdi v s))) = v" "program_break (cur_proc (set_rdi v s)) = b"
    "reg_rax (p_registers (cur_proc (set_rax v s))) = v"
  using assms by (simp_all add: proc_at_def user_ok_def cur_break_def cur_proc_def set_rdi_def set_rax_def)

lemma released_backed: "released pt a b s m pis \<Longrightarrow> backed (pmem s) pt \<Longrightarrow> backed m pt"
  by (simp add: released_def backed_def page_backed_def)

text \<open>\<open>moves\<close> decides whether the break may move to \<open>a\<close>.\<close>

definition moves :: "addr \<Rightarrow> addr \<Rightarrow> bool" where
  "moves base a \<longleftrightarrow> base \<le> a \<and> unat a < break_limit"

lemma sbrk_at:
  assumes "proc_at base b s"
  shows "\<exists>s'. sbrk (current s) d s = Inr (if moves base (b + d) then 0 else - 1, s') \<and>
    proc_at base (if moves base (b + d) then b + d else b) s'"
proof -
  let ?pr = "processes s ! current s" and ?u = "upd_proc (current s) (\<lambda>pr. pr\<lparr>program_break := b + d\<rparr>) s"
  have p: "current s < length (processes s)" "break_ok ?pr" "program_break ?pr = b" "original_break ?pr = base"
    "backed (pmem s) (p_pagetable ?pr)" "length (pageinfo s) = NPAGES"
    using assms by (simp_all add: proc_at_def user_ok_def cur_proc_def cur_break_def)
  obtain t1 t2 ta tb where t: "tables_ok (pmem s) (p_pagetable ?pr) t1 t2 (ta, tb)"
    using assms by (auto simp: proc_at_def cur_proc_def)
  have u: "proc_at base (b + d) (?u\<lparr>pmem := m, pageinfo := pis\<rparr>)"
    if "moves base (b + d)" "tables_ok m (p_pagetable ?pr) t1 t2 (ta, tb)" "backed m (p_pagetable ?pr)" "length pis = NPAGES" for m pis
    using that p by (auto simp: proc_at_def user_ok_def cur_proc_def cur_break_def break_ok_def moves_def)
  show ?thesis
  proof (cases "moves base (b + d)")
    case False
    then show ?thesis using assms p by (auto simp: sbrk_def Let_def limit_word not_le moves_def)
  next
    case True
    show ?thesis
    proof (cases "0 \<le> sint d")
      case nonneg: True
      have "?u\<lparr>pmem := pmem s, pageinfo := pageinfo s\<rparr> = ?u" by (simp add: upd_proc_def)
      then show ?thesis
        using u [OF True t p(5,6)] sbrk_grow [OF nonneg, of "current s" s] True p by (auto simp: moves_def upd_proc_def)
    next
      case neg: False
      obtain m pis where m: "sbrk (current s) d s = Inr (0, ?u\<lparr>pmem := m, pageinfo := pis\<rparr>)"
        "tables_ok m (p_pagetable ?pr) t1 t2 (ta, tb)" "released (p_pagetable ?pr) (4096 * ((unat (b + d) + 4095) div 4096))
          (4096 * ((unat b + 4095) div 4096)) s m pis"
        using sbrk_shrink [OF p(1,2) refl t p(5,6), of "b + d" d] neg True p(3,4) by (auto simp: moves_def)
      have "length pis = NPAGES" using m(3) p(6) by (simp add: released_def)
      then show ?thesis using u [OF True m(2) released_backed [OF m(3) p(5)]] m(1) True by simp
    qed
  qed
qed

lemma user_sbrk_at:
  assumes "proc_at base b s"
  shows "\<exists>s'. user_sbrk s d = Some (if moves base (b + d) then b else - 1, s') \<and>
    proc_at base (if moves base (b + d) then b + d else b) s'"
proof -
  have t: "proc_at base b (set_rdi d s)" using assms by simp
  obtain s' where "sbrk (current s) d (set_rdi d s) = Inr (if moves base (b + d) then 0 else - 1, s')"
    "proc_at base (if moves base (b + d) then b + d else b) s'"
    using sbrk_at [OF t, of d] by auto
  then show ?thesis using proc_at_simps [OF assms] proc_at_simps(5) [of base _ s']
    by (auto simp: user_sbrk_def sys_sbrk_def Let_def)
qed

lemma user_brk_at:
  assumes "proc_at base b s"
  shows "\<exists>s'. user_brk s a = Some (if moves base a then 0 else - 1, s') \<and>
    proc_at base (if moves base a then a else b) s'"
proof -
  have t: "proc_at base b (set_rdi a s)" using assms by simp
  have e: "b + (a - b) = a" by simp
  obtain s' where "sbrk (current s) (a - b) (set_rdi a s) = Inr (if moves base a then 0 else - 1, s')"
    "proc_at base (if moves base a then a else b) s'"
    using sbrk_at [OF t, of "a - b", unfolded e] by auto
  moreover have "ucast (- 1 :: u64) = (- 1 :: u32)" by (rule bit_word_eqI) (simp add: bit_simps)
  ultimately show ?thesis using proc_at_simps [OF assms] proc_at_simps(5) [of base _ s']
    by (auto simp: user_brk_def sys_brk_def Let_def)
qed

section \<open>The tests\<close>

lemma proc_at_moves: "proc_at base b s \<Longrightarrow> moves base b"
  by (auto simp: proc_at_def user_ok_def break_ok_def cur_break_def moves_def)

text \<open>From a process with its break at \<open>b\<close> the rest of a test passes; one rule for each kind of step.\<close>

definition passes :: "addr \<Rightarrow> addr \<Rightarrow> (kstate heap \<Rightarrow> kstate verdict option) \<Rightarrow> bool" where
  "passes base b f \<longleftrightarrow> (\<forall>s. proc_at base b (os s) \<longrightarrow> (\<exists>t. f s = Some (Passed t)))"

lemma passes_end: "passes base b (\<lambda>s. Some (Passed s))"
  by (simp add: passes_def)

lemma passes_brk:
  assumes "r = (if moves base a then 0 else - 1)" "b' = (if moves base a then a else b)" "passes base b' rest"
  shows "passes base b (brk_gives user_brk user_sbrk line a r b' rest)"
  unfolding passes_def
proof (intro allI impI)
  fix s :: "kstate heap" assume s: "proc_at base b (os s)"
  obtain k where k: "user_brk (os s) a = Some (r, k)" "proc_at base b' k"
    using user_brk_at [OF s, of a] assms(1,2) by auto
  then obtain k' where k': "user_sbrk k 0 = Some (b', k')" "proc_at base b' k'"
    using user_sbrk_at [OF k(2), of 0] proc_at_moves [OF k(2)] by auto
  then have "\<exists>t. rest (s\<lparr>os := k'\<rparr>) = Some (Passed t)" using assms(3) by (simp add: passes_def)
  then show "\<exists>t. brk_gives user_brk user_sbrk line a r b' rest s = Some (Passed t)"
    using k(1) k'(1) by (simp add: brk_gives_def call_def)
qed

lemma passes_sbrk:
  assumes "moves base (b + d)" "r = b" "passes base (b + d) (rest r)"
  shows "passes base b (sbrk_gives user_sbrk line d r rest)"
  unfolding passes_def
proof (intro allI impI)
  fix s :: "kstate heap" assume "proc_at base b (os s)"
  then obtain k where "user_sbrk (os s) d = Some (r, k)" "proc_at base (b + d) k"
    using user_sbrk_at [of base b "os s" d] assms(1,2) by auto
  moreover from this(2) have "\<exists>t. rest r (s\<lparr>os := k\<rparr>) = Some (Passed t)" using assms(3) by (simp add: passes_def)
  ultimately show "\<exists>t. sbrk_gives user_sbrk line d r rest s = Some (Passed t)"
    by (auto simp: sbrk_gives_def call_def)
qed

lemma passes_failing_sbrk:
  assumes "\<not> moves base (b + d)" "passes base b rest"
  shows "passes base b (\<lambda>s. do { (_, s) \<leftarrow> call (\<lambda>k. user_sbrk k d) s; rest s })"
  unfolding passes_def
proof (intro allI impI)
  fix s :: "kstate heap" assume "proc_at base b (os s)"
  then obtain k where "user_sbrk (os s) d = Some (- 1, k)" "proc_at base b k"
    using user_sbrk_at [of base b "os s" d] assms(1) by auto
  moreover from this(2) have "\<exists>t. rest (s\<lparr>os := k\<rparr>) = Some (Passed t)" using assms(2) by (simp add: passes_def)
  ultimately show "\<exists>t. do { (_, s) \<leftarrow> call (\<lambda>k. user_sbrk k d) s; rest s } = Some (Passed t)"
    by (auto simp: call_def)
qed

lemmas passes_rules = passes_end passes_brk passes_sbrk passes_failing_sbrk

text \<open>A process that has just been loaded: its break is where its program ends.\<close>

definition fresh_process :: "addr \<Rightarrow> kstate \<Rightarrow> bool" where
  "fresh_process end_addr s \<longleftrightarrow>
     (let base = ROUNDUP end_addr PAGESIZE
      in proc_at base base s \<and> 4096 \<le> unat base \<and> unat base + 4196 < break_limit)"

lemma fresh_moves:
  assumes "fresh_process e s" and B: "B = ROUNDUP e PAGESIZE"
  shows "proc_at B B s" "unat d < 4197 \<Longrightarrow> moves B (B + d)" "\<not> moves B (B - 50)" "\<not> moves B (B - 4096)"
    "\<not> moves B 0" "\<not> moves B (- 1)" "\<not> moves B (B + 0x40000000)"
proof -
  have f: "proc_at B B s" "4096 \<le> unat B" "unat B + 4196 < break_limit"
    using assms by (simp_all add: fresh_process_def Let_def)
  show "proc_at B B s" by (rule f(1))
  show "moves B (B + d)" if "unat d < 4197"
    using f that by (simp add: moves_def word_le_nat_alt unat_add64 break_limit_def)
  have m: "unat (- 1 :: u64) = 2 ^ 64 - 1" by (simp add: unsigned_minus_1_eq_mask mask_eq_exp_minus_1)
  show "\<not> moves B (B - 50)" "\<not> moves B (B - 4096)" "\<not> moves B 0" "\<not> moves B (- 1)" "\<not> moves B (B + 0x40000000)"
    using f m by (simp_all add: moves_def word_le_nat_alt unat_sub64 unat_add64 break_limit_def)
qed

lemma fresh_tests:
  assumes "fresh_process e s" "break_limit \<le> unat (ROUNDDOWN (rsp - 1) PAGESIZE)" and B: "B = ROUNDUP e PAGESIZE"
  shows "passes B B (p_brk_simple user_brk user_sbrk e)" "passes B B (p_brk_edge user_brk user_sbrk e rsp)"
    "passes B B (p_sbrk_simple user_sbrk e)" "passes B B (p_sbrk_edge user_sbrk e)"
proof -
  note M = fresh_moves [OF assms(1) B]
  have m: "unat d < 4197 \<Longrightarrow> moves B (d + B)" for d using M(2) [of d] by (simp add: add.commute)
  have z: "moves B B" using M(2) [of 0] by simp
  have s: "\<not> moves B (ROUNDDOWN (rsp - 1) PAGESIZE)" using assms(2) by (simp add: moves_def)
  show "passes B B (p_brk_simple user_brk user_sbrk e)"
    unfolding p_brk_simple_def Let_def B [symmetric] by (intro passes_rules) (simp_all add: M z m)
  show "passes B B (p_brk_edge user_brk user_sbrk e rsp)"
    unfolding p_brk_edge_def Let_def B [symmetric] by (intro passes_rules) (simp_all add: M z s)
  show "passes B B (p_sbrk_simple user_sbrk e)"
    unfolding p_sbrk_simple_def B [symmetric] by (intro passes_rules) (simp_all add: M z m)
  show "passes B B (p_sbrk_edge user_sbrk e)"
    unfolding p_sbrk_edge_def B [symmetric] by (intro passes_rules) (simp_all add: M z m)
qed

text \<open>
  C23. The break tests pass. On a process that has just been loaded, with a page table the kernel built, whatever
  pages of its heap are mapped, and its stack in the last page, \<^verbatim>\<open>p-brk-simple\<close>, \<^verbatim>\<open>p-brk-edge\<close>, \<^verbatim>\<open>p-sbrk-simple\<close>
  and \<^verbatim>\<open>p-sbrk-edge\<close> run to their end with every assertion true: the break grows and shrinks as told, a call
  that would move it below the program, to the stack or past the end of memory fails, and a failed
  call leaves it where it was.
\<close>

theorem break_tests_pass:
  assumes "fresh_process end_addr (os s)" "break_limit \<le> unat (ROUNDDOWN (rsp - 1) PAGESIZE)"
  shows "(\<exists>t. p_brk_simple user_brk user_sbrk end_addr s = Some (Passed t)) \<and>
    (\<exists>t. p_brk_edge user_brk user_sbrk end_addr rsp s = Some (Passed t)) \<and>
    (\<exists>t. p_sbrk_simple user_sbrk end_addr s = Some (Passed t)) \<and>
    (\<exists>t. p_sbrk_edge user_sbrk end_addr s = Some (Passed t))"
  using fresh_tests [OF assms refl] fresh_moves(1) [OF assms(1) refl] by (simp add: passes_def)

text \<open>The sample process before its break has moved.\<close>

definition loaded_state :: kstate where
  "loaded_state = upd_proc 1 (\<lambda>pr. pr\<lparr>program_break := 0x120000\<rparr>) sample_state"

lemma loaded_fresh: "fresh_process 0x11FF00 loaded_state"
proof -
  have r: "ROUNDUP 0x11FF00 PAGESIZE = 0x120000" by (simp add: ROUNDUP_def ROUNDDOWN_def PAGESIZE_def)
  have "tables_ok (pmem sample_state) 0x50000 0x51000 0x52000 (0x53000, 0x54000)"
    using sample_tables(1) [of 0] by simp
  moreover have "backed (pmem sample_state) 0x50000"
    using sample_tables(2) by (simp add: backed_def page_backed_def)
  moreover have "length (pageinfo sample_state) = NPAGES" by (simp add: sample_state_def boot_state_def)
  ultimately have "proc_at 0x120000 0x120000 loaded_state"
    using sample_proc by (auto simp: proc_at_def loaded_state_def user_ok_def cur_proc_def cur_break_def
        break_ok_def break_limit_def)
  then show ?thesis by (simp add: fresh_process_def r break_limit_def)
qed

theorem break_tests_pass_witness:
  "\<exists>t. p_brk_simple user_brk user_sbrk 0x11FF00 (sample_heap\<lparr>os := loaded_state\<rparr>) = Some (Passed t)"
  using break_tests_pass [of "0x11FF00" "sample_heap\<lparr>os := loaded_state\<rparr>" "0x300000"] loaded_fresh
  by (simp add: ROUNDDOWN_def PAGESIZE_def break_limit_def)

end
