(* ===== verification/Alloc_Tests.thy ===== *)
theory Alloc_Tests
  imports Heap_Arrays Tests Program_Props
begin

text \<open>
  The allocator tests on \<^verbatim>\<open>malloc.c\<close> and the kernel's break. Each allocation succeeds because the heap has
  room for it: a free block that fits, or enough space below the kernel's limit on the break.
\<close>

section \<open>Allocations that succeed\<close>

definition fits :: "nat \<Rightarrow> blk list \<Rightarrow> bool" where
  "fits n bs \<longleftrightarrow> (\<exists>k. blk.Free k \<in> set bs \<and> round8 n + 8 \<le> k)"

text \<open>The bytes that an allocation of \<open>n\<close> adds to the heap.\<close>

definition growth :: "nat \<Rightarrow> blk list \<Rightarrow> nat" where
  "growth n bs = (if fits n bs then 0 else round8 n + 8)"

lemma growth_le: "growth n bs \<le> n + 15"
  using round8_facts(2) [of n] by (simp add: growth_def)

lemma spec_malloc_room:
  assumes "0 < n" "a + bsizes bs + growth n bs < lim"
  obtains p bs' m sl where "spec_malloc lim a bs n = (Some p, bs')" "blk_at a bs' p (Used m sl)"
    "round8 n + 8 \<le> m" "bsizes bs' = bsizes bs + growth n bs"
proof (cases "spec_fit (round8 n + 8) bs")
  case None
  then have g: "growth n bs = round8 n + 8" by (auto simp: spec_fit_None growth_def fits_def)
  have "spec_malloc lim a bs n = (Some (a + bsizes bs + 8), bs @ [Used (round8 n + 8) (round8 n - n)])"
    using None assms g by (simp add: spec_malloc_def)
  then show thesis by (rule that [of _ _ "round8 n + 8" "round8 n - n"]) (simp_all add: g)
next
  case (Some x)
  obtain pre k post where x: "x = (pre, k, post)" by (cases x)
  note F = spec_fit_Some [OF Some [unfolded x]]
  have g: "growth n bs = 0" using F by (auto simp: growth_def fits_def)
  let ?bs = "pre @ spec_place (round8 n + 8) (round8 n - n) k @ post"
  have sp: "spec_malloc lim a bs n = (Some (a + bsizes pre + 8), ?bs)"
    using Some assms(1) by (simp add: spec_malloc_def x)
  have b: "bsizes ?bs = bsizes bs" using F by (simp add: spec_place_def)
  show thesis
  proof (cases "16 \<le> k - (round8 n + 8)")
    case True
    then show thesis using b g by (intro that [OF sp, of "round8 n + 8" "round8 n - n"]) (simp_all add: spec_place_def)
  next
    case False
    then show thesis using F b g by (intro that [OF sp, of k "k - (round8 n + 8)"]) (simp_all add: spec_place_def)
  qed
qed

lemma small_nat: "n < 2 ^ 31 \<Longrightarrow> unat (of_nat n :: u64) = n"
  by (simp add: unat_of_nat64)

text \<open>What a successful allocation of \<open>n\<close> bytes leaves: a new array at \<open>p\<close>, in its own block.\<close>

definition allocated :: "store \<Rightarrow> kstate heap \<Rightarrow> blk list \<Rightarrow> nat \<Rightarrow> addr \<Rightarrow> kstate heap \<Rightarrow> blk list \<Rightarrow> bool" where
  "allocated L s bs n p s' bs' \<longleftrightarrow>
     fresh_at L p n \<and> p \<notin> dom L \<and> ubase s' = ubase s \<and> bsizes bs' = bsizes bs + growth n bs \<and>
     arrays (L(p \<mapsto> bytes_at (umem s') (unat p) n)) s' bs' \<and>
     (\<exists>m sl. blk_at (ubase s) bs' (unat p) (Used m sl) \<and> round8 n + 8 \<le> m)"

lemma fresh_not_live:
  assumes "arrays L s bs" "fresh_at L p n" "0 < n" shows "p \<notin> dom L"
proof
  assume "p \<in> dom L"
  then obtain old where "L p = Some old" by blast
  then show False using assms(2,3) arraysD(2) [OF assms(1), of p old] by (fastforce simp: fresh_at_def holds_def)
qed

lemma alloc_room:
  assumes A: "arrays L s bs" and n: "0 < n" and r: "ubase s + bsizes bs + growth n bs < break_limit"
    and post: "alloc_post cur_break user_ok s bs (spec_malloc break_limit (ubase s) bs n) (p, s')"
  obtains bs' where "allocated L s bs n p s' bs'"
proof -
  obtain q bs' m sl where sp: "spec_malloc break_limit (ubase s) bs n = (Some q, bs')"
    "blk_at (ubase s) bs' q (Used m sl)" "round8 n + 8 \<le> m" "bsizes bs' = bsizes bs + growth n bs"
    by (rule spec_malloc_room [OF n r])
  have p: "p = of_nat q" "uheap_ok s' bs'" "ubase s' = ubase s" using post by (simp_all add: alloc_post_def sp)
  note Q = kb.blk_at_ptr [OF p(2), unfolded p(3), OF sp(2)]
  have u: "unat p = q" using p(1) Q(2) by (simp add: small_nat)
  have a: "fresh_at L p n" "arrays (L(p \<mapsto> bytes_at (umem s') (unat p) n)) s' bs'"
    using arrays_alloc(2) [OF A post] Q(1) p(1) by (auto simp: sp)
  then show thesis using fresh_not_live [OF A a(1) n] that [of bs'] a sp p(3) u by (auto simp: allocated_def)
qed

lemma malloc_room:
  assumes A: "arrays L s bs" and n: "0 < n" and r: "ubase s + bsizes bs + n + 15 < break_limit \<or> fits n bs" "n < 2 ^ 31"
  obtains p s' bs' where "malloc user_sbrk s (of_nat n) = Some (p, s')" "allocated L s bs n p s' bs'"
proof -
  have u: "unat (of_nat n :: u64) = n" by (rule small_nat [OF r(2)])
  have g: "ubase s + bsizes bs + growth n bs < break_limit"
    using r(1) growth_le [of n bs] kb.heap_end_bound [OF arraysD(1) [OF A]] by (auto simp: growth_def)
  obtain p s' where m: "malloc user_sbrk s (of_nat n) = Some (p, s')"
    "alloc_post cur_break user_ok s bs (spec_malloc break_limit (ubase s) bs n) (p, s')"
    using kb.malloc_refines [OF arraysD(1) [OF A], of "of_nat n"] r(2) u by auto
  from alloc_room [OF A n g m(2)] show thesis using that m(1) by blast
qed

lemma allocatedD:
  assumes "allocated L s bs n p s' bs'"
  shows "p \<noteq> NULL" "8 dvd unat p" "unat p + n < 2 ^ 31" "p \<notin> dom L" "ubase s' = ubase s" "bsizes bs' \<le> bsizes bs + n + 15"
    "arrays (L(p \<mapsto> bytes_at (umem s') (unat p) n)) s' bs'" "fits n bs \<Longrightarrow> bsizes bs' = bsizes bs"
  using assms growth_le [of n bs] by (auto simp: allocated_def fresh_at_def growth_def)

text \<open>Freeing the new array again leaves a free block that is large enough for it.\<close>

lemma set_blk_frees: "blk_at a bs p b \<Longrightarrow> list_all wf_blk bs \<Longrightarrow> blk.Free (bsize b) \<in> set (set_blk free_blk p a bs)"
proof -
  assume b: "blk_at a bs p b" "list_all wf_blk bs"
  then obtain pre post where "bs = pre @ b # post" "p = a + bsizes pre + 8" using blk_at_split by blast
  then show "blk.Free (bsize b) \<in> set (set_blk free_blk p a bs)" using b(2) by (simp add: set_blk_split free_blk.simps)
qed

lemma free_again:
  assumes "allocated L s bs n p s' bs'" "\<And>x. x < 2 ^ 64 \<Longrightarrow> x < unat p \<or> unat p + n \<le> x \<Longrightarrow> m (of_nat x) = umem s' (of_nat x)"
  obtains bs'' where "arrays L (free (s'\<lparr>umem := m\<rparr>) p) bs''" "ubase (free (s'\<lparr>umem := m\<rparr>) p) = ubase s"
    "bsizes bs'' = bsizes bs'" "\<forall>k \<le> n. fits k bs''"
proof -
  note D = allocatedD [OF assms(1)]
  obtain k sl where b: "blk_at (ubase s) bs' (unat p) (Used k sl)" "round8 n + 8 \<le> k"
    using assms(1) by (auto simp: allocated_def)
  let ?s = "s'\<lparr>umem := m\<rparr>" and ?bs = "set_blk free_blk (unat p) (ubase s) bs'"
  have a: "arrays (L(p \<mapsto> bytes_at m (unat p) n)) ?s bs'"
    using arrays_update [OF D(7), of p _ m] assms(2) by simp
  have "arrays L (free ?s p) ?bs" "ubase (free ?s p) = ubase s"
    using arrays_free [OF a, of p] D(4,5) by (auto simp: fun_upd_idem)
  moreover have "blk.Free k \<in> set ?bs"
    using set_blk_frees [OF b(1)] kb.heap_ok_layout(2) [OF arraysD(1) [OF D(7)]] by simp
  then have "\<forall>j \<le> n. fits j ?bs"
    using b(2) div_le_mono [of "_ + 7" "n + 7" 8] by (fastforce simp: fits_def round8_def)
  ultimately show thesis using that bsizes_free_blk by blast
qed

section \<open>One block at a time\<close>

text \<open>Memory \<open>m'\<close> differs from \<open>m\<close> in the \<open>n\<close> bytes at \<open>p\<close> only.\<close>

definition stays_in :: "addr \<Rightarrow> nat \<Rightarrow> mem \<Rightarrow> mem \<Rightarrow> bool" where
  "stays_in p n m m' \<longleftrightarrow>
     (\<forall>x < 2 ^ 64. x < unat p \<or> unat p + n \<le> x \<longrightarrow> m' (of_nat x) = m (of_nat x))"

lemma stays_inD:
  "stays_in p n m m' \<Longrightarrow> x < 2 ^ 64 \<Longrightarrow> x < unat p \<or> unat p + n \<le> x \<Longrightarrow> m' (of_nat x) = m (of_nat x)"
  unfolding stays_in_def by blast

lemma stays_in_refl [simp]: "stays_in p n m m"
  by (simp add: stays_in_def)

text \<open>A test that holds for aligned blocks, and a body that writes inside its block.\<close>

definition each_ok :: "(nat \<Rightarrow> addr \<Rightarrow> nat option) \<Rightarrow> (nat \<Rightarrow> addr \<Rightarrow> mem \<Rightarrow> mem) \<Rightarrow> nat list \<Rightarrow> bool" where
  "each_ok test write is \<longleftrightarrow>
     (\<forall>i \<in> set is. 0 < i \<and> i < 2 ^ 31) \<and>
     (\<forall>i p. p \<noteq> NULL \<longrightarrow> 8 dvd unat p \<longrightarrow> test i p = None) \<and>
     (\<forall>i p m. unat p + i < 2 ^ 31 \<longrightarrow> stays_in p i m (write i p m))"

lemma each_step:
  assumes ok: "uheap_ok s bs" and e: "each_ok test write (i # is)"
    and r: "ubase s + bsizes bs + i + 15 < break_limit \<or> fits i bs"
  obtains s' bs' where "alloc_each user_sbrk test write (i # is) s = alloc_each user_sbrk test write is s'"
    "uheap_ok s' bs'" "ubase s' = ubase s" "bsizes bs' \<le> bsizes bs + i + 15"
    "fits i bs \<Longrightarrow> bsizes bs' = bsizes bs" "\<forall>k \<le> i. fits k bs'"
proof -
  have i: "0 < i" "i < 2 ^ 31" using e by (simp_all add: each_ok_def)
  obtain p s1 bs1 where 1: "malloc user_sbrk s (of_nat i) = Some (p, s1)" "allocated Map.empty s bs i p s1 bs1"
    by (rule malloc_room [of Map.empty s bs i]) (use ok i r in auto)
  note D = allocatedD [OF 1(2)]
  have t: "test i p = None" using e D(1,2) by (simp add: each_ok_def)
  have w: "stays_in p i (umem s1) (write i p (umem s1))" using e D(3) by (simp add: each_ok_def)
  obtain bs2 where 2: "arrays Map.empty (free (s1\<lparr>umem := write i p (umem s1)\<rparr>) p) bs2"
    "ubase (free (s1\<lparr>umem := write i p (umem s1)\<rparr>) p) = ubase s" "bsizes bs2 = bsizes bs1" "\<forall>k \<le> i. fits k bs2"
    using free_again [OF 1(2) stays_inD [OF w]] by blast
  then show thesis using that [of "free (s1\<lparr>umem := write i p (umem s1)\<rparr>) p" bs2] 1(1) t D(6,8) by simp
qed

text \<open>Enough space for all sizes together is enough for any order of them.\<close>

lemma each_budget:
  assumes "uheap_ok s bs" "each_ok test write is" "ubase s + bsizes bs + (\<Sum>i\<leftarrow>is. i + 15) < break_limit"
  shows "\<exists>s' bs'. alloc_each user_sbrk test write is s = Some (Passed s') \<and> uheap_ok s' bs' \<and> ubase s' = ubase s \<and>
    bsizes bs' \<le> bsizes bs + (\<Sum>i\<leftarrow>is. i + 15)"
  using assms
proof (induction "is" arbitrary: s bs)
  case (Cons i "is")
  obtain s1 bs1 where 1: "alloc_each user_sbrk test write (i # is) s = alloc_each user_sbrk test write is s1"
    "uheap_ok s1 bs1" "ubase s1 = ubase s" "bsizes bs1 \<le> bsizes bs + i + 15"
    by (rule each_step [OF Cons.prems(1,2)]) (use Cons.prems(3) in auto)
  have "each_ok test write is" using Cons.prems(2) by (simp add: each_ok_def)
  then show ?case using Cons.IH [OF 1(2)] 1 Cons.prems(3) by fastforce
qed auto

text \<open>Descending sizes take the block of their predecessor.\<close>

lemma each_descending:
  assumes "uheap_ok s bs" "each_ok test write is" "sorted_wrt (\<ge>) is" "is \<noteq> [] \<Longrightarrow> fits (hd is) bs"
  shows "\<exists>s' bs'. alloc_each user_sbrk test write is s = Some (Passed s') \<and> uheap_ok s' bs' \<and> ubase s' = ubase s \<and>
    bsizes bs' = bsizes bs"
  using assms
proof (induction "is" arbitrary: s bs)
  case (Cons i "is")
  have f: "fits i bs" using Cons.prems(4) by simp
  obtain s1 bs1 where 1: "alloc_each user_sbrk test write (i # is) s = alloc_each user_sbrk test write is s1"
    "uheap_ok s1 bs1" "ubase s1 = ubase s" "bsizes bs1 = bsizes bs" "\<forall>k \<le> i. fits k bs1"
    using each_step [OF Cons.prems(1,2)] f by blast
  have "each_ok test write is" "sorted_wrt (\<ge>) is" "is \<noteq> [] \<Longrightarrow> fits (hd is) bs1"
    using Cons.prems(2,3) 1(5) by (auto simp: each_ok_def)
  then show ?case using Cons.IH [OF 1(2)] 1 by auto
qed auto

lemma each_descending_first:
  assumes ok: "uheap_ok s bs" and e: "each_ok test write (i # is)" and d: "sorted_wrt (\<ge>) (i # is)"
    and r: "ubase s + bsizes bs + i + 15 < break_limit"
  shows "\<exists>s' bs'. alloc_each user_sbrk test write (i # is) s = Some (Passed s') \<and> uheap_ok s' bs' \<and> ubase s' = ubase s \<and>
    bsizes bs' \<le> bsizes bs + i + 15"
proof -
  obtain s1 bs1 where 1: "alloc_each user_sbrk test write (i # is) s = alloc_each user_sbrk test write is s1"
    "uheap_ok s1 bs1" "ubase s1 = ubase s" "bsizes bs1 \<le> bsizes bs + i + 15" "\<forall>k \<le> i. fits k bs1"
    by (rule each_step [OF ok e]) (use r in auto)
  have "each_ok test write is" "sorted_wrt (\<ge>) is" "is \<noteq> [] \<Longrightarrow> fits (hd is) bs1"
    using e d 1(5) by (auto simp: each_ok_def)
  then show ?thesis using each_descending [OF 1(2)] 1 by fastforce
qed

lemma sum_bound: "\<forall>x \<in> set xs. x \<le> k \<Longrightarrow> (\<Sum>x\<leftarrow>xs. x + 15) \<le> length xs * (k + 15)"
  by (induction xs) auto

section \<open>Many blocks at once\<close>

text \<open>\<open>R i bytes\<close> is what the body leaves in the block of size \<open>i + 1\<close>.\<close>

definition fill_ok ::
  "(nat \<Rightarrow> addr \<Rightarrow> nat option) \<Rightarrow> (nat \<Rightarrow> addr \<Rightarrow> mem \<Rightarrow> mem) \<Rightarrow> (nat \<Rightarrow> u8 list \<Rightarrow> bool) \<Rightarrow> nat list \<Rightarrow> bool" where
  "fill_ok test write R is \<longleftrightarrow>
     (\<forall>i \<in> set is. i + 1 < 2 ^ 31) \<and>
     (\<forall>i p. p \<noteq> NULL \<longrightarrow> 8 dvd unat p \<longrightarrow> test i p = None) \<and>
     (\<forall>i p m. unat p + (i + 1) < 2 ^ 31 \<longrightarrow>
        R i (bytes_at (write i p m) (unat p) (i + 1)) \<and> stays_in p (i + 1) m (write i p m))"

definition filled :: "(nat \<Rightarrow> u8 list \<Rightarrow> bool) \<Rightarrow> nat list \<Rightarrow> addr list \<Rightarrow> store \<Rightarrow> store \<Rightarrow> bool" where
  "filled R is ptrs L L' \<longleftrightarrow>
     list_all2 (\<lambda>i p. \<exists>bytes. L' p = Some bytes \<and> R i bytes) is ptrs \<and> distinct ptrs \<and>
     set ptrs \<inter> dom L = {} \<and> dom L' = dom L \<union> set ptrs \<and> (\<forall>q \<in> dom L. L' q = L q)"

lemma fill_ptrs_pass:
  assumes "arrays L s bs" "fill_ok test write R is" "ubase s + bsizes bs + (\<Sum>i\<leftarrow>is. i + 16) < break_limit"
  shows "\<exists>ptrs s' bs' L'. fill_ptrs user_sbrk test write is s = Some (ptrs, Passed s') \<and> arrays L' s' bs' \<and>
    ubase s' = ubase s \<and> bsizes bs' \<le> bsizes bs + (\<Sum>i\<leftarrow>is. i + 16) \<and> filled R is ptrs L L'"
  using assms
proof (induction "is" arbitrary: L s bs)
  case Nil
  then show ?case by (auto simp: filled_def)
next
  case (Cons i "is")
  have i: "i + 1 < 2 ^ 31" using Cons.prems(2) by (simp add: fill_ok_def)
  obtain p s1 bs1 where 1: "malloc user_sbrk s (of_nat (i + 1)) = Some (p, s1)" "allocated L s bs (i + 1) p s1 bs1"
    by (rule malloc_room [OF Cons.prems(1), of "i + 1"]) (use i Cons.prems(3) in auto)
  note D = allocatedD [OF 1(2)]
  let ?m = "write i p (umem s1)"
  let ?L = "L(p \<mapsto> bytes_at ?m (unat p) (i + 1))"
  have t: "test i p = None" and R: "R i (bytes_at ?m (unat p) (i + 1))"
    and w: "stays_in p (i + 1) (umem s1) ?m"
    using Cons.prems(2) D(1-3) by (simp_all add: fill_ok_def)
  have a: "arrays ?L (s1\<lparr>umem := ?m\<rparr>) bs1"
    using arrays_update [OF D(7), of p "bytes_at (umem s1) (unat p) (i + 1)" ?m] stays_inD [OF w] by simp
  have u: "ubase (s1\<lparr>umem := ?m\<rparr>) = ubase s" using D(5) by simp
  have "fill_ok test write R is" "ubase s + bsizes bs1 + (\<Sum>i\<leftarrow>is. i + 16) < break_limit"
    using Cons.prems(2,3) D(5,6) by (simp_all add: fill_ok_def)
  then obtain ptrs s' bs' L' where 2: "fill_ptrs user_sbrk test write is (s1\<lparr>umem := ?m\<rparr>) = Some (ptrs, Passed s')"
    "arrays L' s' bs'" "ubase s' = ubase s" "bsizes bs' \<le> bsizes bs1 + (\<Sum>i\<leftarrow>is. i + 16)" "filled R is ptrs ?L L'"
    using Cons.IH [OF a, unfolded u] by blast
  have "L' p = Some (bytes_at ?m (unat p) (i + 1))" using 2(5) by (simp add: filled_def)
  then have "filled R (i # is) (p # ptrs) L L'" using 2(5) R D(4) by (auto simp: filled_def)
  moreover have "fill_ptrs user_sbrk test write (i # is) s = Some (p # ptrs, Passed s')"
    using 1(1) t 2(1) by simp
  moreover have "bsizes bs' \<le> bsizes bs + (\<Sum>i\<leftarrow>i # is. i + 16)" using 2(4) D(6) by simp
  ultimately show ?case using 2(2,3) by blast
qed

text \<open>Freeing all of them again.\<close>

lemma free_all:
  assumes "arrays L s bs" "set ptrs \<subseteq> dom L" "distinct ptrs"
  shows "\<exists>bs'. arrays (L |` (- set ptrs)) (foldl free s ptrs) bs' \<and> ubase (foldl free s ptrs) = ubase s \<and> bsizes bs' = bsizes bs"
  using assms
proof (induction ptrs arbitrary: L s bs)
  case Nil
  then show ?case by auto
next
  case (Cons p ptrs)
  have p: "p \<in> dom L" "set ptrs \<subseteq> dom (L(p := None))" "distinct ptrs" using Cons.prems(2,3) by auto
  note F = arrays_free [OF Cons.prems(1) p(1)]
  have e: "(L(p := None)) |` (- set ptrs) = L |` (- set (p # ptrs))" by (auto simp: restrict_map_def)
  from Cons.IH [OF F(1) p(2,3)] show ?case unfolding e F(2) bsizes_free_blk foldl_Cons .
qed

text \<open>The check of \<^verbatim>\<open>p-malloc-simple2\<close> finds every array as it was filled.\<close>

lemma array_byte: "arrays L s bs \<Longrightarrow> L p = Some old \<Longrightarrow> i < length old \<Longrightarrow> umem s (p + of_nat i) = old ! i"
  using arraysD(2) [of L s bs p old] by (simp add: holds_def)

lemma check_ptrs_pass:
  assumes "arrays L s bs" "list_all (\<lambda>(i, p). L p = Some (replicate (i + 1) (of_nat (i mod 16)))) ps" "distinct (map snd ps)"
  shows "\<exists>s'. check_ptrs ps s = Passed s'"
  using assms
proof (induction ps arbitrary: L s bs)
  case (Cons x ps)
  obtain i p where x: "x = (i, p)" by (cases x)
  have p: "L p = Some (replicate (i + 1) (of_nat (i mod 16)))" using Cons.prems(2) x by simp
  have c: "umem s (p + of_nat j) = of_nat (i mod 16)" if "j < i + 1" for j
    using array_byte [OF Cons.prems(1) p, of j] that by (simp add: nth_replicate del: replicate_Suc)
  have "\<forall>y \<in> set ps. snd y \<noteq> p" using Cons.prems(3) x by force
  then have "list_all (\<lambda>(i, q). (L(p := None)) q = Some (replicate (i + 1) (of_nat (i mod 16)))) ps"
    using Cons.prems(2) by (auto simp: list_all_iff)
  then show ?case using Cons.IH [OF arrays_free(1) [OF Cons.prems(1)]] p Cons.prems(3) x c by (auto simp: domI)
qed simp

lemma memset_inside:
  assumes "unat p + n < 2 ^ 31"
  shows "stays_in p n m (snd (memset m p c (of_nat n)))"
    "bytes_at (snd (memset m p c (of_nat n))) (unat p) n = replicate n (ucast c)"
proof -
  have u: "unat (of_nat n :: u64) = n" using assms by (intro small_nat) simp
  show "stays_in p n m (snd (memset m p c (of_nat n)))"
    using assms by (auto simp: stays_in_def memset_apply u region_no_wrap unat_of_nat64)
  show "bytes_at (snd (memset m p c (of_nat n))) (unat p) n = replicate n (ucast c)"
    using assms by (intro nth_equalityI) (auto simp: memset_apply u region_no_wrap unat_add64 unat_of_nat64)
qed

section \<open>The tests that only allocate\<close>

definition big_room :: "kstate heap \<Rightarrow> bool" where
  "big_room s \<longleftrightarrow> uheap_ok s [] \<and> ubase s + 0x130000 < break_limit"

lemma simple_each_ok: "\<forall>i \<in> set is. 0 < i \<and> i < 2 ^ 31 \<Longrightarrow> each_ok (\<lambda>i ptr. if ptr = NULL then Some n else None) fill_A is"
  using memset_inside(1) by (auto simp: each_ok_def fill_A_def)

lemma p_malloc_simple_passes: "big_room s \<Longrightarrow> \<exists>t. p_malloc_simple user_sbrk s = Some (Passed t)"
proof -
  assume r: "big_room s"
  have "(\<Sum>i\<leftarrow>[1..<512]. i + 15) \<le> length [1..<512] * (511 + 15)" by (rule sum_bound) auto
  then have "ubase s + bsizes [] + (\<Sum>i\<leftarrow>[1..<512]. i + 15) < break_limit" using r by (simp add: big_room_def del: upt_Suc)
  then show ?thesis
    using each_budget [OF _ simple_each_ok, of s "[]" "[1..<512]"] r by (auto simp: big_room_def p_malloc_simple_def)
qed

lemma descending: "sorted_wrt (\<ge>) (rev [m..<n])"
  by (induction n) (auto simp: sorted_wrt_append)

lemma from_4096: "rev [1..<4097] = 4096 # rev [1..<4096]"
proof -
  have "Suc 4096 = 4097" "1 \<le> (4096 :: nat)" by simp_all
  from upt_Suc_append [OF this(2), unfolded this(1)] show ?thesis by (simp only: rev_append rev.simps append.simps)
qed

lemma each_from_4096:
  assumes "uheap_ok s bs" "each_ok test write (rev [1..<4097])" "ubase s + bsizes bs + 4111 < break_limit"
  shows "\<exists>s' bs'. alloc_each user_sbrk test write (rev [1..<4097]) s = Some (Passed s') \<and> uheap_ok s' bs' \<and>
    ubase s' = ubase s \<and> bsizes bs' \<le> bsizes bs + 4111"
  using each_descending_first [OF assms(1) assms(2) [unfolded from_4096], folded from_4096] descending [of 1 4097] assms(3)
  unfolding from_4096 by (simp only: add.assoc) simp

lemma p_malloc_simple3_passes: "big_room s \<Longrightarrow> \<exists>t. p_malloc_simple3 user_sbrk s = Some (Passed t)"
proof -
  assume r: "big_room s"
  then show ?thesis
    using each_from_4096 [OF _ simple_each_ok, of s "[]" 26] by (auto simp: big_room_def p_malloc_simple3_def)
qed

lemma malloc_0: "uheap_ok s bs \<Longrightarrow> \<exists>t. malloc user_sbrk s 0 = Some (NULL, t) \<and> uheap_ok t bs \<and> ubase t = ubase s"
  using kb.malloc_result [of s bs 0 None bs] by (auto simp: spec_malloc_def)

lemma malloc_zero_runs: "uheap_ok s bs \<Longrightarrow> \<exists>t. malloc_zero user_sbrk n s = Some t \<and> uheap_ok t bs \<and> ubase t = ubase s"
proof (induction n arbitrary: s)
  case (Suc n)
  then obtain t where "malloc user_sbrk s 0 = Some (NULL, t)" "uheap_ok t bs" "ubase t = ubase s" using malloc_0 by blast
  then show ?case using Suc.IH [of t] by (simp add: free_def)
qed simp

lemma p_malloc_edge_passes: "big_room s \<Longrightarrow> \<exists>t. p_malloc_edge user_sbrk s = Some (Passed t)"
proof -
  assume r: "big_room s"
  then obtain t where t: "malloc_zero user_sbrk 10000 s = Some t" "uheap_ok t []" "ubase t = ubase s"
    using malloc_zero_runs [of s "[]" 10000] by (auto simp: big_room_def)
  have n: "((\<lambda>s. free s NULL) ^^ n) t = t" for n by (induction n) (simp_all add: free_def)
  obtain p s' bs' where "malloc user_sbrk t (of_nat 1048576) = Some (p, s')" "allocated Map.empty t [] 1048576 p s' bs'"
    by (rule malloc_room [of Map.empty t "[]" 1048576]) (use t r in \<open>simp_all add: big_room_def\<close>)
  then show ?thesis using t(1) allocatedD(1) by (auto simp: p_malloc_edge_def n)
qed

text \<open>\<^verbatim>\<open>p-malloc-simple2\<close>: 512 arrays at once, all of them intact at the end.\<close>

lemma simple2_fill_ok:
  "\<forall>i \<in> set is. i < 512 \<Longrightarrow> fill_ok (\<lambda>i ptr. if ptr = NULL then Some 27 else None) fill_index
     (\<lambda>i bytes. bytes = replicate (i + 1) (of_nat (i mod 16))) is"
proof -
  have u: "ucast (of_nat (i mod 16) :: u32) = (of_nat (i mod 16) :: u8)" for i
    by (simp add: word_unat_eq_iff unat_of_nat unsigned_ucast_eq take_bit_eq_mod)
  show "\<forall>i \<in> set is. i < 512 \<Longrightarrow> ?thesis"
    unfolding fill_ok_def fill_index_def using memset_inside [of _ "_ + 1"] by (auto simp: u simp del: of_nat_add)
qed

lemma filled_pairs:
  assumes "filled R is ptrs Map.empty L"
  shows "list_all (\<lambda>(i, p). \<exists>bytes. L p = Some bytes \<and> R i bytes) (zip is ptrs)" "distinct ptrs" "length ptrs = length is"
    "dom L = set ptrs"
  using assms by (auto simp: filled_def list_all2_iff list_all_iff)

text \<open>The heap is not empty when it has an array.\<close>

lemma arrays_nonempty:
  assumes "arrays L s bs" "L p = Some old"
  shows "initialized s" "0 < bsizes bs"
proof -
  obtain n sl where b: "blk_at (ubase s) bs (unat p) (Used n sl)" using arraysD(2) [OF assms] by (auto simp: holds_def)
  show "initialized s" by (rule kb.heap_ok_initialized [OF arraysD(1) [OF assms(1)] b])
  have "unat p + (bsize (Used n sl) - 8) \<le> ubase s + bsizes bs"
    using kb.blk_at_less [OF b] kb.heap_ok_layout(2) [OF arraysD(1) [OF assms(1)]] by blast
  then show "0 < bsizes bs" using kb.blk_at_ge [OF b] by simp
qed

lemma sbrk_0_arrays:
  assumes "arrays L s bs" "initialized s"
  obtains k where "user_sbrk (os s) 0 = Some (of_nat (ubase s + bsizes bs), k)" "arrays L (s\<lparr>os := k\<rparr>) bs"
proof -
  obtain k where k: "user_sbrk (os s) 0 = Some (of_nat (ubase s + bsizes bs), k)" "uheap_ok (s\<lparr>os := k\<rparr>) bs"
    "ubase (s\<lparr>os := k\<rparr>) = ubase s"
    using sbrk_0_end [OF arraysD(1) [OF assms(1)] assms(2)] by blast
  have "holds (s\<lparr>os := k\<rparr>) bs p old" if "L p = Some old" for p old
    by (rule holds_keep [OF arraysD(2) [OF assms(1) that] k(3)]) simp_all
  then show thesis using that k(1,2) by (simp add: arrays_def)
qed

lemma fill_sum: "\<forall>i \<in> set is. i < 512 \<Longrightarrow> (\<Sum>i\<leftarrow>is. i + 16) \<le> length is * 527"
  by (induction "is") auto

lemma p_malloc_simple2_passes:
  assumes r: "big_room s" and e: "unat (ROUNDUP e PAGESIZE) = ubase s"
  shows "\<exists>t. p_malloc_simple2 user_sbrk e s = Some (Passed t)"
proof -
  define js :: "nat list" where "js = [0..<512]"
  have js: "\<forall>i \<in> set js. i < 512" "length js = 512" unfolding js_def by (simp only: set_upt atLeastLessThan_iff, simp) (simp only: length_upt)
  have b: "ubase s + bsizes [] + (\<Sum>i\<leftarrow>js. i + 16) < break_limit"
    using r fill_sum [OF js(1)] js(2) by (simp add: big_room_def)
  have ok: "arrays Map.empty s []" using r by (simp add: big_room_def)
  obtain ptrs s1 bs1 L where f: "fill_ptrs user_sbrk (\<lambda>i ptr. if ptr = NULL then Some 27 else None) fill_index js s = Some (ptrs, Passed s1)"
    "arrays L s1 bs1" "ubase s1 = ubase s"
    "filled (\<lambda>i bytes. bytes = replicate (i + 1) (of_nat (i mod 16))) js ptrs Map.empty L"
    using fill_ptrs_pass [OF ok simple2_fill_ok [OF js(1)] b] by blast
  note F = filled_pairs [OF f(4)]
  have "dom L \<noteq> {}" using F(3,4) js(2) by auto
  then obtain p old where p: "L p = Some old" by (auto simp: dom_def)
  obtain k where k: "user_sbrk (os s1) 0 = Some (of_nat (ubase s1 + bsizes bs1), k)" "arrays L (s1\<lparr>os := k\<rparr>) bs1"
    using sbrk_0_arrays [OF f(2) arrays_nonempty(1) [OF f(2) p]] by blast
  have "list_all (\<lambda>(i, p). L p = Some (replicate (i + 1) (of_nat (i mod 16)))) (zip js ptrs)"
    using F(1) by (simp add: list_all_iff)
  moreover have "distinct (map snd (zip js ptrs))" using F(2,3) by simp
  ultimately obtain t where "check_ptrs (zip js ptrs) (s1\<lparr>os := k\<rparr>) = Passed t"
    using check_ptrs_pass [OF k(2)] by blast
  moreover have "unat (of_nat (ubase s1 + bsizes bs1) :: u64) = ubase s1 + bsizes bs1"
    using kb.heap_ok_layout(3) [OF arraysD(1) [OF f(2)]] by (rule small_nat)
  then have "ROUNDUP e PAGESIZE < of_nat (ubase s1 + bsizes bs1)"
    using arrays_nonempty(2) [OF f(2) p] e f(3) by (simp add: word_less_nat_alt del: of_nat_add)
  ultimately show ?thesis
    using f(1) k(1) unfolding p_malloc_simple2_def js_def [symmetric] by (simp add: call_def del: of_nat_add)
qed

section \<open>Resizing\<close>

text \<open>What a successful \<^verbatim>\<open>realloc\<close> of the array at \<open>p\<close> to \<open>n\<close> bytes leaves: the array at \<open>q\<close>.\<close>

definition resized :: "store \<Rightarrow> kstate heap \<Rightarrow> blk list \<Rightarrow> addr \<Rightarrow> u8 list \<Rightarrow> nat \<Rightarrow> addr \<Rightarrow> kstate heap \<Rightarrow> blk list \<Rightarrow> bool" where
  "resized L s bs p old n q s' bs' \<longleftrightarrow>
     q \<noteq> NULL \<and> 8 dvd unat q \<and> unat q + n < 2 ^ 31 \<and> q \<notin> dom L \<and> ubase s' = ubase s \<and> bsizes bs' \<le> bsizes bs + n + 15 \<and>
     (\<exists>new. arrays (L(p := None, q \<mapsto> new)) s' bs' \<and> length new = n \<and> (\<forall>i < min (length old) n. new ! i = old ! i))"

lemma blk_at_below: "blk_at a bs p b \<Longrightarrow> p + bsize b \<le> a + bsizes bs + 8"
  by (induction bs arbitrary: a) fastforce+

lemma realloc_room:
  assumes A: "arrays L s bs" and p: "L p = Some old" and n: "0 < n" "n < 2 ^ 31"
    and r: "ubase s + bsizes bs + n + 15 < break_limit"
  obtains q s' bs' where "realloc user_sbrk s p (of_nat n) = Some (q, s')" "resized L s bs p old n q s' bs'"
proof -
  have u: "unat (of_nat n :: u64) = n" "(of_nat n :: u64) \<noteq> 0" using n by (simp_all add: small_nat unat_eq_0 [symmetric])
  obtain k sl where b: "blk_at (ubase s) bs (unat p) (Used k sl)" "length old + 8 + sl \<le> k"
    using arraysD(2) [OF A p] by (auto simp: holds_def)
  have g: "ubase s + bsizes bs + growth n bs < break_limit" using r growth_le [of n bs] by simp
  obtain q0 bs0 where sp: "spec_malloc break_limit (ubase s) bs n = (Some q0, bs0)" "bsizes bs0 = bsizes bs + growth n bs"
    by (rule spec_malloc_room [OF n(1) g]) blast
  obtain q s' where m: "realloc user_sbrk s p (of_nat n) = Some (q, s')"
    "realloc_post cur_break user_ok s bs (unat p) (min (k - 8 - sl) n) (spec_malloc break_limit (ubase s) bs n) (q, s')"
    using kb.realloc_refines [OF arraysD(1) [OF A] b(1) u(2)] n(2) u(1) by auto
  have q: "q = of_nat q0" "uheap_ok s' (set_blk free_blk (unat p) (ubase s) bs0)"
    using m(2) by (auto simp: realloc_post_def sp)
  note R = arrays_realloc [OF A p b m(2)]
  have ne: "q \<noteq> NULL"
  proof -
    obtain m l where "blk_at (ubase s) bs0 q0 (Used m l)"
      using spec_malloc_fresh [OF sp(1)] kb.heap_ok_layout(2) [OF arraysD(1) [OF A]] by blast
    then have "ubase s + 8 \<le> q0" "q0 \<le> ubase s + bsizes bs0 + 8" using kb.blk_at_ge blk_at_below by fastforce+
    moreover have "ubase s + bsizes bs0 < 2 ^ 31" using kb.heap_ok_layout(3) [OF q(2)] R(1) by (simp add: bsizes_free_blk)
    ultimately have "unat q \<noteq> 0" using q(1) by (simp add: unat_of_nat64)
    then show ?thesis by auto
  qed
  then have N: "fresh_at L q n" "arrays (L(p := None, q \<mapsto> bytes_at (umem s') (unat q) n)) s' (set_blk free_blk (unat p) (ubase s) bs0)"
    "\<forall>i < min (length old) n. bytes_at (umem s') (unat q) n ! i = old ! i"
    using R(2) by (auto simp: sp)
  have "bsizes (set_blk free_blk (unat p) (ubase s) bs0) \<le> bsizes bs + n + 15"
    using sp(2) growth_le [of n bs] by (simp add: bsizes_free_blk)
  then have "resized L s bs p old n q s' (set_blk free_blk (unat p) (ubase s) bs0)"
    unfolding resized_def using ne N R(1) fresh_not_live [OF A N(1) n(1)]
    by (intro conjI exI [of _ "bytes_at (umem s') (unat q) n"]) (auto simp: fresh_at_def)
  then show thesis using that m(1) by blast
qed

lemma memset_array:
  assumes "arrays L s bs" "L p = Some old" "length old = n" "unat p + n < 2 ^ 31"
  shows "arrays (L(p \<mapsto> replicate n (ucast c))) (s\<lparr>umem := snd (memset (umem s) p c (of_nat n))\<rparr>) bs"
  using arrays_update [OF assms(1,2), of "snd (memset (umem s) p c (of_nat n))"] stays_inD [OF memset_inside(1) [OF assms(4)]]
    memset_inside(2) [OF assms(4)] assms(3) by simp

lemma memset_new: "allocated L s bs n p s' bs' \<Longrightarrow>
  arrays (L(p \<mapsto> replicate n (ucast c))) (s'\<lparr>umem := snd (memset (umem s') p c (of_nat n))\<rparr>) bs'"
  using memset_array [OF allocatedD(7), of L s bs n p s' bs' p _ n c] allocatedD(3) [of L s bs n p s' bs'] by simp

lemma live_not_null: "arrays L s bs \<Longrightarrow> L p = Some old \<Longrightarrow> p \<noteq> NULL"
  using kb.blk_at_ptr(1) [of s bs "unat p"] arraysD [of L s bs] by (fastforce simp: holds_def)

text \<open>A call that asks for nothing.\<close>

lemma malloc_0_arrays:
  assumes "arrays L s bs"
  obtains t where "malloc user_sbrk s 0 = Some (NULL, t)" "arrays L t bs" "ubase t = ubase s"
proof -
  obtain r t where m: "malloc user_sbrk s 0 = Some (r, t)"
    "alloc_post cur_break user_ok s bs (spec_malloc break_limit (ubase s) bs 0) (r, t)"
    using kb.malloc_refines [OF arraysD(1) [OF assms], of 0] by auto
  then show thesis using that arrays_alloc [OF assms m(2)] by auto
qed

lemma bytes_are_replicate:
  "arrays L s bs \<Longrightarrow> L p = Some (replicate n c) \<Longrightarrow> k \<le> n \<Longrightarrow> bytes_are (umem s) p k c"
  using array_byte [of L s bs p "replicate n c"] by (simp add: bytes_are_def)

lemma shrink_each_pass:
  assumes "arrays [p1 \<mapsto> X, p2 \<mapsto> replicate k (of_char CHR ''B'')] s bs" "p1 \<noteq> p2" "sorted_wrt (\<ge>) is"
    "\<forall>i \<in> set is. 0 < i \<and> i \<le> k \<and> i < 2 ^ 31" "ubase s + bsizes bs + (\<Sum>i\<leftarrow>is. i + 15) < break_limit"
  shows "\<exists>q s' bs' j. shrink_each user_sbrk is p2 s = Some (q, Passed s') \<and> p1 \<noteq> q \<and> ubase s' = ubase s \<and>
    arrays [p1 \<mapsto> X, q \<mapsto> replicate j (of_char CHR ''B'')] s' bs'"
  using assms
proof (induction "is" arbitrary: p2 k s bs)
  case Nil
  then show ?case by auto
next
  case (Cons i "is")
  let ?B = "of_char CHR ''B'' :: u8"
  let ?L = "[p1 \<mapsto> X, p2 \<mapsto> replicate k ?B]"
  have i: "0 < i" "i < 2 ^ 31" "i \<le> k" using Cons.prems(4) by simp_all
  have "ubase s + bsizes bs + i + 15 < break_limit" using Cons.prems(5) by simp
  moreover have "?L p2 = Some (replicate k ?B)" by simp
  ultimately obtain q s1 bs1 where 1: "realloc user_sbrk s p2 (of_nat i) = Some (q, s1)"
    "resized ?L s bs p2 (replicate k ?B) i q s1 bs1"
    using realloc_room [OF Cons.prems(1) _ i(1,2)] by blast
  then obtain new where new: "arrays (?L(p2 := None, q \<mapsto> new)) s1 bs1" "length new = i"
    "\<forall>j < min k i. new ! j = replicate k ?B ! j"
    "q \<notin> dom ?L" "ubase s1 = ubase s" "bsizes bs1 \<le> bsizes bs + i + 15"
    unfolding resized_def length_replicate by blast
  have "new = replicate i ?B" using new(2,3) i(3) by (intro nth_equalityI) simp_all
  moreover have "?L(p2 := None, q \<mapsto> new) = [p1 \<mapsto> X, q \<mapsto> new]" using Cons.prems(2) by (auto simp: fun_eq_iff)
  ultimately have a: "arrays [p1 \<mapsto> X, q \<mapsto> replicate i ?B] s1 bs1" using new(1) by simp
  have "bytes_are (umem s1) q i ?B" using bytes_are_replicate [OF a, of q i ?B i] by simp
  moreover have "p1 \<noteq> q" "ubase s1 + bsizes bs1 + (\<Sum>i\<leftarrow>is. i + 15) < break_limit" "\<forall>j \<in> set is. 0 < j \<and> j \<le> i \<and> j < 2 ^ 31"
    using new(4-6) Cons.prems(3-5) by auto
  ultimately show ?case using Cons.IH [OF a] 1(1) new(5) Cons.prems(3) by simp
qed

lemma shrink_sizes:
  "\<forall>i \<in> set (rev [1..<513]). 0 < i \<and> i \<le> 1024 \<and> i < 2 ^ 31" "(\<Sum>i\<leftarrow>rev [1..<513]. i + 15) \<le> 512 * 527"
proof -
  have s: "i \<in> set (rev [1..<513]) \<longleftrightarrow> 1 \<le> i \<and> i < 513" for i
    by (simp only: set_rev set_upt atLeastLessThan_iff)
  then show "\<forall>i \<in> set (rev [1..<513]). 0 < i \<and> i \<le> 1024 \<and> i < 2 ^ 31" by auto
  have "length (rev [1..<513]) = 512" by (simp only: length_rev length_upt)
  then show "(\<Sum>i\<leftarrow>rev [1..<513]. i + 15) \<le> 512 * 527" using sum_bound [of "rev [1..<513]" 512] s by auto
qed

lemma p_realloc_passes:
  assumes r: "big_room s"
  shows "\<exists>t. p_realloc user_sbrk s = Some (Passed t)"
proof -
  let ?A = "of_char CHR ''A'' :: u8" and ?B = "of_char CHR ''B'' :: u8"
  have ok: "arrays Map.empty s []" and b: "ubase s + 0x130000 < break_limit" using r by (simp_all add: big_room_def)
  have c: "ucast (of_char ch :: u32) = (of_char ch :: u8)" for ch by (cases ch) simp
  obtain p0 s1 bs1 where 1: "malloc user_sbrk s (of_nat 25) = Some (p0, s1)" "allocated Map.empty s [] 25 p0 s1 bs1"
    by (rule malloc_room [OF ok, of 25]) (use b in simp_all)
  note D1 = allocatedD [OF 1(2)]
  let ?t1 = "s1\<lparr>umem := fill_A 25 p0 (umem s1)\<rparr>"
  have a1: "arrays [p0 \<mapsto> replicate 25 ?A] ?t1 bs1" using memset_new [OF 1(2), of "of_char CHR ''A''"] by (simp only: fill_A_def c)
  have "ubase ?t1 + bsizes bs1 + 25000 + 15 < break_limit" using b D1(5,6) by simp
  moreover have "[p0 \<mapsto> replicate 25 ?A] p0 = Some (replicate 25 ?A)" "0 < (25000 :: nat)" "(25000 :: nat) < 2 ^ 31" by simp_all
  ultimately obtain p s2 bs2 where 2: "realloc user_sbrk ?t1 p0 (of_nat 25000) = Some (p, s2)"
    "resized [p0 \<mapsto> replicate 25 ?A] ?t1 bs1 p0 (replicate 25 ?A) 25000 p s2 bs2"
    using realloc_room [OF a1] by blast
  then obtain new where "arrays ([p0 \<mapsto> replicate 25 ?A](p0 := None, p \<mapsto> new)) s2 bs2" "length new = 25000"
    "\<forall>i < min 25 25000. new ! i = replicate 25 ?A ! i"
    "p \<noteq> NULL" "unat p + 25000 < 2 ^ 31" "ubase s2 = ubase ?t1" "bsizes bs2 \<le> bsizes bs1 + 25000 + 15"
    unfolding resized_def length_replicate by blast
  then have new: "arrays [p \<mapsto> new] s2 bs2" "length new = 25000" "\<forall>i < 25. new ! i = ?A"
    "p \<noteq> NULL" "unat p + 25000 < 2 ^ 31" "ubase s2 = ubase s" "bsizes bs2 \<le> bsizes bs1 + 25015"
    using D1(5) by (simp_all del: of_char_of)
  have c2: "bytes_are (umem s2) p 25 ?A" using array_byte [OF new(1), of p] new(2,3) by (simp add: bytes_are_def)
  let ?t2 = "s2\<lparr>umem := fill_A 25000 p (umem s2)\<rparr>" and ?X = "replicate 25000 ?A"
  have a2: "arrays [p \<mapsto> ?X] ?t2 bs2" using memset_array [OF new(1) _ new(2,5), of "of_char CHR ''A''"] by (simp add: fill_A_def c)
  obtain p2 s3 bs3 where 3: "malloc user_sbrk ?t2 (of_nat 1024) = Some (p2, s3)" "allocated [p \<mapsto> ?X] ?t2 bs2 1024 p2 s3 bs3"
    by (rule malloc_room [OF a2, of 1024]) (use b D1(6) new(6,7) in simp_all)
  note D3 = allocatedD [OF 3(2)]
  let ?t3 = "s3\<lparr>umem := snd (memset (umem s3) p2 (of_char CHR ''B'') 1024)\<rparr>"
  have a3: "arrays [p \<mapsto> ?X, p2 \<mapsto> replicate 1024 ?B] ?t3 bs3" using memset_new [OF 3(2), of "of_char CHR ''B''"] by (simp only: c) simp
  have js: "\<forall>i \<in> set (rev [1..<513]). 0 < i \<and> i \<le> 1024 \<and> i < 2 ^ 31" "(\<Sum>i\<leftarrow>rev [1..<513]. i + 15) \<le> 512 * 527"
    using shrink_sizes by blast+
  have "ubase ?t3 + bsizes bs3 + (\<Sum>i\<leftarrow>rev [1..<513]. i + 15) < break_limit"
    using b D1(6) new(6,7) D3(5,6) js(2) by simp
  then obtain q s4 bs4 j where 4: "shrink_each user_sbrk (rev [1..<513]) p2 ?t3 = Some (q, Passed s4)" "p \<noteq> q"
    "arrays [p \<mapsto> ?X, q \<mapsto> replicate j ?B] s4 bs4"
    using shrink_each_pass [OF a3 _ descending js(1)] D3(4) by auto
  have q: "q \<noteq> NULL" by (rule live_not_null [OF 4(3)]) simp
  have "arrays [p \<mapsto> ?X] (free s4 q) (set_blk free_blk (unat q) (ubase s4) bs4)"
    using arrays_free(1) [OF 4(3), of q] 4(2) by (simp add: fun_upd_twist)
  then obtain s5 where 5: "malloc user_sbrk (free s4 q) 0 = Some (NULL, s5)"
    "arrays [p \<mapsto> ?X] s5 (set_blk free_blk (unat q) (ubase s4) bs4)"
    by (rule malloc_0_arrays)
  have "bytes_are (umem s5) p 25000 ?A" using bytes_are_replicate [OF 5(2), of p 25000 ?A 25000] by simp
  then show ?thesis
    using 1(1) 2(1) c2 new(4) 3(1) 4(1) 5(1) q D1(1)
    by (simp add: p_realloc_def realloc_def [of _ _ q] realloc_def [of _ _ NULL] del: shrink_each.simps)
qed

section \<open>Alignment\<close>

lemma aligned_test_passes: "p \<noteq> NULL \<Longrightarrow> 8 dvd unat p \<Longrightarrow> aligned_test line i p = None"
proof -
  assume p: "p \<noteq> NULL" "8 dvd unat p"
  have "unat (p mod 8) = unat p mod 8" by (simp add: unat_mod)
  then have "p mod 8 = 0" using p(2) by (simp add: unat_eq_0 dvd_eq_mod_eq_0)
  then show ?thesis using p(1) by (simp add: aligned_test_def)
qed

lemma aligned_each_ok: "\<forall>i \<in> set is. 0 < i \<and> i < 2 ^ 31 \<Longrightarrow> each_ok (aligned_test line) (\<lambda>i ptr m. m) is"
  by (simp add: each_ok_def aligned_test_passes)

lemma aligned_fill_ok: "\<forall>i \<in> set is. i < 512 \<Longrightarrow> fill_ok (\<lambda>i. aligned_test line (i + 1)) (\<lambda>i ptr m. m) (\<lambda>i bytes. True) is"
  by (fastforce simp: fill_ok_def aligned_test_passes)

lemma alignment_end_passes:
  assumes ok: "arrays Map.empty s bs" and b: "ubase s + bsizes bs + 26000 < break_limit"
  shows "\<exists>t. alignment_end user_sbrk s = Some (Passed t)"
proof -
  obtain p s1 bs1 where 1: "malloc user_sbrk s (of_nat 25) = Some (p, s1)" "allocated Map.empty s bs 25 p s1 bs1"
    by (rule malloc_room [OF ok, of 25]) (use b in simp_all)
  note D = allocatedD [OF 1(2)]
  let ?old = "bytes_at (umem s1) (unat p) 25"
  have "ubase s1 + bsizes bs1 + 25000 + 15 < break_limit" "[p \<mapsto> ?old] p = Some ?old" "0 < (25000 :: nat)" "(25000 :: nat) < 2 ^ 31"
    using b D(5,6) by simp_all
  then obtain q s2 bs2 where 2: "realloc user_sbrk s1 p (of_nat 25000) = Some (q, s2)" "resized [p \<mapsto> ?old] s1 bs1 p ?old 25000 q s2 bs2"
    using realloc_room [OF D(7)] by blast
  then obtain new where new: "arrays ([p \<mapsto> ?old](p := None, q \<mapsto> new)) s2 bs2" "q \<noteq> NULL" "8 dvd unat q" "ubase s2 = ubase s1"
    "bsizes bs2 \<le> bsizes bs1 + 25000 + 15" unfolding resized_def by blast
  then have a2: "arrays [q \<mapsto> new] s2 bs2" by simp
  let ?bs = "set_blk free_blk (unat q) (ubase s2) bs2"
  have a3: "arrays Map.empty (free s2 q) ?bs" "ubase (free s2 q) = ubase s2" using arrays_free [OF a2, of q] by simp_all
  obtain r where r: "calloc user_sbrk (free s2 q) 10 10 = Some r"
    "alloc_post cur_break user_ok (free s2 q) ?bs (spec_malloc break_limit (ubase (free s2 q)) ?bs 100) r"
    using kb.calloc_refines [OF arraysD(1) [OF a3(1)], of 10 10] by auto
  have "ubase (free s2 q) + bsizes ?bs + growth 100 ?bs < break_limit"
    using growth_le [of 100 ?bs] b D(5,6) new(4,5) a3(2) by (simp add: bsizes_free_blk)
  then obtain bs3 where "allocated Map.empty (free s2 q) ?bs 100 (fst r) (snd r) bs3"
    using alloc_room [OF a3(1), of 100 "fst r" "snd r"] r(2) by auto
  note E = allocatedD(1,2) [OF this]
  show ?thesis
    using 1(1) 2(1) r(1) D(1,2) new(2,3) E by (cases r) (simp add: alignment_end_def aligned_test_passes)
qed

lemma p_malloc_alignment_passes:
  assumes r: "big_room s"
  shows "\<exists>t. p_malloc_alignment user_sbrk s = Some (Passed t)"
proof -
  have ok: "uheap_ok s []" and b: "ubase s + 0x130000 < break_limit" using r by (simp_all add: big_room_def)
  define js ks ls :: "nat list" where "js = [0..<512]" and "ks = [1..<512]" and "ls = rev [1..<4097]"
  have js: "js = 0 # ks" unfolding js_def ks_def by (simp only: upt_conv_Cons, simp only: One_nat_def)
  have k: "\<forall>i \<in> set ks. 0 < i \<and> i < 512" "length ks = 511" unfolding ks_def by (simp only: set_upt atLeastLessThan_iff, simp) (simp only: length_upt)
  have l: "\<forall>i \<in> set ls. 0 < i \<and> i < 2 ^ 31" unfolding ls_def by (simp only: set_rev set_upt atLeastLessThan_iff) auto
  have "\<forall>i \<in> set ks. i \<le> 512" using k(1) by force
  from sum_bound [OF this] have ksum: "(\<Sum>i\<leftarrow>ks. i + 15) \<le> 511 * 527" by (simp only: k(2)) simp
  obtain s0 where 0: "malloc user_sbrk s 0 = Some (NULL, s0)" "uheap_ok s0 []" "ubase s0 = ubase s" using malloc_0 [OF ok] by blast
  obtain s1 bs1 where 1: "alloc_each user_sbrk (aligned_test 27) (\<lambda>i ptr m. m) ks s0 = Some (Passed s1)" "uheap_ok s1 bs1"
    "ubase s1 = ubase s0" "bsizes bs1 \<le> bsizes [] + (\<Sum>i\<leftarrow>ks. i + 15)"
    using each_budget [OF 0(2) aligned_each_ok, of ks 27] k(1) ksum b 0(3) by force
  have first: "alloc_each user_sbrk (aligned_test 27) (\<lambda>i ptr m. m) js s = Some (Passed s1)"
    using 0(1) 1(1) by (simp add: js aligned_test_def free_def)
  have j: "\<forall>i \<in> set js. i < 512" "length js = 512" using k by (auto simp: js)
  have "ubase s1 + bsizes bs1 + (\<Sum>i\<leftarrow>js. i + 16) < break_limit"
    using fill_sum [OF j(1)] j(2) b 0(3) 1(3,4) ksum by simp
  moreover have "arrays Map.empty s1 bs1" using 1(2) by simp
  ultimately obtain ptrs s2 bs2 L where 2: "fill_ptrs user_sbrk (\<lambda>i. aligned_test 37 (i + 1)) (\<lambda>i ptr m. m) js s1 = Some (ptrs, Passed s2)"
    "arrays L s2 bs2" "ubase s2 = ubase s1" "bsizes bs2 \<le> bsizes bs1 + (\<Sum>i\<leftarrow>js. i + 16)" "filled (\<lambda>i bytes. True) js ptrs Map.empty L"
    using fill_ptrs_pass [OF _ aligned_fill_ok [OF j(1)]] by blast
  note F = filled_pairs [OF 2(5)]
  obtain bs3 where 3: "arrays (L |` (- set ptrs)) (foldl free s2 ptrs) bs3" "ubase (foldl free s2 ptrs) = ubase s2" "bsizes bs3 = bsizes bs2"
    using free_all [OF 2(2), of ptrs] F(2,4) by auto
  have size: "ubase s2 + bsizes bs2 + 31000 < break_limit"
    using fill_sum [OF j(1)] j(2) b 0(3) 1(3,4) 2(3,4) ksum by simp
  obtain s4 bs4 where 4: "alloc_each user_sbrk (aligned_test 49) (\<lambda>i ptr m. m) ls (foldl free s2 ptrs) = Some (Passed s4)"
    "uheap_ok s4 bs4" "ubase s4 = ubase (foldl free s2 ptrs)" "bsizes bs4 \<le> bsizes bs3 + 4111"
    using each_from_4096 [OF arraysD(1) [OF 3(1)] aligned_each_ok [OF l [unfolded ls_def]]] size 3(2,3) unfolding ls_def by force
  have "ubase s4 + bsizes bs4 + 26000 < break_limit" using size 3(2,3) 4(3,4) by simp
  then obtain t where "alignment_end user_sbrk s4 = Some (Passed t)" using alignment_end_passes [of s4 bs4] 4(2) by auto
  then show ?thesis
    unfolding p_malloc_alignment_def js_def [symmetric] ls_def [symmetric] using first 2(1) 4(1) by simp
qed

section \<open>All of them\<close>

text \<open>
  C22. The allocator tests pass. On a process whose heap is empty, starts where the program ends and has a megabyte
  and a quarter below the kernel's limit on the break, six programs of \<^verbatim>\<open>tests/\<close> run to their end with every
  assertion true: \<^verbatim>\<open>p-malloc-simple\<close> and \<^verbatim>\<open>p-malloc-simple3\<close> (one block of each size, ascending and descending),
  \<^verbatim>\<open>p-malloc-simple2\<close> (512 arrays at once, none corrupted), \<^verbatim>\<open>p-malloc-alignment\<close>, \<^verbatim>\<open>p-malloc-edge\<close> (calls for
  nothing, then a megabyte) and \<^verbatim>\<open>p-realloc\<close> (contents survive growing and 512 steps of shrinking, and
  no other array is touched).
\<close>

theorem allocator_tests_pass:
  assumes "big_room s" "unat (ROUNDUP end_addr PAGESIZE) = ubase s"
  shows "(\<exists>t. p_malloc_simple user_sbrk s = Some (Passed t)) \<and> (\<exists>t. p_malloc_simple2 user_sbrk end_addr s = Some (Passed t)) \<and>
    (\<exists>t. p_malloc_simple3 user_sbrk s = Some (Passed t)) \<and> (\<exists>t. p_malloc_alignment user_sbrk s = Some (Passed t)) \<and>
    (\<exists>t. p_malloc_edge user_sbrk s = Some (Passed t)) \<and> (\<exists>t. p_realloc user_sbrk s = Some (Passed t))"
  using assms p_malloc_simple_passes p_malloc_simple2_passes p_malloc_simple3_passes p_malloc_alignment_passes
    p_malloc_edge_passes p_realloc_passes by blast

theorem allocator_tests_pass_witness:
  "(\<exists>t. p_malloc_simple2 user_sbrk 0x121F00 sample_heap = Some (Passed t)) \<and> (\<exists>t. p_realloc user_sbrk sample_heap = Some (Passed t))"
proof -
  have "big_room sample_heap" using sample_heap_ok by (simp add: big_room_def break_limit_def)
  moreover have "unat (ROUNDUP 0x121F00 PAGESIZE) = ubase sample_heap"
    using sample_heap_ok(2) by (simp add: ROUNDUP_def ROUNDDOWN_def PAGESIZE_def)
  ultimately show ?thesis using allocator_tests_pass by blast
qed

end
