(* ===== verification/Spec2Isabelle.thy ===== *)
theory Spec2Isabelle
  imports Process Program_Props Boot_Image Keys Kernel_Props Scheduler Calls Invariants Loading Heap_Info_Props
    Isolation_Props Alloctests Break_Tests Alloc_Tests
begin

text \<open>
  A verification library for WeensyOS, the teaching operating system of \<^verbatim>\<open>src/c/final-verified\<close>: a
  boot loader, a kernel with virtual memory, processes and system calls, a C library, a user-level
  allocator and the programs that run on it. The other directories of the repository are variants:
  \<^verbatim>\<open>c/final\<close> has the same C sources (but for one test program, modelled too), \<^verbatim>\<open>c/m0-starter\<close> is the
  unfinished exercise, \<^verbatim>\<open>rust-c\<close> and \<^verbatim>\<open>rust\<close> are ports. All definitions are translated from the C
  sources; file names below are relative to \<^verbatim>\<open>c/final-verified\<close>.

  \<^bold>\<open>How the parts interact.\<close> The boot loader (\<^verbatim>\<open>kernel/boot.c\<close>) reads the kernel from disk, as
  \<^verbatim>\<open>build/mkbootdisk.c\<close> laid it out, and jumps to it. \<^verbatim>\<open>kernel\<close> initialises the hardware, the page
  owners and its own page table, loads programs from its RAM images (\<^verbatim>\<open>k-loader.c\<close>) and leaves to
  process 1. Every interrupt, fault and system call enters \<^verbatim>\<open>exception\<close>, which saves the registers,
  checks the operating system invariants, serves the event and returns to the process or schedules
  another one. Programs call the kernel through \<^verbatim>\<open>uspace/process.h\<close>; \<^verbatim>\<open>uspace/malloc.c\<close> manages the
  range that \<^verbatim>\<open>sbrk\<close> gives them, whose pages the page-fault handler maps when they are first touched.

  \<^bold>\<open>State.\<close> The record \<open>machine\<close> (\<open>X86\<close>) has physical memory as a function from 64-bit addresses to
  bytes, the control and descriptor registers, what each I/O port returns as a stream of values per
  port (the environment's choice), and the list of port writes. \<open>kstate\<close> (\<open>Kernel_State\<close>) extends it
  with the file-scope variables of the kernel: process table, page owners, current process, ticks,
  console, keyboard modifiers, descriptor tables. C structs are records, enums and return codes
  words or integers at their width; a kernel function is a state transformer whose result is a
  value or a \<open>stop\<close> (panic, power-off, reboot, or a fault of the kernel). A loop that need not end is
  a \<open>partial_function\<close>, so that running for ever is \<open>None\<close>; no definition uses fuel. A process is
  a \<open>heap\<close> record: its memory, the allocator's globals and, as a parameter, the system behind \<^verbatim>\<open>sbrk\<close>.

  \<^bold>\<open>Theories.\<close>
    \<^item> \<open>Interfaces\<close>: locales that several components interpret: \<open>preserved\<close> (an invariant of a step
      relation holds in every reachable state), \<open>framed\<close> (a step also keeps what an observer sees) and
      \<open>implements\<close> (a client that runs against an implementation gets the answers of the
      specification). Interpreted on the kernel's steps (\<open>Kernel_Steps\<close>), on a process's stores
      (\<open>Isolation\<close>) and on the allocator (\<open>Heap_Store\<close>).
    \<^item> \<open>Prelude\<close>, \<open>Byte_Memory\<close>: machine types, word arithmetic as numbers, little-endian memory.
    \<^item> \<open>Clib\<close>, \<open>Printer\<close>: \<^verbatim>\<open>shared/lib.c\<close>: memory and string functions, \<^verbatim>\<open>rand\<close>, \<^verbatim>\<open>printf\<close> to the console
      and to strings. Bounds of every write, correctness of \<^verbatim>\<open>memmove\<close> and \<^verbatim>\<open>strcmp\<close>, number printing
      as a round trip.
    \<^item> \<open>X86\<close>, \<open>Kernel_State\<close>: \<^verbatim>\<open>shared/x86-64.h\<close>, \<^verbatim>\<open>kernel/kernel.h\<close>, panics and the log.
    \<^item> \<open>Vm\<close>, \<open>Access\<close>, \<open>Paging\<close>: \<^verbatim>\<open>kernel/vm.c\<close>, the processor's walk, and the lemmas that mapping
      changes exactly the range it is asked to; the kernel's page table is the identity.
    \<^item> \<open>Brk\<close>, \<open>Brk_Shrink\<close>: \<^verbatim>\<open>sbrk\<close> and its system calls of \<^verbatim>\<open>kernel/kernel.c\<close>, and what a shrinking
      break gives back. \<open>Brk\<close> interprets the allocator's contract on the system call.
    \<^item> \<open>Malloc\<close>, \<open>Heap_Info\<close>: \<^verbatim>\<open>uspace/malloc.c\<close>. \<open>Heap_Layout\<close> reads the heap as a list of blocks,
      \<open>Heap_Spec\<close> says what each operation does to the list, \<open>Heap_Client\<close> holds the locale
      \<open>break_provider\<close> (what the allocator relies on of \<^verbatim>\<open>sbrk\<close>) and the correctness of \<^verbatim>\<open>malloc\<close> inside
      it, \<open>Heap_Ops\<close> and \<open>Heap_Defrag\<close> the other operations, \<open>Heap_Sort\<close> the two sorts, as
      interpretations of one locale \<open>pair_sort\<close>. \<open>Heap_Props\<close>
      states the results over the kernel's \<^verbatim>\<open>sbrk\<close>; \<open>Heap_Arrays\<close> says what each call does to the arrays
      that a client holds, and \<open>Heap_Store\<close> shows that the allocator refines
      a store of independent arrays for every client. \<open>Heap_Walk\<close> has the passes of \<^verbatim>\<open>heap_info\<close> over the
      blocks, \<open>Heap_Report\<close> its arrays and sorts in memory, \<open>Heap_Info_Props\<close> its report.
    \<^item> \<open>Hardware\<close>, \<open>Hardware_Props\<close>, \<open>Keyboard\<close>, \<open>Keys\<close>: \<^verbatim>\<open>kernel/k-hardware.c\<close>: descriptor tables,
      interrupt controllers, timer, PCI, power, key codes and control keys.
    \<^item> \<open>Kvm\<close>, \<open>Elf\<close>, \<open>Loader\<close>, \<open>Loading\<close>: the parameter for \<^verbatim>\<open>kernel/k-vm.o\<close>, \<^verbatim>\<open>shared/elf.h\<close> and
      \<^verbatim>\<open>kernel/k-loader.c\<close>; the copy of a segment through the process's page table.
    \<^item> \<open>Syscalls\<close>, \<open>Checks\<close>, \<open>Exceptions\<close>: the rest of \<^verbatim>\<open>kernel/kernel.c\<close>: page owners, process set-up,
      each arm of the exception switch, the invariants checked at run time, the memory pictures,
      \<^verbatim>\<open>run\<close>, \<^verbatim>\<open>schedule\<close>, \<^verbatim>\<open>exception\<close> and \<^verbatim>\<open>kernel\<close>.
    \<^item> \<open>Kernel_Inv\<close>, \<open>Kernel_Steps\<close>, \<open>Kernel_Start\<close>, \<open>Kernel_Props\<close>: the system as a step relation from
      boot; the invariant of all reachable states; the start of the kernel.
    \<^item> \<open>Scheduler\<close>, \<open>Faults\<close>, \<open>Calls\<close>, \<open>Invariants\<close>: round robin, page faults, the calls that write to
      the process, and the run-time checks against a declarative invariant.
    \<^item> \<open>Isolation\<close>, \<open>Isolation_Page\<close>, \<open>Isolation_Props\<close>: processes write only their own data pages, so page
      tables, the kernel and other processes are safe from them; page faults on the heap keep it so.
    \<^item> \<open>Process\<close>, \<open>Programs\<close>, \<open>Program_Props\<close>, \<open>Alloctests\<close>: \<^verbatim>\<open>uspace/process.h\<close>, \<^verbatim>\<open>process.c\<close> and the user
      programs, three of which are shown to run to their end.
    \<^item> \<open>Tests\<close>, \<open>Break_Tests\<close>, \<open>Alloc_Tests\<close>: ten programs of \<^verbatim>\<open>tests/\<close>, which are shown to pass on the
      kernel's break and on the allocator.
    \<^item> \<open>Boot\<close>, \<open>Boot_Props\<close>, \<open>Boot_Kernel\<close>: \<^verbatim>\<open>kernel/boot.c\<close>: sectors and segments; then the whole loader over
      the contents of the disk, from the sectors it asks for to the segments in memory.
    \<^item> \<open>Mkbootdisk\<close>, \<open>Mkbootdisk_Props\<close>: \<^verbatim>\<open>build/mkbootdisk.c\<close>. \<open>Boot_Image\<close> composes the
      two: the kernel that the build puts on the disk is the one the loader leaves in memory.

  \<^bold>\<open>Hypotheses.\<close> \<^verbatim>\<open>kernel/k-vm.o\<close> exists only as an object file: page allocation, \<^verbatim>\<open>fork\<close> and process
  release are the fields of the record \<open>kvm\<close>, and \<open>kvm_ok\<close> states what the kernel relies on: they
  keep the shape of the process table. \<open>link_ok\<close> states where the linker script puts the kernel's
  page tables and labels. The disk answers in the end (\<open>disk_answers\<close>) and delivers the
  sectors of \<open>boot_plan\<close> one after the other (\<open>serves\<close>), which are those the loader is shown to ask for;
  writes make progress (\<open>progress\<close>), and the keyboard is quiet (\<open>quiet\<close>) where a property says so. Each has an instance
  in a witness.

  \<^bold>\<open>Bounds.\<close> The tables that the paging lemmas cover are the five pages that \<^verbatim>\<open>virtual_memory_init\<close> and
  the process set-up build, for addresses below 4 MB; the kernel gives processes 3 MB. Allocation
  sizes are below 2 to the 63, since \<^verbatim>\<open>sbrk\<close> takes a signed increment; above that the code wraps, as
  \<open>malloc_size_max_wraps\<close> shows.

  \<^bold>\<open>Not modelled.\<close> Assembly (\<^verbatim>\<open>bootstart.S\<close>, \<^verbatim>\<open>k-exception.S\<close>): \<open>run\<close> ends where control leaves C. The
  processor's large pages, TLB and caches; user instructions other than stores and traps, which
  cannot change the kernel's state. Wrappers of \<^verbatim>\<open>x86-64.h\<close> that nothing calls and that act on such
  state. Messages of \<^verbatim>\<open>mkbootdisk\<close> on standard error and its \<^verbatim>\<open>-p -m\<close> combination. The Linux shim
  (\<^verbatim>\<open>process-linux.c\<close>) and \<^verbatim>\<open>qemu-nograb.c\<close>, which only forward to host libraries, the tests that time the kernel or print what
  \<^verbatim>\<open>heap_info\<close> reports, the build files, the unfinished starter and the Rust ports.
\<close>

end
